(* ===== verification/Prelude.thy ===== *)
theory Prelude
  imports Main "HOL-Library.Word" "HOL-Library.Multiset" "HOL-Library.Sublist"
begin

text \<open>
  Shared vocabulary of the development: the three-valued parse result, the exceptions that
  can leave a routine, the byte constants the parsers compare against, the record of
  third-party helper functions the sources call (\<open>sl::utils\<close>, \<open>sl::support\<close>), and the
  generic facts about lists that the component theories share.
\<close>

section \<open>Fact collections\<close>

named_theorems char_class \<open>classification of the bytes the parsers compare against\<close>
named_theorems dict_simps \<open>laws of the case-insensitive multimap\<close>
named_theorems loop_simps \<open>unfolding equations of the byte loops\<close>

section \<open>Results, exceptions, bytes\<close>

text \<open>
  \<open>sl::support::tribool\<close> is a three-valued flag; the comments in
  \<open>src/src/http_parser.cpp\<close> fix the meaning of the values: \<open>false\<close> is an error,
  \<open>true\<close> is "finished", \<open>indeterminate\<close> is "parsed the bytes, not yet finished".
\<close>

datatype tribool = TFalse | TTrue | Indeterminate

text \<open>
  What can leave a routine other than by return: an exception of the program
  (\<open>pion_exception\<close>), the \<open>std::length_error\<close> of \<open>std::string::assign\<close>, an
  \<open>asio::system_error\<close>, the exception of a helper of another library, or an access outside a buffer (undefined behaviour in C++, made a value here so that its absence is a
  theorem).
\<close>

datatype exn = Pion_exception string | Length_error | Memory_fault | System_error | Library_exception

type_synonym byte_string = "char list"

abbreviation CR :: char where "CR \<equiv> CHR 0x0D"
abbreviation LF :: char where "LF \<equiv> CHR 0x0A"
abbreviation TAB :: char where "TAB \<equiv> CHR 0x09"
abbreviation SP :: char where "SP \<equiv> CHR 0x20"
abbreviation DQUOTE :: char where "DQUOTE \<equiv> CHR 0x22"
abbreviation SQUOTE :: char where "SQUOTE \<equiv> CHR 0x27"

section \<open>Third-party helpers\<close>

text \<open>
  A multimap of the program is kept as the list of its entries in the order they were
  inserted. The order in which \<open>std::unordered_multimap\<close> iterates over them, and so which
  of several equal keys \<open>find\<close> meets first, is left open by the C++ standard: the field
  \<open>bucket_order\<close> is that order, an arbitrary rearrangement.
\<close>

type_synonym dict = "(byte_string \<times> byte_string) list"

text \<open>
  The functions of \<open>staticlib_utils\<close> and \<open>staticlib_support\<close> are not part of this
  repository. They are the fields of a record that every definition using them takes as its
  first argument. \<open>parse_uint16\<close> and \<open>parse_uint64\<close> throw on a malformed number: \<open>None\<close>; whether
  what they throw is a \<open>std::runtime_error\<close> is the field \<open>parse_throws_runtime_error\<close>.
\<close>

record sl_utils =
  iequals :: "byte_string \<Rightarrow> byte_string \<Rightarrow> bool"
  url_decode :: "byte_string \<Rightarrow> byte_string"
  url_encode :: "byte_string \<Rightarrow> byte_string"
  trim :: "byte_string \<Rightarrow> byte_string"
  split_on :: "byte_string \<Rightarrow> char \<Rightarrow> byte_string list"
  parse_uint16 :: "byte_string \<Rightarrow> 16 word option"
  parse_uint64 :: "byte_string \<Rightarrow> 64 word option"
  parse_throws_runtime_error :: bool
  to_string :: "nat \<Rightarrow> byte_string"
  bucket_order :: "dict \<Rightarrow> dict"

text \<open>
  What the multimap code relies on: \<open>iequals\<close>, documented as a case-insensitive comparison,
  is an equivalence, and iterating over a container meets each of its elements once.
\<close>

locale sl_env =
  fixes E :: sl_utils
  assumes iequals_refl: "iequals E x x"
    and iequals_sym: "iequals E x y \<Longrightarrow> iequals E y x"
    and iequals_trans: "iequals E x y \<Longrightarrow> iequals E y z \<Longrightarrow> iequals E x z"
    and bucket_mset: "mset (bucket_order E d) = mset d"
begin

lemma iequals_cong: "iequals E x y \<Longrightarrow> iequals E x z = iequals E y z"
  by (meson iequals_sym iequals_trans)

lemma set_bucket_order: "set (bucket_order E d) = set d"
  using bucket_mset [of d] by (metis set_mset_mset)

end

section \<open>Searching in strings\<close>

text \<open>
  \<open>std::search\<close> and \<open>std::string::find\<close>: the first position at or after \<open>i\<close> where
  \<open>pat\<close> occurs in \<open>s\<close>; \<open>None\<close> is \<open>npos\<close> (or the end iterator).
\<close>

fun is_prefix_of :: "'a list \<Rightarrow> 'a list \<Rightarrow> bool" where
  "is_prefix_of [] ys = True"
| "is_prefix_of (x # xs) [] = False"
| "is_prefix_of (x # xs) (y # ys) = (x = y \<and> is_prefix_of xs ys)"

fun search_list :: "'a list \<Rightarrow> 'a list \<Rightarrow> nat option" where
  "search_list pat [] = (if pat = [] then Some 0 else None)"
| "search_list pat (y # ys) =
     (if is_prefix_of pat (y # ys) then Some 0 else map_option Suc (search_list pat ys))"

definition search_from :: "'a list \<Rightarrow> 'a list \<Rightarrow> nat \<Rightarrow> nat option" where
  "search_from pat s i = map_option (\<lambda>k. i + k) (search_list pat (drop i s))"

lemma is_prefix_of_iff: "is_prefix_of xs ys \<longleftrightarrow> (\<exists>zs. ys = xs @ zs)"
  by (induction xs ys rule: is_prefix_of.induct) auto

lemma is_prefix_of_append [simp]: "is_prefix_of xs (xs @ ys)"
  by (induction xs) auto

lemma is_prefix_of_length: "is_prefix_of xs ys \<Longrightarrow> length xs \<le> length ys"
  by (auto simp: is_prefix_of_iff)

lemma search_list_sound:
  "search_list pat s = Some k \<Longrightarrow> is_prefix_of pat (drop k s) \<and> k + length pat \<le> length s"
proof (induction pat s arbitrary: k rule: search_list.induct)
  case (2 pat y ys)
  show ?case
  proof (cases "is_prefix_of pat (y # ys)")
    case True
    with 2 show ?thesis using is_prefix_of_length [OF True] by simp
  next
    case False
    with 2 show ?thesis by auto
  qed
qed (auto split: if_splits)

lemma search_list_first:
  "search_list pat s = Some k \<Longrightarrow> j < k \<Longrightarrow> \<not> is_prefix_of pat (drop j s)"
proof (induction pat s arbitrary: k j rule: search_list.induct)
  case (2 pat y ys)
  then show ?case by (cases j) (auto split: if_splits)
qed (auto split: if_splits)

lemma search_list_None:
  "search_list pat s = None \<Longrightarrow> \<not> is_prefix_of pat (drop j s)"
proof (induction pat s arbitrary: j rule: search_list.induct)
  case (1 pat)
  then show ?case by (cases pat) auto
next
  case (2 pat y ys)
  then show ?case by (cases j) (auto split: if_splits)
qed

lemma search_from_bound:
  "search_from pat s i = Some k \<Longrightarrow> i \<le> length s \<Longrightarrow> i \<le> k \<and> k + length pat \<le> length s"
  by (auto simp: search_from_def dest!: search_list_sound)

text \<open>A one-character search stops at the first occurrence of the character.\<close>

lemma search_single_notin [simp]: "c \<notin> set xs \<Longrightarrow> search_list [c] xs = None"
  by (induction xs) auto

lemma search_single_append [simp]:
  "c \<notin> set xs \<Longrightarrow> search_list [c] (xs @ c # ys) = Some (length xs)"
  by (induction xs) auto

section \<open>Numerals in strings\<close>

text \<open>The value of a digit string in a base, most significant digit first.\<close>

fun digits_value :: "nat \<Rightarrow> nat \<Rightarrow> nat list \<Rightarrow> nat" where
  "digits_value b acc [] = acc"
| "digits_value b acc (d # ds) = digits_value b (acc * b + d) ds"

lemma digits_value_append:
  "digits_value b acc (xs @ ys) = digits_value b (digits_value b acc xs) ys"
  by (induction xs arbitrary: acc) auto

end
