(* ===== verification/Algorithm.thy ===== *)
theory Algorithm
  imports Prelude
begin

unbundle bit_operations_syntax

text \<open>
  \<open>src/include/staticlib/pion/algorithm.hpp\<close> and the character predicates at the end of
  \<open>http_parser\<close>: byte classification, the case-insensitive hash and equality of the header
  maps.
\<close>

section \<open>Byte classification\<close>

text \<open>
  The predicates take an \<open>int\<close>; a \<open>char\<close> argument is promoted. \<open>char\<close> is signed on the
  x86 builds, so bytes from 128 on arrive as negative numbers.
\<close>

definition char_value :: "char \<Rightarrow> int" where
  "char_value c = (let n = of_char c in if n < 128 then n else n - 256)"

definition is_char :: "int \<Rightarrow> bool" where
  "is_char c \<longleftrightarrow> 0 \<le> c \<and> c \<le> 127"

definition is_control :: "int \<Rightarrow> bool" where
  "is_control c \<longleftrightarrow> (0 \<le> c \<and> c \<le> 31) \<or> c = 127"

definition is_special :: "int \<Rightarrow> bool" where
  "is_special c \<longleftrightarrow> c \<in> {40, 41, 60, 62, 64,
     44, 59, 58, 92, 34,
     47, 91, 93, 63, 61,
     123, 125, 32, 9}"

definition is_digit :: "int \<Rightarrow> bool" where
  "is_digit c \<longleftrightarrow> 48 \<le> c \<and> c \<le> 57"

definition is_hex_digit :: "int \<Rightarrow> bool" where
  "is_hex_digit c \<longleftrightarrow> (48 \<le> c \<and> c \<le> 57) \<or> (97 \<le> c \<and> c \<le> 102) \<or> (65 \<le> c \<and> c \<le> 70)"

section \<open>Hashing and equality of header names\<close>

text \<open>
  \<open>std::toupper\<close> in the \<open>C\<close> locale. \<open>std::hash<int>\<close> is implementation-defined and a
  parameter.
\<close>

definition toupper :: "int \<Rightarrow> int" where
  "toupper c = (if 97 \<le> c \<and> c \<le> 122 then c - 32 else c)"

definition hash_combine :: "(int \<Rightarrow> 64 word) \<Rightarrow> 64 word \<Rightarrow> int \<Rightarrow> 64 word" where
  "hash_combine hasher seed v =
     seed XOR (hasher v + 0x9e3779b9 + push_bit 6 seed + drop_bit 2 seed)"

definition iequal_to :: "sl_utils \<Rightarrow> byte_string \<Rightarrow> byte_string \<Rightarrow> bool" where
  "iequal_to E x y = iequals E x y"

fun ihash_loop :: "(int \<Rightarrow> 64 word) \<Rightarrow> 64 word \<Rightarrow> byte_string \<Rightarrow> 64 word" where
  "ihash_loop hasher seed [] = seed"
| "ihash_loop hasher seed (c # cs) =
     ihash_loop hasher (hash_combine hasher seed (toupper (char_value c))) cs"

definition ihash :: "(int \<Rightarrow> 64 word) \<Rightarrow> byte_string \<Rightarrow> 64 word" where
  "ihash hasher x = ihash_loop hasher 0 x"

section \<open>Lemmas\<close>

lemma of_char_nat_bound: "of_char c < (256 :: nat)"
  using of_char_mod_256 [of c, where 'a = nat] by (metis mod_less_divisor zero_less_numeral)

lemma of_char_int: "(of_char c :: int) = int (of_char c)"
  by (simp add: of_nat_of_char)

lemma char_value_char_of: "n < 128 \<Longrightarrow> char_value (char_of n) = int n"
  by (simp add: char_value_def of_char_int [of "char_of n"] del: of_nat_of_char)

lemma of_char_int_bounds: "0 \<le> (of_char c :: int)" "(of_char c :: int) < 256"
  using of_char_nat_bound [of c] by (simp_all only: of_char_int)

text \<open>
  The classification does not depend on the signedness of \<open>char\<close>: reading the byte as an
  unsigned number gives the same answers.
\<close>

lemma classification_unsigned:
  "is_char (char_value c) = is_char (of_char c)"
  "is_control (char_value c) = is_control (of_char c)"
  "is_special (char_value c) = is_special (of_char c)"
  "is_digit (char_value c) = is_digit (of_char c)"
  "is_hex_digit (char_value c) = is_hex_digit (of_char c)"
  using of_char_int_bounds [of c]
  by (auto simp: char_value_def Let_def is_char_def is_control_def
      is_special_def is_digit_def is_hex_digit_def)

end
