(* ===== verification/Reference_Utils.thy ===== *)
theory Reference_Utils
  imports Algorithm
begin

text \<open>
  A concrete, executable instance of the third-party helpers, used to show that the
  hypotheses of the theorems can hold: ASCII case-insensitive comparison, percent coding,
  decimal numbers, insertion order for the multimap. It also names the documented behaviour
  (\<open>dec_string\<close>, \<open>upper_string\<close>) that some theorems assume of the real helpers.
\<close>

section \<open>Case-insensitive comparison\<close>

definition upper_string :: "byte_string \<Rightarrow> int list" where
  "upper_string s = map (\<lambda>c. toupper (char_value c)) s"

definition iequals_ref :: "byte_string \<Rightarrow> byte_string \<Rightarrow> bool" where
  "iequals_ref x y \<longleftrightarrow> upper_string x = upper_string y"

section \<open>Decimal numbers\<close>

definition digit_char :: "nat \<Rightarrow> char" where
  "digit_char n = char_of (48 + n)"

fun dec_string :: "nat \<Rightarrow> byte_string" where
  "dec_string n = (if n < 10 then [digit_char n] else dec_string (n div 10) @ [digit_char (n mod 10)])"

declare dec_string.simps [simp del]

definition digit_of :: "char \<Rightarrow> nat" where
  "digit_of c = nat (char_value c - 48)"

definition dec_value :: "byte_string \<Rightarrow> nat" where
  "dec_value s = digits_value 10 0 (map digit_of s)"

definition parse_uint_ref :: "nat \<Rightarrow> byte_string \<Rightarrow> nat option" where
  "parse_uint_ref bound s =
     (if s \<noteq> [] \<and> list_all (\<lambda>c. is_digit (char_value c)) s \<and> dec_value s < bound
      then Some (dec_value s) else None)"

section \<open>Percent coding\<close>

definition hex_char :: "nat \<Rightarrow> char" where
  "hex_char n = (if n < 10 then char_of (48 + n) else char_of (87 + n))"

definition hex_value :: "char \<Rightarrow> nat option" where
  "hex_value c =
     (let v = char_value c in
      if 48 \<le> v \<and> v \<le> 57 then Some (nat (v - 48))
      else if 97 \<le> v \<and> v \<le> 102 then Some (nat (v - 87))
      else if 65 \<le> v \<and> v \<le> 70 then Some (nat (v - 55))
      else None)"

definition is_unreserved :: "char \<Rightarrow> bool" where
  "is_unreserved c \<longleftrightarrow>
     (let v = char_value c in (48 \<le> v \<and> v \<le> 57) \<or> (65 \<le> v \<and> v \<le> 90) \<or> (97 \<le> v \<and> v \<le> 122))"

fun url_encode_ref :: "byte_string \<Rightarrow> byte_string" where
  "url_encode_ref [] = []"
| "url_encode_ref (c # cs) =
     (if is_unreserved c then [c]
      else [CHR ''%'', hex_char (of_char c div 16), hex_char (of_char c mod 16)])
     @ url_encode_ref cs"

fun url_decode_ref :: "byte_string \<Rightarrow> byte_string" where
  "url_decode_ref [] = []"
| "url_decode_ref (c # cs) =
     (if c = CHR ''%'' then
        (case cs of
           a # b # rest \<Rightarrow>
             (case (hex_value a, hex_value b) of
                (Some x, Some y) \<Rightarrow> char_of (16 * x + y) # url_decode_ref rest
              | _ \<Rightarrow> c # url_decode_ref cs)
         | _ \<Rightarrow> c # url_decode_ref cs)
      else if c = CHR ''+'' then SP # url_decode_ref cs
      else c # url_decode_ref cs)"

section \<open>Splitting and trimming\<close>

fun split_ref :: "byte_string \<Rightarrow> char \<Rightarrow> byte_string list" where
  "split_ref [] d = [[]]"
| "split_ref (c # cs) d =
     (if c = d then [] # split_ref cs d
      else case split_ref cs d of [] \<Rightarrow> [[c]] | x # xs \<Rightarrow> (c # x) # xs)"

definition trim_ref :: "byte_string \<Rightarrow> byte_string" where
  "trim_ref s = rev (dropWhile (\<lambda>c. c = SP) (rev (dropWhile (\<lambda>c. c = SP) s)))"

definition utils_ref :: sl_utils where
  "utils_ref =
     \<lparr>iequals = iequals_ref, url_decode = url_decode_ref, url_encode = url_encode_ref,
      trim = trim_ref, split_on = split_ref,
      parse_uint16 = (\<lambda>s. map_option of_nat (parse_uint_ref (2 ^ 16) s)),
      parse_uint64 = (\<lambda>s. map_option of_nat (parse_uint_ref (2 ^ 64) s)),
      parse_throws_runtime_error = True, to_string = dec_string, bucket_order = (\<lambda>d. d)\<rparr>"

section \<open>Laws of the instance\<close>

interpretation ref: sl_env utils_ref
  by unfold_locales (auto simp: utils_ref_def iequals_ref_def)

lemma utils_ref_sel [simp]:
  "iequals utils_ref = iequals_ref" "url_decode utils_ref = url_decode_ref"
  "url_encode utils_ref = url_encode_ref" "trim utils_ref = trim_ref"
  "split_on utils_ref = split_ref" "to_string utils_ref = dec_string"
  "bucket_order utils_ref d = d"
  "parse_uint64 utils_ref s = map_option of_nat (parse_uint_ref (2 ^ 64) s)"
  "parse_uint16 utils_ref s = map_option of_nat (parse_uint_ref (2 ^ 16) s)"
  by (simp_all add: utils_ref_def)

lemma char_value_digit_char [char_class]: "n < 10 \<Longrightarrow> char_value (digit_char n) = 48 + int n"
  by (simp add: digit_char_def char_value_char_of)

lemma digit_char_numerals [simp]:
  "digit_char 0 = CHR ''0''" "digit_char (Suc 0) = CHR ''1''" "digit_char 1 = CHR ''1''"
  "digit_char 2 = CHR ''2''" "digit_char 3 = CHR ''3''" "digit_char 4 = CHR ''4''"
  "digit_char 5 = CHR ''5''" "digit_char 6 = CHR ''6''" "digit_char 7 = CHR ''7''"
  "digit_char 8 = CHR ''8''" "digit_char 9 = CHR ''9''"
  by (simp_all add: digit_char_def char_of_def bit_0)

lemma digit_of_digit_char [simp]: "n < 10 \<Longrightarrow> digit_of (digit_char n) = n"
  by (simp add: digit_of_def char_value_digit_char)

lemma is_digit_digit_char [char_class]: "n < 10 \<Longrightarrow> is_digit (char_value (digit_char n))"
  by (simp add: is_digit_def char_value_digit_char)

lemma dec_string_digits: "list_all (\<lambda>c. is_digit (char_value c)) (dec_string n)"
proof (induction n rule: dec_string.induct)
  case (1 n)
  then show ?case
    by (cases "n < 10") (simp_all add: dec_string.simps [of n] is_digit_digit_char)
qed

lemma dec_string_nonempty [simp]: "dec_string n \<noteq> []"
  by (subst dec_string.simps) simp

lemma dec_value_dec_string [simp]: "dec_value (dec_string n) = n"
proof (induction n rule: dec_string.induct)
  case (1 n)
  show ?case
  proof (cases "n < 10")
    case True
    then show ?thesis by (simp add: dec_string.simps [of n] dec_value_def)
  next
    case False
    with 1 have "digits_value 10 0 (map digit_of (dec_string (n div 10))) = n div 10"
      by (simp add: dec_value_def)
    with False show ?thesis
      by (simp add: dec_string.simps [of n] dec_value_def digits_value_append)
  qed
qed

lemma parse_uint_dec_string: "n < bound \<Longrightarrow> parse_uint_ref bound (dec_string n) = Some n"
  by (simp add: parse_uint_ref_def dec_string_digits)

lemma hex_value_hex_char: "n < 16 \<Longrightarrow> hex_value (hex_char n) = Some n"
  by (auto simp: hex_value_def hex_char_def char_value_char_of Let_def)

lemma nibbles: "of_char c div 16 < (16 :: nat)" "of_char c mod 16 < (16 :: nat)"
  using of_char_nat_bound [of c] by (simp_all add: less_mult_imp_div_less)

lemma url_decode_encode_ref: "url_decode_ref (url_encode_ref s) = s"
proof (induction s)
  case (Cons c cs)
  have nib: "of_char c div 16 < (16 :: nat)" "of_char c mod 16 < (16 :: nat)"
    by (rule nibbles)+
  have rejoin: "char_of (16 * (of_char c div 16) + of_char c mod 16 :: nat) = c"
    by simp
  have res: "\<not> is_unreserved (CHR ''%'')" "\<not> is_unreserved (CHR ''+'')"
    by (simp_all add: is_unreserved_def char_value_def)
  show ?case
    using Cons nib rejoin res by (auto simp: hex_value_hex_char)
qed simp

lemma url_encode_ref_chars:
  "c \<in> set (url_encode_ref s) \<Longrightarrow> is_unreserved c \<or> c = CHR ''%''"
proof (induction s)
  case (Cons a s)
  have nib: "of_char a div 16 < (16 :: nat)" "of_char a mod 16 < (16 :: nat)"
    by (rule nibbles)+
  have hex: "n < 16 \<Longrightarrow> is_unreserved (hex_char n)" for n
    by (auto simp: is_unreserved_def hex_char_def char_value_char_of Let_def)
  show ?case using Cons nib hex by (auto split: if_splits)
qed simp

lemma url_encode_ref_Nil [simp]: "url_encode_ref s = [] \<longleftrightarrow> s = []"
  by (cases s) auto

end
