(* ===== verification/Http_Message.thy ===== *)
theory Http_Message
  imports Reference_Utils
begin

text \<open>
  \<open>http_message.hpp\<close> and \<open>http_message.cpp\<close>: the case-insensitive multimap of headers,
  the content buffer, the message container with its operations, and the serialisation of a
  message head. Subclasses (request, response) extend the record, so every operation works
  on any extension.
\<close>

section \<open>Constants\<close>

definition STRING_EMPTY :: byte_string where "STRING_EMPTY = []"
definition STRING_CRLF :: byte_string where "STRING_CRLF = [CR, LF]"
definition STRING_HTTP_VERSION :: byte_string where "STRING_HTTP_VERSION = ''HTTP/''"
definition HEADER_NAME_VALUE_DELIMITER :: byte_string where "HEADER_NAME_VALUE_DELIMITER = '': ''"
definition COOKIE_NAME_VALUE_DELIMITER :: byte_string where "COOKIE_NAME_VALUE_DELIMITER = ''=''"
definition HEADER_COOKIE :: byte_string where "HEADER_COOKIE = ''Cookie''"
definition HEADER_SET_COOKIE :: byte_string where "HEADER_SET_COOKIE = ''Set-Cookie''"
definition HEADER_CONNECTION :: byte_string where "HEADER_CONNECTION = ''Connection''"
definition HEADER_CONTENT_TYPE :: byte_string where "HEADER_CONTENT_TYPE = ''Content-Type''"
definition HEADER_CONTENT_LENGTH :: byte_string where "HEADER_CONTENT_LENGTH = ''Content-Length''"
definition HEADER_CONTENT_DISPOSITION :: byte_string where
  "HEADER_CONTENT_DISPOSITION = ''Content-Disposition''"
definition HEADER_TRANSFER_ENCODING :: byte_string where
  "HEADER_TRANSFER_ENCODING = ''Transfer-Encoding''"
definition CONTENT_TYPE_URLENCODED :: byte_string where
  "CONTENT_TYPE_URLENCODED = ''application/x-www-form-urlencoded''"
definition CONTENT_TYPE_MULTIPART_FORM_DATA :: byte_string where
  "CONTENT_TYPE_MULTIPART_FORM_DATA = ''multipart/form-data''"
definition REQUEST_METHOD_HEAD :: byte_string where "REQUEST_METHOD_HEAD = ''HEAD''"
definition REQUEST_METHOD_GET :: byte_string where "REQUEST_METHOD_GET = ''GET''"
definition REQUEST_METHOD_PUT :: byte_string where "REQUEST_METHOD_PUT = ''PUT''"
definition REQUEST_METHOD_POST :: byte_string where "REQUEST_METHOD_POST = ''POST''"
definition REQUEST_METHOD_DELETE :: byte_string where "REQUEST_METHOD_DELETE = ''DELETE''"
definition REQUEST_METHOD_OPTIONS :: byte_string where "REQUEST_METHOD_OPTIONS = ''OPTIONS''"
definition RESPONSE_MESSAGE_OK :: byte_string where "RESPONSE_MESSAGE_OK = ''OK''"
definition RESPONSE_MESSAGE_NOT_FOUND :: byte_string where "RESPONSE_MESSAGE_NOT_FOUND = ''Not Found''"
definition RESPONSE_MESSAGE_BAD_REQUEST :: byte_string where
  "RESPONSE_MESSAGE_BAD_REQUEST = ''Bad Request''"
definition RESPONSE_CODE_OK :: "32 word" where "RESPONSE_CODE_OK = 200"
definition RESPONSE_CODE_NOT_FOUND :: "32 word" where "RESPONSE_CODE_NOT_FOUND = 404"
definition RESPONSE_CODE_BAD_REQUEST :: "32 word" where "RESPONSE_CODE_BAD_REQUEST = 400"
definition RESPONSE_FULLMESSAGE_100_CONTINUE :: byte_string where
  "RESPONSE_FULLMESSAGE_100_CONTINUE = ''HTTP/1.1 100 Continue'' @ [CR, LF, CR, LF]"

lemmas method_names = REQUEST_METHOD_HEAD_def REQUEST_METHOD_GET_def REQUEST_METHOD_PUT_def
  REQUEST_METHOD_POST_def REQUEST_METHOD_DELETE_def REQUEST_METHOD_OPTIONS_def

section \<open>The multimap of headers\<close>

text \<open>
  \<open>std::unordered_multimap<std::string, std::string, ihash, iequal_to>\<close>: insertion, and the
  range of the entries whose key equals a given one, in iteration order.
\<close>

definition dict_insert :: "dict \<Rightarrow> byte_string \<Rightarrow> byte_string \<Rightarrow> dict" where
  "dict_insert d k v = d @ [(k, v)]"

definition equal_range :: "sl_utils \<Rightarrow> dict \<Rightarrow> byte_string \<Rightarrow> dict" where
  "equal_range E d k = filter (\<lambda>kv. iequal_to E (fst kv) k) (bucket_order E d)"

definition dict_find :: "sl_utils \<Rightarrow> dict \<Rightarrow> byte_string \<Rightarrow> (byte_string \<times> byte_string) option" where
  "dict_find E d k = (case equal_range E d k of [] \<Rightarrow> None | kv # _ \<Rightarrow> Some kv)"

definition get_value :: "sl_utils \<Rightarrow> dict \<Rightarrow> byte_string \<Rightarrow> byte_string" where
  "get_value E d k = (case dict_find E d k of None \<Rightarrow> STRING_EMPTY | Some kv \<Rightarrow> snd kv)"

text \<open>
  \<open>change_value\<close> overwrites the value of the first entry of the range, whose key text stays,
  and erases the other entries of the range.
\<close>

definition change_value :: "sl_utils \<Rightarrow> dict \<Rightarrow> byte_string \<Rightarrow> byte_string \<Rightarrow> dict" where
  "change_value E d k v =
     (case equal_range E d k of
        [] \<Rightarrow> dict_insert d k v
      | kv # _ \<Rightarrow> filter (\<lambda>e. \<not> iequal_to E (fst e) k) d @ [(fst kv, v)])"

definition delete_value :: "sl_utils \<Rightarrow> dict \<Rightarrow> byte_string \<Rightarrow> dict" where
  "delete_value E d k =
     (case equal_range E d k of
        [] \<Rightarrow> d
      | _ # _ \<Rightarrow> filter (\<lambda>e. \<not> iequal_to E (fst e) k) d)"

text \<open>The contents as the clients see them: the values stored under a key, without order.\<close>

definition dict_values :: "sl_utils \<Rightarrow> dict \<Rightarrow> byte_string \<Rightarrow> byte_string multiset" where
  "dict_values E d k = mset (map snd (equal_range E d k))"

section \<open>Content buffer\<close>

text \<open>
  A buffer of \<open>m_len\<close> bytes is allocated with one more byte for a terminating zero; the empty
  buffer points at the member \<open>m_empty\<close>, again one zero byte. \<open>cb_ptr\<close> is what \<open>m_ptr\<close>
  points to, the extra byte included. The size of the allocation, \<open>len + 1\<close>, is computed in
  \<open>std::size_t\<close> (64 bits): it is 0 for the largest length.
\<close>

definition SIZE_MAX :: nat where
  "SIZE_MAX = 2 ^ 64 - 1"

record content_buffer_t =
  cb_len :: nat
  cb_ptr :: byte_string

definition resize :: "nat \<Rightarrow> content_buffer_t" where
  "resize len =
     \<lparr>cb_len = len,
      cb_ptr = (if len = 0 then [CHR 0x00] else replicate ((len + 1) mod (SIZE_MAX + 1)) (CHR 0x00))\<rparr>"

lemma resize_0 [simp]: "resize 0 = \<lparr>cb_len = 0, cb_ptr = [CHR 0x00]\<rparr>"
  by (simp add: resize_def)

lemma resize_fits: "len < SIZE_MAX \<Longrightarrow> resize len = \<lparr>cb_len = len, cb_ptr = replicate (len + 1) (CHR 0x00)\<rparr>"
  by (simp add: resize_def)

lemma resize_wraps: "resize SIZE_MAX = \<lparr>cb_len = SIZE_MAX, cb_ptr = []\<rparr>"
  by (simp add: resize_def) (simp add: SIZE_MAX_def)

definition content_buffer_clear :: content_buffer_t where
  "content_buffer_clear = resize 0"

text \<open>\<open>memcpy\<close> and a read of \<open>n\<close> bytes, with the access outside the object made explicit.\<close>

definition memcpy_at :: "byte_string \<Rightarrow> nat \<Rightarrow> byte_string \<Rightarrow> exn + byte_string" where
  "memcpy_at dest off src =
     (if off + length src \<le> length dest
      then Inr (take off dest @ src @ drop (off + length src) dest) else Inl Memory_fault)"

definition read_mem :: "byte_string \<Rightarrow> nat \<Rightarrow> exn + byte_string" where
  "read_mem buf n = (if n \<le> length buf then Inr (take n buf) else Inl Memory_fault)"

definition content_buffer_copy :: "content_buffer_t \<Rightarrow> exn + content_buffer_t" where
  "content_buffer_copy buf =
     (if cb_len buf \<noteq> 0
      then case read_mem (cb_ptr buf) (cb_len buf) of
             Inl e \<Rightarrow> Inl e
           | Inr bs \<Rightarrow> map_sum id (\<lambda>q. \<lparr>cb_len = cb_len buf, cb_ptr = q\<rparr>)
                         (memcpy_at (cb_ptr (resize (cb_len buf))) 0 bs)
      else Inr content_buffer_clear)"

section \<open>The message\<close>

datatype data_status_type = STATUS_NONE | STATUS_TRUNCATED | STATUS_PARTIAL | STATUS_OK

datatype ip_address = Address_v4 "32 word" | Address_v6 "128 word"

record http_message =
  m_first_line :: byte_string
  m_is_valid :: bool
  m_is_chunked :: bool
  m_chunks_supported :: bool
  m_do_not_send_content_length :: bool
  m_remote_ip :: ip_address
  m_version_major :: "16 word"
  m_version_minor :: "16 word"
  m_content_length :: nat
  m_content_buf :: content_buffer_t
  m_chunk_cache :: byte_string
  m_headers :: dict
  m_cookie_params :: dict
  m_status :: data_status_type
  m_has_missing_packets :: bool
  m_has_data_after_missing :: bool

definition new_http_message :: http_message where
  "new_http_message =
     \<lparr>m_first_line = [], m_is_valid = False, m_is_chunked = False, m_chunks_supported = False,
      m_do_not_send_content_length = False, m_remote_ip = Address_v4 0,
      m_version_major = 1, m_version_minor = 1, m_content_length = 0,
      m_content_buf = content_buffer_clear, m_chunk_cache = [], m_headers = [],
      m_cookie_params = [], m_status = STATUS_NONE, m_has_missing_packets = False,
      m_has_data_after_missing = False\<rparr>"

text \<open>The copy constructor: every member but \<open>m_cookie_params\<close>, which starts empty.\<close>

definition copy_http_message :: "http_message \<Rightarrow> exn + http_message" where
  "copy_http_message src =
     map_sum id (\<lambda>buf. new_http_message
       \<lparr>m_first_line := m_first_line src, m_is_valid := m_is_valid src,
        m_is_chunked := m_is_chunked src, m_chunks_supported := m_chunks_supported src,
        m_do_not_send_content_length := m_do_not_send_content_length src,
        m_remote_ip := m_remote_ip src, m_version_major := m_version_major src,
        m_version_minor := m_version_minor src, m_content_length := m_content_length src,
        m_content_buf := buf, m_chunk_cache := m_chunk_cache src, m_headers := m_headers src,
        m_status := m_status src, m_has_missing_packets := m_has_missing_packets src,
        m_has_data_after_missing := m_has_data_after_missing src\<rparr>)
     (content_buffer_copy (m_content_buf src))"

definition clear_first_line :: "('a http_message_scheme) \<Rightarrow> 'a http_message_scheme" where
  "clear_first_line m = (if m_first_line m \<noteq> [] then m\<lparr>m_first_line := []\<rparr> else m)"

definition clear_http_message :: "'a http_message_scheme \<Rightarrow> 'a http_message_scheme" where
  "clear_http_message m = (clear_first_line m)
     \<lparr>m_is_valid := False, m_is_chunked := False, m_chunks_supported := False,
      m_do_not_send_content_length := False, m_remote_ip := Address_v4 0,
      m_version_major := 1, m_version_minor := 1, m_content_length := 0,
      m_content_buf := content_buffer_clear, m_chunk_cache := [], m_headers := [],
      m_cookie_params := [], m_status := STATUS_NONE, m_has_missing_packets := False,
      m_has_data_after_missing := False\<rparr>"

text \<open>The assignment operator from another message: again without \<open>m_cookie_params\<close>, which stay.\<close>

definition assign_http_message :: "http_message \<Rightarrow> http_message \<Rightarrow> exn + http_message" where
  "assign_http_message dest src =
     map_sum id (\<lambda>buf. dest
       \<lparr>m_first_line := m_first_line src, m_is_valid := m_is_valid src,
        m_is_chunked := m_is_chunked src, m_chunks_supported := m_chunks_supported src,
        m_do_not_send_content_length := m_do_not_send_content_length src,
        m_remote_ip := m_remote_ip src, m_version_major := m_version_major src,
        m_version_minor := m_version_minor src, m_content_length := m_content_length src,
        m_content_buf := buf, m_chunk_cache := m_chunk_cache src, m_headers := m_headers src,
        m_status := m_status src, m_has_missing_packets := m_has_missing_packets src,
        m_has_data_after_missing := m_has_data_after_missing src\<rparr>)
     (content_buffer_copy (m_content_buf src))"

text \<open>Setters of single members.\<close>

definition set_missing_packets :: "bool \<Rightarrow> 'a http_message_scheme \<Rightarrow> 'a http_message_scheme" where
  "set_missing_packets b m = m\<lparr>m_has_missing_packets := b\<rparr>"

definition set_data_after_missing_packet :: "bool \<Rightarrow> 'a http_message_scheme \<Rightarrow> 'a http_message_scheme" where
  "set_data_after_missing_packet b m = m\<lparr>m_has_data_after_missing := b\<rparr>"

definition set_is_valid :: "bool \<Rightarrow> 'a http_message_scheme \<Rightarrow> 'a http_message_scheme" where
  "set_is_valid b m = m\<lparr>m_is_valid := b\<rparr>"

definition set_chunks_supported :: "bool \<Rightarrow> 'a http_message_scheme \<Rightarrow> 'a http_message_scheme" where
  "set_chunks_supported b m = m\<lparr>m_chunks_supported := b\<rparr>"

definition set_remote_ip :: "ip_address \<Rightarrow> 'a http_message_scheme \<Rightarrow> 'a http_message_scheme" where
  "set_remote_ip ip m = m\<lparr>m_remote_ip := ip\<rparr>"

definition set_content_length :: "nat \<Rightarrow> 'a http_message_scheme \<Rightarrow> 'a http_message_scheme" where
  "set_content_length n m = m\<lparr>m_content_length := n\<rparr>"

definition set_do_not_send_content_length :: "'a http_message_scheme \<Rightarrow> 'a http_message_scheme" where
  "set_do_not_send_content_length m = m\<lparr>m_do_not_send_content_length := True\<rparr>"

definition set_status :: "data_status_type \<Rightarrow> 'a http_message_scheme \<Rightarrow> 'a http_message_scheme" where
  "set_status st m = m\<lparr>m_status := st\<rparr>"

definition get_version_string :: "sl_utils \<Rightarrow> 'a http_message_scheme \<Rightarrow> byte_string" where
  "get_version_string E m =
     STRING_HTTP_VERSION @ to_string E (unat (m_version_major m)) @ ''.''
       @ to_string E (unat (m_version_minor m))"

definition get_header :: "sl_utils \<Rightarrow> 'a http_message_scheme \<Rightarrow> byte_string \<Rightarrow> byte_string" where
  "get_header E m key = get_value E (m_headers m) key"

definition has_header :: "sl_utils \<Rightarrow> 'a http_message_scheme \<Rightarrow> byte_string \<Rightarrow> bool" where
  "has_header E m key \<longleftrightarrow> dict_find E (m_headers m) key \<noteq> None"

definition has_header_value ::
  "sl_utils \<Rightarrow> 'a http_message_scheme \<Rightarrow> byte_string \<Rightarrow> byte_string \<Rightarrow> bool" where
  "has_header_value E m key value \<longleftrightarrow>
     list_ex (\<lambda>kv.
       if search_list '','' (snd kv) = None then iequals E value (snd kv)
       else list_ex (\<lambda>el. iequals E value (trim E el)) (split_on E (snd kv) (CHR '','')))
     (equal_range E (m_headers m) key)"

definition add_header ::
  "byte_string \<Rightarrow> byte_string \<Rightarrow> 'a http_message_scheme \<Rightarrow> 'a http_message_scheme" where
  "add_header key value m = m\<lparr>m_headers := dict_insert (m_headers m) key value\<rparr>"

definition change_header ::
  "sl_utils \<Rightarrow> byte_string \<Rightarrow> byte_string \<Rightarrow> 'a http_message_scheme \<Rightarrow> 'a http_message_scheme" where
  "change_header E key value m = m\<lparr>m_headers := change_value E (m_headers m) key value\<rparr>"

definition delete_header ::
  "sl_utils \<Rightarrow> byte_string \<Rightarrow> 'a http_message_scheme \<Rightarrow> 'a http_message_scheme" where
  "delete_header E key m = m\<lparr>m_headers := delete_value E (m_headers m) key\<rparr>"

definition get_cookie :: "sl_utils \<Rightarrow> 'a http_message_scheme \<Rightarrow> byte_string \<Rightarrow> byte_string" where
  "get_cookie E m key = get_value E (m_cookie_params m) key"

definition has_cookie :: "sl_utils \<Rightarrow> 'a http_message_scheme \<Rightarrow> byte_string \<Rightarrow> bool" where
  "has_cookie E m key \<longleftrightarrow> dict_find E (m_cookie_params m) key \<noteq> None"

definition add_cookie ::
  "byte_string \<Rightarrow> byte_string \<Rightarrow> 'a http_message_scheme \<Rightarrow> 'a http_message_scheme" where
  "add_cookie key value m = m\<lparr>m_cookie_params := dict_insert (m_cookie_params m) key value\<rparr>"

definition change_cookie ::
  "sl_utils \<Rightarrow> byte_string \<Rightarrow> byte_string \<Rightarrow> 'a http_message_scheme \<Rightarrow> 'a http_message_scheme" where
  "change_cookie E key value m = m\<lparr>m_cookie_params := change_value E (m_cookie_params m) key value\<rparr>"

definition delete_cookie ::
  "sl_utils \<Rightarrow> byte_string \<Rightarrow> 'a http_message_scheme \<Rightarrow> 'a http_message_scheme" where
  "delete_cookie E key m = m\<lparr>m_cookie_params := delete_value E (m_cookie_params m) key\<rparr>"

definition set_version_major :: "16 word \<Rightarrow> 'a http_message_scheme \<Rightarrow> 'a http_message_scheme" where
  "set_version_major n m = clear_first_line (m\<lparr>m_version_major := n\<rparr>)"

definition set_version_minor :: "16 word \<Rightarrow> 'a http_message_scheme \<Rightarrow> 'a http_message_scheme" where
  "set_version_minor n m = clear_first_line (m\<lparr>m_version_minor := n\<rparr>)"

text \<open>
  \<open>sl::utils::trim\<close> returns the trimmed copy (as \<open>has_header_value\<close> uses it); the call in
  \<open>update_content_length_using_header\<close> drops that result, so the header value goes to
  \<open>parse_uint64\<close> as it is. \<open>None\<close> is the exception of \<open>parse_uint64\<close>. \<open>size_t\<close> has 64 bits.
\<close>

definition update_content_length_using_header ::
  "sl_utils \<Rightarrow> 'a http_message_scheme \<Rightarrow> 'a http_message_scheme option" where
  "update_content_length_using_header E m =
     (case dict_find E (m_headers m) HEADER_CONTENT_LENGTH of
        None \<Rightarrow> Some (m\<lparr>m_content_length := 0\<rparr>)
      | Some i \<Rightarrow>
          (let trimmed_length = snd i in
           map_option (\<lambda>n. m\<lparr>m_content_length := unat n\<rparr>) (parse_uint64 E trimmed_length)))"

definition update_transfer_encoding_using_header ::
  "sl_utils \<Rightarrow> 'a http_message_scheme \<Rightarrow> 'a http_message_scheme" where
  "update_transfer_encoding_using_header E m =
     (case dict_find E (m_headers m) HEADER_TRANSFER_ENCODING of
        None \<Rightarrow> m\<lparr>m_is_chunked := False\<rparr>
      | Some i \<Rightarrow> m\<lparr>m_is_chunked :=
          (search_list ''chunked'' (snd i) \<noteq> None \<or> search_list ''Chunked'' (snd i) \<noteq> None)\<rparr>)"

definition create_content_buffer :: "'a http_message_scheme \<Rightarrow> 'a http_message_scheme" where
  "create_content_buffer m = m\<lparr>m_content_buf := resize (m_content_length m)\<rparr>"

text \<open>\<open>memcpy(get_content() + off, data, \<dots>)\<close> into the content buffer.\<close>

definition write_content ::
  "nat \<Rightarrow> byte_string \<Rightarrow> 'a http_message_scheme \<Rightarrow> exn + 'a http_message_scheme" where
  "write_content off bs m =
     map_sum id (\<lambda>q. m\<lparr>m_content_buf := (m_content_buf m)\<lparr>cb_ptr := q\<rparr>\<rparr>)
       (memcpy_at (cb_ptr (m_content_buf m)) off bs)"

definition set_content :: "byte_string \<Rightarrow> 'a http_message_scheme \<Rightarrow> exn + 'a http_message_scheme" where
  "set_content content m =
     write_content 0 content (create_content_buffer (m\<lparr>m_content_length := length content\<rparr>))"

definition clear_content :: "sl_utils \<Rightarrow> 'a http_message_scheme \<Rightarrow> 'a http_message_scheme" where
  "clear_content E m =
     (let m1 = create_content_buffer (m\<lparr>m_content_length := 0\<rparr>)
      in m1\<lparr>m_headers := delete_value E (m_headers m1) HEADER_CONTENT_TYPE\<rparr>)"

definition set_content_type ::
  "sl_utils \<Rightarrow> byte_string \<Rightarrow> 'a http_message_scheme \<Rightarrow> 'a http_message_scheme" where
  "set_content_type E type m =
     m\<lparr>m_headers := change_value E (m_headers m) HEADER_CONTENT_TYPE type\<rparr>"

definition concatenate_chunks :: "'a http_message_scheme \<Rightarrow> exn + 'a http_message_scheme" where
  "concatenate_chunks m =
     (let m1 = create_content_buffer (m\<lparr>m_content_length := length (m_chunk_cache m)\<rparr>)
      in if length (m_chunk_cache m) > 0 then write_content 0 (m_chunk_cache m) m1 else Inr m1)"

definition check_keep_alive :: "sl_utils \<Rightarrow> 'a http_message_scheme \<Rightarrow> bool" where
  "check_keep_alive E m \<longleftrightarrow>
     get_header E m HEADER_CONNECTION \<noteq> ''close''
     \<and> (m_version_major m > 1 \<or> (m_version_major m \<ge> 1 \<and> m_version_minor m \<ge> 1))"

section \<open>Serialisation\<close>

text \<open>\<open>make_query_string\<close>: the parameters in iteration order, joined by \<open>&\<close>.\<close>

fun query_pairs :: "sl_utils \<Rightarrow> bool \<Rightarrow> dict \<Rightarrow> byte_string" where
  "query_pairs E first [] = []"
| "query_pairs E first (kv # rest) =
     (if first then [] else ''&'') @ url_encode E (fst kv) @ ''='' @ url_encode E (snd kv)
       @ query_pairs E False rest"

definition make_query_string :: "sl_utils \<Rightarrow> dict \<Rightarrow> byte_string" where
  "make_query_string E query_params = query_pairs E True (bucket_order E query_params)"

definition make_set_cookie_header ::
  "sl_utils \<Rightarrow> byte_string \<Rightarrow> byte_string \<Rightarrow> byte_string \<Rightarrow> bool \<Rightarrow> nat \<Rightarrow> byte_string" where
  "make_set_cookie_header E name value path has_max_age max_age =
     name @ ''='' @ [DQUOTE] @ value @ [DQUOTE] @ ''; Version=1''
     @ (if path \<noteq> [] then ''; Path='' @ path else [])
     @ (if has_max_age then ''; Max-Age='' @ to_string E max_age else [])"

definition prepare_headers_for_send ::
  "sl_utils \<Rightarrow> bool \<Rightarrow> bool \<Rightarrow> 'a http_message_scheme \<Rightarrow> 'a http_message_scheme" where
  "prepare_headers_for_send E keep_alive using_chunks m =
     (let m1 = change_header E HEADER_CONNECTION (if keep_alive then ''Keep-Alive'' else ''close'') m
      in if using_chunks
         then (if m_chunks_supported m1
               then change_header E HEADER_TRANSFER_ENCODING ''chunked'' m1 else m1)
         else if \<not> m_do_not_send_content_length m1
         then change_header E HEADER_CONTENT_LENGTH (to_string E (m_content_length m1)) m1
         else m1)"

definition append_headers ::
  "sl_utils \<Rightarrow> 'a http_message_scheme \<Rightarrow> byte_string list \<Rightarrow> byte_string list" where
  "append_headers E m write_buffers =
     write_buffers
     @ concat (map (\<lambda>kv. [fst kv, HEADER_NAME_VALUE_DELIMITER, snd kv, STRING_CRLF])
                 (bucket_order E (m_headers m)))
     @ [STRING_CRLF]"

text \<open>
  \<open>update_first_line\<close> is virtual, so it is an argument. \<open>append_cookie_headers\<close> is not
  virtual in \<open>http_message\<close>: the call in \<open>prepare_buffers_for_send\<close> is bound to the empty
  body of the base class, whatever the subclass defines.
\<close>

definition get_first_line ::
  "('a http_message_scheme \<Rightarrow> byte_string) \<Rightarrow> 'a http_message_scheme \<Rightarrow> 'a http_message_scheme" where
  "get_first_line update_first_line m =
     (if m_first_line m = [] then m\<lparr>m_first_line := update_first_line m\<rparr> else m)"

definition append_cookie_headers_base :: "'a http_message_scheme \<Rightarrow> 'a http_message_scheme" where
  "append_cookie_headers_base m = m"

definition prepare_buffers_for_send ::
  "sl_utils \<Rightarrow> ('a http_message_scheme \<Rightarrow> byte_string) \<Rightarrow> bool \<Rightarrow> bool \<Rightarrow> 'a http_message_scheme
   \<Rightarrow> byte_string list \<Rightarrow> byte_string list \<times> 'a http_message_scheme" where
  "prepare_buffers_for_send E update_first_line keep_alive using_chunks m write_buffers =
     (let m1 = prepare_headers_for_send E keep_alive using_chunks m;
          m2 = get_first_line update_first_line m1;
          wb = write_buffers @ [m_first_line m2, STRING_CRLF];
          m3 = append_cookie_headers_base m2
      in (append_headers E m3 wb, m3))"

section \<open>The multimap interface\<close>

text \<open>
  What the operations on a multimap promise their callers, on the level of the multiset of
  values under each key.
\<close>

locale multimap =
  fixes eq :: "'k \<Rightarrow> 'k \<Rightarrow> bool"
    and ins :: "'d \<Rightarrow> 'k \<Rightarrow> 'v \<Rightarrow> 'd"
    and chg :: "'d \<Rightarrow> 'k \<Rightarrow> 'v \<Rightarrow> 'd"
    and del :: "'d \<Rightarrow> 'k \<Rightarrow> 'd"
    and vals :: "'d \<Rightarrow> 'k \<Rightarrow> 'v multiset"
  assumes eq_refl: "eq k k"
    and eq_sym: "eq k k' \<Longrightarrow> eq k' k"
    and eq_trans: "eq k k' \<Longrightarrow> eq k' k'' \<Longrightarrow> eq k k''"
    and vals_ins: "vals (ins d k v) k' = (if eq k k' then add_mset v (vals d k') else vals d k')"
    and vals_chg: "vals (chg d k v) k' = (if eq k k' then {#v#} else vals d k')"
    and vals_del: "vals (del d k) k' = (if eq k k' then {#} else vals d k')"
begin

lemmas vals_simps = vals_ins vals_chg vals_del eq_refl

lemma chg_overwrites: "vals (chg (chg d k v) k w) k' = vals (chg d k w) k'"
  by (simp add: vals_simps)

lemma chg_forgets_ins: "vals (chg (ins d k v) k w) k' = vals (chg d k w) k'"
  by (simp add: vals_simps)

lemma del_forgets_chg: "vals (del (chg d k v) k) k' = vals (del d k) k'"
  by (simp add: vals_simps)

lemma chg_commutes:
  assumes "\<not> eq k j"
  shows "vals (chg (chg d k v) j w) k' = vals (chg (chg d j w) k v) k'"
  using assms by (auto simp: vals_simps intro: eq_sym eq_trans)

lemma chg_by_equal_key: "eq k j \<Longrightarrow> vals (chg d k v) k' = vals (chg d j v) k'"
  by (auto simp: vals_simps intro: eq_sym eq_trans)

end

context sl_env
begin

lemma equal_range_mset:
  "mset (equal_range E d k) = filter_mset (\<lambda>kv. iequals E (fst kv) k) (mset d)"
  by (simp add: equal_range_def iequal_to_def bucket_mset mset_filter)

lemma dict_values_mset:
  "dict_values E d k = image_mset snd (filter_mset (\<lambda>kv. iequals E (fst kv) k) (mset d))"
  by (simp add: dict_values_def equal_range_mset)

lemma equal_range_mem: "kv \<in> set (equal_range E d k) \<longleftrightarrow> kv \<in> set d \<and> iequals E (fst kv) k"
  by (auto simp: equal_range_def iequal_to_def set_bucket_order)

lemma equal_range_Nil: "equal_range E d k = [] \<longleftrightarrow> (\<forall>kv \<in> set d. \<not> iequals E (fst kv) k)"
  by (metis equal_range_mem list.set_intros(1) neq_Nil_conv set_empty ex_in_conv)

lemma filter_out_mset:
  "image_mset snd (filter_mset (\<lambda>kv. iequals E (fst kv) k')
     (filter_mset (\<lambda>e. \<not> iequals E (fst e) k) M)) =
   (if iequals E k k' then {#} else image_mset snd (filter_mset (\<lambda>kv. iequals E (fst kv) k') M))"
proof -
  have "(iequals E a k' \<and> \<not> iequals E a k) = (\<not> iequals E k k' \<and> iequals E a k')" for a
    by (meson iequals_sym iequals_trans)
  then show ?thesis by (simp add: filter_filter_mset conj_commute)
qed

lemma dict_values_none:
  assumes "equal_range E d k = []" and "iequals E k k'"
  shows "dict_values E d k' = {#}"
proof -
  have "\<not> iequals E (fst kv) k'" if "kv \<in> set d" for kv
    using assms that by (meson equal_range_Nil iequals_sym iequals_trans)
  then show ?thesis by (auto simp: dict_values_mset)
qed

lemma dict_values_change:
  "dict_values E (change_value E d k v) k' = (if iequals E k k' then {#v#} else dict_values E d k')"
proof (cases "equal_range E d k")
  case Nil
  with dict_values_none [OF this, of k'] show ?thesis
    by (auto simp: change_value_def dict_insert_def dict_values_mset)
next
  case (Cons kv rest)
  then have "iequals E (fst kv) k"
    using equal_range_mem [of kv d k] by simp
  then have "iequals E (fst kv) k' = iequals E k k'" by (rule iequals_cong)
  with Cons show ?thesis
    by (simp add: change_value_def dict_values_mset iequal_to_def mset_filter filter_out_mset)
qed

lemma dict_values_delete:
  "dict_values E (delete_value E d k) k' = (if iequals E k k' then {#} else dict_values E d k')"
proof (cases "equal_range E d k")
  case Nil
  with dict_values_none [OF this, of k'] show ?thesis by (auto simp: delete_value_def)
next
  case (Cons kv rest)
  then show ?thesis
    by (simp add: delete_value_def dict_values_mset iequal_to_def mset_filter filter_out_mset)
qed

lemma get_value_unique:
  assumes "dict_values E d k = {#v#}"
  shows "get_value E d k = v"
  using assms
  by (cases "equal_range E d k") (auto simp: dict_values_def get_value_def dict_find_def)

lemma get_value_in_values:
  "dict_values E d k \<noteq> {#} \<Longrightarrow> get_value E d k \<in># dict_values E d k"
  by (auto simp: dict_values_def get_value_def dict_find_def split: list.splits)

lemma has_iff_values: "dict_find E d k \<noteq> None \<longleftrightarrow> dict_values E d k \<noteq> {#}"
  by (auto simp: dict_find_def dict_values_def split: list.splits)

end

sublocale sl_env \<subseteq> hdr: multimap "iequals E" dict_insert "change_value E" "delete_value E"
  "dict_values E"
proof unfold_locales
  show "dict_values E (dict_insert d k v) k' =
      (if iequals E k k' then add_mset v (dict_values E d k') else dict_values E d k')" for d k v k'
    by (simp add: dict_insert_def dict_values_mset)
qed (auto simp: dict_values_change dict_values_delete iequals_refl
    intro: iequals_sym iequals_trans)

end
