(* ===== verification/Http_Request.thy ===== *)
theory Http_Request
  imports Http_Message
begin

text \<open>
  \<open>http_request.hpp\<close>: the request container, an extension of the message record.
\<close>

text \<open>
  A payload handler is a \<open>std::function<void(const char*, size_t)>\<close> supplied by the
  application. What matters to the parser is whether a call returns or throws; a
  deterministic handler decides that from the blocks it was given before and the present
  one: \<open>True\<close> is a normal return.
\<close>

type_synonym payload_handler_type = "byte_string list \<Rightarrow> byte_string \<Rightarrow> bool"

record http_request = http_message +
  rq_method :: byte_string
  rq_resource :: byte_string
  rq_original_resource :: byte_string
  rq_query_string :: byte_string
  rq_query_params :: dict
  rq_payload_handler :: "payload_handler_type option"
  rq_request_reader :: bool

text \<open>
  The constructor leaves \<open>m_request_reader\<close> uninitialised: whether the pointer happens to be
  non-null is an argument.
\<close>

definition new_http_request :: "bool \<Rightarrow> http_request" where
  "new_http_request garbage =
     http_message.extend new_http_message
       \<lparr>rq_method = REQUEST_METHOD_GET, rq_resource = [], rq_original_resource = [],
        rq_query_string = [], rq_query_params = [], rq_payload_handler = None,
        rq_request_reader = garbage\<rparr>"

definition clear_http_request :: "http_request \<Rightarrow> http_request" where
  "clear_http_request m = (clear_http_message m)
     \<lparr>rq_method := [], rq_resource := [], rq_original_resource := [], rq_query_string := [],
      rq_query_params := []\<rparr>"

definition request_is_content_length_implied :: "http_request \<Rightarrow> bool" where
  "request_is_content_length_implied m = False"

definition get_query :: "sl_utils \<Rightarrow> http_request \<Rightarrow> byte_string \<Rightarrow> byte_string" where
  "get_query E m key = get_value E (rq_query_params m) key"

definition has_query :: "sl_utils \<Rightarrow> http_request \<Rightarrow> byte_string \<Rightarrow> bool" where
  "has_query E m key \<longleftrightarrow> dict_find E (rq_query_params m) key \<noteq> None"

definition set_method :: "byte_string \<Rightarrow> http_request \<Rightarrow> http_request" where
  "set_method str m = clear_first_line (m\<lparr>rq_method := str\<rparr>)"

definition set_resource :: "byte_string \<Rightarrow> http_request \<Rightarrow> http_request" where
  "set_resource str m = clear_first_line (m\<lparr>rq_resource := str, rq_original_resource := str\<rparr>)"

definition change_resource :: "byte_string \<Rightarrow> http_request \<Rightarrow> http_request" where
  "change_resource str m = m\<lparr>rq_resource := str\<rparr>"

definition set_query_string :: "byte_string \<Rightarrow> http_request \<Rightarrow> http_request" where
  "set_query_string str m = clear_first_line (m\<lparr>rq_query_string := str\<rparr>)"

definition add_query :: "byte_string \<Rightarrow> byte_string \<Rightarrow> http_request \<Rightarrow> http_request" where
  "add_query key value m = m\<lparr>rq_query_params := dict_insert (rq_query_params m) key value\<rparr>"

definition change_query :: "sl_utils \<Rightarrow> byte_string \<Rightarrow> byte_string \<Rightarrow> http_request \<Rightarrow> http_request" where
  "change_query E key value m = m\<lparr>rq_query_params := change_value E (rq_query_params m) key value\<rparr>"

definition delete_query :: "sl_utils \<Rightarrow> byte_string \<Rightarrow> http_request \<Rightarrow> http_request" where
  "delete_query E key m = m\<lparr>rq_query_params := delete_value E (rq_query_params m) key\<rparr>"

definition use_query_params_for_query_string :: "sl_utils \<Rightarrow> http_request \<Rightarrow> http_request" where
  "use_query_params_for_query_string E m =
     set_query_string (make_query_string E (rq_query_params m)) m"

definition use_query_params_for_post_content :: "sl_utils \<Rightarrow> http_request \<Rightarrow> exn + http_request" where
  "use_query_params_for_post_content E m =
     (let post_content = make_query_string E (rq_query_params m);
          m1 = create_content_buffer (m\<lparr>m_content_length := length post_content\<rparr>)
      in map_sum id (\<lambda>m2. set_content_type E CONTENT_TYPE_URLENCODED
                            (set_method REQUEST_METHOD_POST m2))
           (if post_content \<noteq> [] then write_content 0 post_content m1 else Inr m1))"

definition request_set_content :: "byte_string \<Rightarrow> http_request \<Rightarrow> exn + http_request" where
  "request_set_content value m =
     (let m1 = create_content_buffer (m\<lparr>m_content_length := length value\<rparr>)
      in if value \<noteq> [] then write_content 0 value m1 else Inr m1)"

text \<open>The overload on a pointer and a size; \<open>None\<close> is the null pointer.\<close>

definition request_set_content_buf :: "byte_string option \<Rightarrow> http_request \<Rightarrow> exn + http_request" where
  "request_set_content_buf value m =
     (case value of
        None \<Rightarrow> Inr m
      | Some bs \<Rightarrow>
          if length bs = 0 then Inr m
          else write_content 0 bs (create_content_buffer (m\<lparr>m_content_length := length bs\<rparr>)))"

text \<open>
  \<open>set_payload_handler\<close> stores the handler and, if a reader is attached, hands it to the
  reader and drops the pointer: the second component is the handler to install there.
\<close>

definition request_set_payload_handler ::
  "payload_handler_type \<Rightarrow> http_request \<Rightarrow> http_request \<times> payload_handler_type option" where
  "request_set_payload_handler ph m =
     (let m1 = m\<lparr>rq_payload_handler := Some ph\<rparr>
      in if rq_request_reader m1 then (m1\<lparr>rq_request_reader := False\<rparr>, Some ph) else (m1, None))"

definition set_request_reader :: "bool \<Rightarrow> http_request \<Rightarrow> http_request" where
  "set_request_reader rr m = m\<lparr>rq_request_reader := rr\<rparr>"

definition request_update_first_line :: "sl_utils \<Rightarrow> http_request \<Rightarrow> byte_string" where
  "request_update_first_line E m =
     rq_method m @ '' '' @ rq_resource m
     @ (if rq_query_string m \<noteq> [] then ''?'' @ rq_query_string m else [])
     @ '' '' @ get_version_string E m"

definition request_append_cookie_headers :: "sl_utils \<Rightarrow> http_request \<Rightarrow> http_request" where
  "request_append_cookie_headers E m =
     fold (\<lambda>kv m'. add_header HEADER_COOKIE (fst kv @ COOKIE_NAME_VALUE_DELIMITER @ snd kv) m')
       (bucket_order E (m_cookie_params m)) m"

end
