(* ===== verification/Http_Response.thy ===== *)
theory Http_Response
  imports Http_Request
begin

text \<open>
  \<open>http_response.hpp\<close>: the response container, an extension of the message record.
\<close>

record http_response = http_message +
  rs_status_code :: "32 word"
  rs_status_message :: byte_string
  rs_request_method :: byte_string

definition set_status_code :: "32 word \<Rightarrow> http_response \<Rightarrow> http_response" where
  "set_status_code n r = clear_first_line (r\<lparr>rs_status_code := n\<rparr>)"

definition set_status_message :: "byte_string \<Rightarrow> http_response \<Rightarrow> http_response" where
  "set_status_message msg r = clear_first_line (r\<lparr>rs_status_message := msg\<rparr>)"

definition update_request_info :: "http_request \<Rightarrow> http_response \<Rightarrow> http_response" where
  "update_request_info req r =
     (let r1 = r\<lparr>rs_request_method := rq_method req\<rparr>
      in if m_version_major req = 1 \<and> m_version_minor req \<ge> 1
         then r1\<lparr>m_chunks_supported := True\<rparr>
         else if m_version_major req = 0
         then set_version_minor 0 (set_version_major 0
                (set_status_message [] (set_status_code 0 r1)))
         else r1)"

definition new_http_response :: "http_request \<Rightarrow> http_response" where
  "new_http_response req =
     update_request_info req
       (http_message.extend new_http_message
          \<lparr>rs_status_code = RESPONSE_CODE_OK, rs_status_message = RESPONSE_MESSAGE_OK,
           rs_request_method = []\<rparr>)"

definition copy_http_response :: "http_response \<Rightarrow> exn + http_response" where
  "copy_http_response src =
     map_sum id (\<lambda>base. http_message.extend base
         \<lparr>rs_status_code = rs_status_code src, rs_status_message = rs_status_message src,
          rs_request_method = rs_request_method src\<rparr>)
       (copy_http_message (http_message.truncate src))"

definition clear_http_response :: "http_response \<Rightarrow> http_response" where
  "clear_http_response r = (clear_http_message r)
     \<lparr>rs_status_code := RESPONSE_CODE_OK, rs_status_message := RESPONSE_MESSAGE_OK,
      rs_request_method := []\<rparr>"

definition response_is_content_length_implied :: "http_response \<Rightarrow> bool" where
  "response_is_content_length_implied r \<longleftrightarrow>
     rs_request_method r = REQUEST_METHOD_HEAD
     \<or> (rs_status_code r \<ge> 100 \<and> rs_status_code r \<le> 199)
     \<or> rs_status_code r = 204 \<or> rs_status_code r = 205
     \<or> rs_status_code r = 304"

definition is_body_allowed :: "http_response \<Rightarrow> bool" where
  "is_body_allowed r \<longleftrightarrow> REQUEST_METHOD_HEAD \<noteq> rs_request_method r"

text \<open>The overloads of \<open>set_cookie\<close> and \<open>delete_cookie\<close>.\<close>

definition set_cookie :: "sl_utils \<Rightarrow> byte_string \<Rightarrow> byte_string \<Rightarrow> http_response \<Rightarrow> http_response" where
  "set_cookie E name value r =
     add_header HEADER_SET_COOKIE (make_set_cookie_header E name value ''/'' False 0) r"

definition set_cookie_path ::
  "sl_utils \<Rightarrow> byte_string \<Rightarrow> byte_string \<Rightarrow> byte_string \<Rightarrow> http_response \<Rightarrow> http_response" where
  "set_cookie_path E name value path r =
     add_header HEADER_SET_COOKIE (make_set_cookie_header E name value path False 0) r"

definition set_cookie_path_age ::
  "sl_utils \<Rightarrow> byte_string \<Rightarrow> byte_string \<Rightarrow> byte_string \<Rightarrow> nat \<Rightarrow> http_response \<Rightarrow> http_response" where
  "set_cookie_path_age E name value path max_age r =
     add_header HEADER_SET_COOKIE (make_set_cookie_header E name value path True max_age) r"

definition set_cookie_age ::
  "sl_utils \<Rightarrow> byte_string \<Rightarrow> byte_string \<Rightarrow> nat \<Rightarrow> http_response \<Rightarrow> http_response" where
  "set_cookie_age E name value max_age r =
     add_header HEADER_SET_COOKIE (make_set_cookie_header E name value ''/'' True max_age) r"

definition response_delete_cookie :: "sl_utils \<Rightarrow> byte_string \<Rightarrow> http_response \<Rightarrow> http_response" where
  "response_delete_cookie E name r =
     add_header HEADER_SET_COOKIE (make_set_cookie_header E name [] ''/'' True 0) r"

definition response_delete_cookie_path ::
  "sl_utils \<Rightarrow> byte_string \<Rightarrow> byte_string \<Rightarrow> http_response \<Rightarrow> http_response" where
  "response_delete_cookie_path E name path r =
     add_header HEADER_SET_COOKIE (make_set_cookie_header E name [] path True 0) r"

definition response_update_first_line :: "sl_utils \<Rightarrow> http_response \<Rightarrow> byte_string" where
  "response_update_first_line E r =
     get_version_string E r @ '' '' @ to_string E (unat (rs_status_code r)) @ '' ''
     @ rs_status_message r"

definition response_append_cookie_headers :: "sl_utils \<Rightarrow> http_response \<Rightarrow> http_response" where
  "response_append_cookie_headers E r =
     fold (\<lambda>kv r'. set_cookie E (fst kv) (snd kv) r') (bucket_order E (m_cookie_params r)) r"

end
