(* ===== verification/Message_Laws.thy ===== *)
theory Message_Laws
  imports Http_Response
begin

text \<open>
  Properties of the message containers: the hash respects the equality of header names, the laws
  of the header operations, what is sent in a head, copies of a message, and the content buffer.
\<close>

section \<open>Lemmas\<close>

lemma ihash_loop_upper:
  "upper_string x = upper_string y \<Longrightarrow> ihash_loop h seed x = ihash_loop h seed y"
proof (induction x arbitrary: y seed)
  case (Cons c x)
  then obtain d z where "y = d # z" "toupper (char_value c) = toupper (char_value d)"
    "upper_string x = upper_string z"
    by (cases y) (auto simp: upper_string_def)
  with Cons.IH show ?case by simp
qed (simp add: upper_string_def)

lemma header_names_differ:
  "\<not> iequals_ref HEADER_CONNECTION HEADER_TRANSFER_ENCODING"
  "\<not> iequals_ref HEADER_CONNECTION HEADER_CONTENT_LENGTH"
  "\<not> iequals_ref HEADER_TRANSFER_ENCODING HEADER_CONTENT_LENGTH"
  by (simp_all add: iequals_ref_def upper_string_def HEADER_CONNECTION_def HEADER_TRANSFER_ENCODING_def
      HEADER_CONTENT_LENGTH_def toupper_def char_value_def)

text \<open>The buffer holds as many bytes as its size says, and one more, which a \<open>std::size_t\<close> can count.\<close>

definition buffer_ok :: "content_buffer_t \<Rightarrow> bool" where
  "buffer_ok b \<longleftrightarrow> length (cb_ptr b) = cb_len b + 1 \<and> cb_len b < SIZE_MAX"

definition content_bytes :: "content_buffer_t \<Rightarrow> byte_string" where
  "content_bytes b = take (cb_len b) (cb_ptr b)"

lemma content_buffer_copy_ok:
  assumes "buffer_ok b"
  shows "\<exists>c. content_buffer_copy b = Inr c \<and> buffer_ok c \<and> content_bytes c = content_bytes b"
  using assms
  by (auto simp: content_buffer_copy_def buffer_ok_def content_bytes_def read_mem_def memcpy_at_def
      resize_fits content_buffer_clear_def)

lemma prepared_content_length:
  assumes "sl_env E" and "\<not> using_chunks" and "\<not> m_do_not_send_content_length m"
  shows "dict_values E (m_headers (prepare_headers_for_send E keep_alive using_chunks m)) HEADER_CONTENT_LENGTH
       = {# to_string E (m_content_length m) #}"
  using assms(2,3)
  by (simp add: prepare_headers_for_send_def change_header_def Let_def
      sl_env.dict_values_change [OF assms(1)] sl_env.iequals_refl [OF assms(1)])

lemma prepare_buffers_headers:
  "m_headers (snd (prepare_buffers_for_send E f keep_alive using_chunks m wb))
     = m_headers (prepare_headers_for_send E keep_alive using_chunks m)"
  by (simp add: prepare_buffers_for_send_def get_first_line_def append_cookie_headers_base_def Let_def)

section \<open>Properties\<close>

text \<open>
  C31: the hash of the header maps respects their equality: names that \<open>iequal_to\<close> identifies
  have the same \<open>ihash\<close>, for every \<open>std::hash<int>\<close>, when \<open>sl::utils::iequals\<close> compares as
  documented, without regard to case.
\<close>

theorem ihash_respects_iequal_to:
  assumes "\<And>a b. iequals E a b \<longleftrightarrow> upper_string a = upper_string b" and "iequal_to E x y"
  shows "ihash h x = ihash h y"
proof -
  have "upper_string x = upper_string y" using assms(2) unfolding iequal_to_def assms(1) .
  then show ?thesis unfolding ihash_def by (rule ihash_loop_upper)
qed

theorem ihash_respects_iequal_to_witness:
  "ihash (\<lambda>i. word_of_int i) ''content-TYPE'' = ihash (\<lambda>i. word_of_int i) HEADER_CONTENT_TYPE"
proof (rule ihash_respects_iequal_to [of utils_ref])
  show "iequals utils_ref a b \<longleftrightarrow> upper_string a = upper_string b" for a b
    by (simp add: iequals_ref_def)
  show "iequal_to utils_ref ''content-TYPE'' HEADER_CONTENT_TYPE"
    by (simp add: iequal_to_def iequals_ref_def upper_string_def HEADER_CONTENT_TYPE_def toupper_def
        char_value_def)
qed

text \<open>
  C30: the header operations behave as operations on a case-insensitive multimap:
  \<open>change_header\<close> leaves exactly one value under every spelling of the name, which
  \<open>get_header\<close> then returns, \<open>add_header\<close> adds one value, \<open>delete_header\<close> removes all, and other
  names are untouched.
\<close>

theorem header_operations:
  assumes "sl_env E"
  shows "dict_values E (m_headers (change_header E k v m)) k'
           = (if iequals E k k' then {#v#} else dict_values E (m_headers m) k')
       \<and> dict_values E (m_headers (add_header k v m)) k'
           = (if iequals E k k' then add_mset v (dict_values E (m_headers m) k')
              else dict_values E (m_headers m) k')
       \<and> dict_values E (m_headers (delete_header E k m)) k'
           = (if iequals E k k' then {#} else dict_values E (m_headers m) k')
       \<and> get_header E (change_header E k v m) k = v
       \<and> \<not> has_header E (delete_header E k m) k"
proof -
  note laws = sl_env.dict_values_change [OF assms] sl_env.dict_values_delete [OF assms]
    sl_env.iequals_refl [OF assms]
  have "dict_values E (m_headers (add_header k v m)) k'
      = (if iequals E k k' then add_mset v (dict_values E (m_headers m) k') else dict_values E (m_headers m) k')"
    by (simp add: add_header_def dict_insert_def sl_env.dict_values_mset [OF assms])
  moreover have "get_header E (change_header E k v m) k = v"
    unfolding get_header_def
    by (rule sl_env.get_value_unique [OF assms]) (simp add: change_header_def laws)
  moreover have "\<not> has_header E (delete_header E k m) k"
    unfolding has_header_def sl_env.has_iff_values [OF assms] by (simp add: delete_header_def laws)
  ultimately show ?thesis by (simp add: change_header_def delete_header_def laws)
qed

theorem header_operations_witness:
  "get_header utils_ref (change_header utils_ref ''Host'' ''b''
     (add_header ''HOST'' ''a'' new_http_message)) ''Host'' = ''b''
   \<and> dict_values utils_ref (m_headers (change_header utils_ref ''Host'' ''b''
       (add_header ''HOST'' ''a'' new_http_message))) ''hOST'' = {#''b''#}"
proof -
  have "iequals utils_ref ''Host'' ''hOST''"
    by (simp add: iequals_ref_def upper_string_def toupper_def char_value_def)
  then show ?thesis
    using header_operations [OF ref.sl_env_axioms, of "''Host''" "''b''" "add_header ''HOST'' ''a'' new_http_message" "''hOST''"]
    by simp
qed

text \<open>
  The head of an outgoing message names the connection mode once and exactly one framing of
  the body: with chunks, \<open>Transfer-Encoding: chunked\<close> if the peer supports it; without,
  \<open>Content-Length\<close> with the length of the content unless it was suppressed. Whatever the
  application stored under these names before is overwritten.
\<close>

lemma prepared_headers:
  assumes "sl_env E" and "\<not> iequals E HEADER_CONNECTION HEADER_TRANSFER_ENCODING"
    and "\<not> iequals E HEADER_CONNECTION HEADER_CONTENT_LENGTH"
    and "\<not> iequals E HEADER_TRANSFER_ENCODING HEADER_CONTENT_LENGTH"
    and "r = prepare_headers_for_send E keep_alive using_chunks m"
  shows "dict_values E (m_headers r) HEADER_CONNECTION = {# if keep_alive then ''Keep-Alive'' else ''close'' #}
       \<and> (using_chunks \<and> m_chunks_supported m
            \<longrightarrow> dict_values E (m_headers r) HEADER_TRANSFER_ENCODING = {#''chunked''#}
              \<and> dict_values E (m_headers r) HEADER_CONTENT_LENGTH = dict_values E (m_headers m) HEADER_CONTENT_LENGTH)
       \<and> (\<not> using_chunks \<and> \<not> m_do_not_send_content_length m
            \<longrightarrow> dict_values E (m_headers r) HEADER_CONTENT_LENGTH = {# to_string E (m_content_length m) #}
              \<and> dict_values E (m_headers r) HEADER_TRANSFER_ENCODING = dict_values E (m_headers m) HEADER_TRANSFER_ENCODING)"
proof -
  have sym: "\<not> iequals E HEADER_TRANSFER_ENCODING HEADER_CONNECTION"
    "\<not> iequals E HEADER_CONTENT_LENGTH HEADER_CONNECTION"
    "\<not> iequals E HEADER_CONTENT_LENGTH HEADER_TRANSFER_ENCODING"
    using assms(2-4) sl_env.iequals_sym [OF assms(1)] by blast+
  show ?thesis
    using assms(2-4) sym
    by (simp add: assms(5) prepare_headers_for_send_def change_header_def Let_def
        sl_env.dict_values_change [OF assms(1)] sl_env.iequals_refl [OF assms(1)])
qed

text \<open>
  The copy constructor and the assignment operator never touch memory outside the buffers
  and copy the content bytes, headers, first line, version and status; the cookie parameters are
  not copied (a new copy has none, an assigned message keeps its own).
\<close>

lemma copy_and_assign:
  assumes "buffer_ok (m_content_buf src)"
  shows "\<exists>c a. copy_http_message src = Inr c \<and> assign_http_message dest src = Inr a
       \<and> content_bytes (m_content_buf c) = content_bytes (m_content_buf src)
       \<and> content_bytes (m_content_buf a) = content_bytes (m_content_buf src)
       \<and> buffer_ok (m_content_buf c) \<and> buffer_ok (m_content_buf a)
       \<and> c = src\<lparr>m_content_buf := m_content_buf c, m_cookie_params := []\<rparr>
       \<and> a = src\<lparr>m_content_buf := m_content_buf a, m_cookie_params := m_cookie_params dest\<rparr>"
proof -
  obtain b where b: "content_buffer_copy (m_content_buf src) = Inr b" "buffer_ok b"
    "content_bytes b = content_bytes (m_content_buf src)"
    using content_buffer_copy_ok [OF assms] by blast
  let ?c = "src\<lparr>m_content_buf := b, m_cookie_params := []\<rparr>"
  let ?a = "src\<lparr>m_content_buf := b, m_cookie_params := m_cookie_params dest\<rparr>"
  have "copy_http_message src = Inr ?c" "assign_http_message dest src = Inr ?a"
    using b(1) by (cases src; cases dest;
        simp add: copy_http_message_def assign_http_message_def new_http_message_def)+
  with b show ?thesis by (intro exI [of _ ?c] exI [of _ ?a]) simp
qed

end
