(* ===== verification/Uri_Parser.thy ===== *)
theory Uri_Parser
  imports Reference_Utils
begin

text \<open>\<open>http_parser::parse_uri\<close>: splitting a URI into its parts.\<close>

section \<open>Definitions\<close>

text \<open>The output parameters; what they hold before the call is an argument.\<close>

record uri_parts =
  u_proto :: byte_string
  u_host :: byte_string
  u_port :: "16 word"
  u_path :: byte_string
  u_query :: byte_string

definition default_port :: "byte_string \<Rightarrow> 16 word" where
  "default_port proto =
     (if proto = ''http'' \<or> proto = ''HTTP'' then 80
      else if proto = ''https'' \<or> proto = ''HTTPS'' then 443 else 0)"

text \<open>The last part of the routine: path and query.\<close>

definition parse_uri_path :: "byte_string \<Rightarrow> nat \<Rightarrow> uri_parts \<Rightarrow> uri_parts" where
  "parse_uri_path uri server_port_end u =
     (if server_port_end < length uri then
        (let path = drop server_port_end uri in
         case search_list ''?'' path of
           Some query_pos \<Rightarrow> u\<lparr>u_path := take query_pos path, u_query := drop (query_pos + 1) path\<rparr>
         | None \<Rightarrow> u\<lparr>u_path := path, u_query := []\<rparr>)
      else u)"

text \<open>The handler of the conversion catches \<open>std::runtime_error\<close> only.\<close>

definition parse_uri :: "sl_utils \<Rightarrow> byte_string \<Rightarrow> uri_parts \<Rightarrow> exn + bool \<times> uri_parts" where
  "parse_uri E uri u =
     (let proto_end = search_list ''://'' uri;
          proto_len = (case proto_end of None \<Rightarrow> 0 | Some k \<Rightarrow> k + 3);
          u1 = u\<lparr>u_proto := (case proto_end of None \<Rightarrow> [] | Some k \<Rightarrow> take k uri)\<rparr>;
          slash = search_from ''/'' uri proto_len;
          u2 = (if slash = None then u1\<lparr>u_path := ''/''\<rparr> else u1);
          server_port_end = (case slash of None \<Rightarrow> length uri | Some k \<Rightarrow> k);
          t = take (server_port_end - proto_len) (drop proto_len uri);
          port_pos = search_list '':'' t;
          host = (case port_pos of None \<Rightarrow> t | Some k \<Rightarrow> take k t);
          u3 = u2\<lparr>u_host := host\<rparr>
      in if length host = 0 then Inr (False, u3)
         else
           (case port_pos of
              Some k \<Rightarrow>
                (case parse_uint16 E (drop (k + 1) t) of
                   None \<Rightarrow> if parse_throws_runtime_error E then Inr (False, u3) else Inl Library_exception
                 | Some port \<Rightarrow> Inr (True, parse_uri_path uri server_port_end (u3\<lparr>u_port := port\<rparr>)))
            | None \<Rightarrow>
                Inr (True, parse_uri_path uri server_port_end (u3\<lparr>u_port := default_port (u_proto u3)\<rparr>))))"

section \<open>Lemmas\<close>

definition uri_name :: "byte_string \<Rightarrow> bool" where
  "uri_name s \<longleftrightarrow> s \<noteq> [] \<and> CHR '':'' \<notin> set s \<and> CHR ''/'' \<notin> set s"

lemma search_proto:
  assumes "CHR '':'' \<notin> set p"
  shows "search_list ''://'' (p @ ''://'' @ rest) = Some (length p)"
  using assms by (induction p) auto

lemma search_from_append:
  "search_from pat (xs @ ys) (length xs) = map_option (\<lambda>k. length xs + k) (search_list pat ys)"
  by (simp add: search_from_def)

lemma length_authority:
  "length (proto @ ''://'' @ host @ '':'' @ port) = length proto + 3 + length host + 1 + length port"
  by simp

text \<open>A URI with protocol, host and port, and what follows the port.\<close>

lemma parse_uri_authority:
  assumes "uri_name proto" "uri_name host" "CHR ''/'' \<notin> set port"
    and "tail = [] \<or> hd tail = CHR ''/''" and "parse_uint16 E port = Some n"
    and "uri = proto @ ''://'' @ host @ '':'' @ port @ tail"
    and "spe = length proto + 3 + length host + 1 + length port"
  shows "parse_uri E uri u =
      Inr (True, parse_uri_path uri spe
         (u\<lparr>u_proto := proto, u_path := (if tail = [] then ''/'' else u_path u), u_host := host, u_port := n\<rparr>))"
proof -
  let ?pl = "length proto + 3"
  have uri: "uri = (proto @ ''://'') @ (host @ '':'' @ port) @ tail" using assms(6) by simp
  have p: "search_list ''://'' uri = Some (length proto)"
    using search_proto assms(1,6) by (simp add: uri_name_def)
  have "search_list ''/'' ((host @ '':'' @ port) @ tail)
      = (if tail = [] then None else Some (length (host @ '':'' @ port)))"
  proof (cases tail)
    case Nil
    with assms(2,3) show ?thesis by (simp add: uri_name_def)
  next
    case (Cons c r)
    with assms(4) have "c = CHR ''/''" by simp
    with Cons assms(2,3) search_single_append [of "CHR ''/''" "host @ '':'' @ port" r]
    show ?thesis by (simp add: uri_name_def)
  qed
  then have s: "search_from ''/'' uri ?pl = (if tail = [] then None else Some spe)"
    unfolding search_from_def using assms(7) by (simp add: uri)
  have spe: "(case search_from ''/'' uri ?pl of None \<Rightarrow> length uri | Some k \<Rightarrow> k) = spe"
    using s assms(6,7) by simp
  have t: "take (spe - ?pl) (drop ?pl uri) = host @ '':'' @ port"
    using assms(7) by (simp add: uri)
  have c: "search_list '':'' (host @ '':'' @ port) = Some (length host)"
    using assms(2) by (simp add: uri_name_def)
  have pieces: "(case Some (length proto) of None \<Rightarrow> 0 | Some k \<Rightarrow> k + 3) = ?pl"
    "take (length proto) uri = proto" "host \<noteq> []" "take (length host) (host @ '':'' @ port) = host"
    "drop (length host + 1) (host @ '':'' @ port) = port"
    using assms(2,6) by (simp_all add: uri_name_def)
  show ?thesis
    unfolding parse_uri_def Let_def p pieces(1) spe t c option.case
    using pieces(2-5) assms(5) s by simp
qed

section \<open>Properties\<close>

text \<open>
  C32: a URI put together from its parts is taken apart again: protocol, host, port, path and
  query are what they were.
\<close>

theorem uri_roundtrip:
  assumes "uri_name proto" "uri_name host" "CHR ''/'' \<notin> set port" "parse_uint16 E port = Some n"
    and "hd path = CHR ''/''" "path \<noteq> []" "CHR ''?'' \<notin> set path"
  shows "parse_uri E (proto @ ''://'' @ host @ '':'' @ port @ path @ ''?'' @ query) u =
      Inr (True, \<lparr>u_proto = proto, u_host = host, u_port = n, u_path = path, u_query = query\<rparr>)"
proof -
  let ?uri = "proto @ ''://'' @ host @ '':'' @ port @ path @ ''?'' @ query"
  let ?spe = "length proto + 3 + length host + 1 + length port"
  have "?uri = (proto @ ''://'' @ host @ '':'' @ port) @ path @ ''?'' @ query" by simp
  then have "drop ?spe ?uri = path @ ''?'' @ query"
    by (metis (no_types, lifting) append_eq_conv_conj length_authority)
  moreover have "?spe < length ?uri" by simp
  ultimately show ?thesis
    using parse_uri_authority [OF assms(1-3) _ assms(4) refl refl, of "path @ ''?'' @ query" u] assms(5-7)
    by (simp add: parse_uri_path_def)
qed

theorem uri_roundtrip_witness:
  "parse_uri utils_ref ''http://h:8080/a?b'' \<lparr>u_proto = [], u_host = [], u_port = 0, u_path = [], u_query = []\<rparr>
   = Inr (True, \<lparr>u_proto = ''http'', u_host = ''h'', u_port = 8080, u_path = ''/a'', u_query = ''b''\<rparr>)"
proof -
  have ok: "uri_name ''http''" "uri_name ''h''" "CHR ''/'' \<notin> set ''8080''"
    "hd ''/a'' = CHR ''/''" "''/a'' \<noteq> []" "CHR ''?'' \<notin> set ''/a''"
    by (simp_all add: uri_name_def)
  have port: "parse_uint16 utils_ref ''8080'' = Some 8080"
    by (simp add: parse_uint_ref_def dec_value_def digit_of_def is_digit_def char_value_def)
  from uri_roundtrip [OF ok(1-3) port ok(4-6), of "''b''"] show ?thesis by simp
qed

text \<open>
  When the URI has no path the query of the previous call stays in the output parameter,
  while path is set to \<open>/\<close>: the query is only cleared when there is a path without a question
  mark.
\<close>

lemma uri_without_path_keeps_old_query:
  assumes "uri_name proto" "uri_name host" "CHR ''/'' \<notin> set port" "parse_uint16 E port = Some n"
  shows "parse_uri E (proto @ ''://'' @ host @ '':'' @ port) u =
      Inr (True, \<lparr>u_proto = proto, u_host = host, u_port = n, u_path = ''/'', u_query = u_query u\<rparr>)"
  using parse_uri_authority [OF assms(1-3) _ assms(4), of "[]" _ _ u]
  by (simp add: parse_uri_path_def)

end
