(* ===== verification/Query_Parser.thy ===== *)
theory Query_Parser
  imports Http_Request
begin

text \<open>
  \<open>http_parser::parse_url_encoded\<close>: key-value pairs of a query string or a urlencoded body,
  its reference semantics by splitting at the delimiters, and the round trip with
  \<open>http_message::make_query_string\<close>.
\<close>

section \<open>Definitions\<close>

definition QUERY_NAME_MAX :: nat where "QUERY_NAME_MAX = 1024"
definition QUERY_VALUE_MAX :: nat where "QUERY_VALUE_MAX = 1024 * 1024"

datatype query_parse_state = QUERY_PARSE_NAME | QUERY_PARSE_VALUE

text \<open>The insertion of a pair unless its name is empty.\<close>

definition insert_query :: "sl_utils \<Rightarrow> byte_string \<Rightarrow> byte_string \<Rightarrow> dict \<Rightarrow> dict" where
  "insert_query E name value d =
     (if name \<noteq> [] then dict_insert d (url_decode E name) (url_decode E value) else d)"

text \<open>
  The loop over the bytes; the result is the returned flag and the dictionary, which keeps
  the pairs inserted before a \<open>return false\<close>.
\<close>

fun parse_url_encoded_loop ::
  "sl_utils \<Rightarrow> query_parse_state \<Rightarrow> byte_string \<Rightarrow> byte_string \<Rightarrow> dict \<Rightarrow> byte_string \<Rightarrow> bool \<times> dict"
where
  "parse_url_encoded_loop E st query_name query_value d [] =
     (True, insert_query E query_name query_value d)"
| "parse_url_encoded_loop E QUERY_PARSE_NAME query_name query_value d (c # cs) =
     (if c = CHR ''='' then parse_url_encoded_loop E QUERY_PARSE_VALUE query_name query_value d cs
      else if c = CHR ''&'' then
        (if query_name \<noteq> []
         then parse_url_encoded_loop E QUERY_PARSE_NAME [] query_value
                (insert_query E query_name query_value d) cs
         else parse_url_encoded_loop E QUERY_PARSE_NAME query_name query_value d cs)
      else if c = CR \<or> c = LF \<or> c = TAB then
        parse_url_encoded_loop E QUERY_PARSE_NAME query_name query_value d cs
      else if is_control (char_value c) \<or> length query_name \<ge> QUERY_NAME_MAX then (False, d)
      else parse_url_encoded_loop E QUERY_PARSE_NAME (query_name @ [c]) query_value d cs)"
| "parse_url_encoded_loop E QUERY_PARSE_VALUE query_name query_value d (c # cs) =
     (if c = CHR ''&'' then
        (if query_name \<noteq> []
         then parse_url_encoded_loop E QUERY_PARSE_NAME [] []
                (insert_query E query_name query_value d) cs
         else parse_url_encoded_loop E QUERY_PARSE_NAME query_name [] d cs)
      else if c = CHR '','' then
        parse_url_encoded_loop E QUERY_PARSE_VALUE query_name []
          (insert_query E query_name query_value d) cs
      else if c = CR \<or> c = LF \<or> c = TAB then
        parse_url_encoded_loop E QUERY_PARSE_VALUE query_name query_value d cs
      else if is_control (char_value c) \<or> length query_value \<ge> QUERY_VALUE_MAX then (False, d)
      else parse_url_encoded_loop E QUERY_PARSE_VALUE query_name (query_value @ [c]) d cs)"

definition parse_url_encoded :: "sl_utils \<Rightarrow> dict \<Rightarrow> byte_string \<Rightarrow> bool \<times> dict" where
  "parse_url_encoded E d s =
     (if length s = 0 then (True, d)
      else parse_url_encoded_loop E QUERY_PARSE_NAME [] [] d s)"

section \<open>Reference semantics\<close>

text \<open>
  A query string is a list of segments separated by \<open>&\<close>; a segment is a name, then
  optionally \<open>=\<close> and a list of values separated by commas. Segments with an empty name are
  skipped.
\<close>

definition segment_pairs :: "sl_utils \<Rightarrow> byte_string \<Rightarrow> dict" where
  "segment_pairs E seg =
     (let name = takeWhile (\<lambda>c. c \<noteq> CHR ''='') seg in
      if name = [] then []
      else case dropWhile (\<lambda>c. c \<noteq> CHR ''='') seg of
             [] \<Rightarrow> [(url_decode E name, url_decode E [])]
           | _ # vs \<Rightarrow> map (\<lambda>v. (url_decode E name, url_decode E v)) (split_ref vs (CHR '','')))"

definition query_pairs_of :: "sl_utils \<Rightarrow> byte_string \<Rightarrow> dict" where
  "query_pairs_of E s = concat (map (segment_pairs E) (split_ref s (CHR ''&'')))"

text \<open>Segments the parser accepts: no control characters, names and values within limits.\<close>

definition segment_ok :: "byte_string \<Rightarrow> bool" where
  "segment_ok seg \<longleftrightarrow>
     list_all (\<lambda>c. \<not> is_control (char_value c)) seg
     \<and> length (takeWhile (\<lambda>c. c \<noteq> CHR ''='') seg) \<le> QUERY_NAME_MAX
     \<and> list_all (\<lambda>v. length v \<le> QUERY_VALUE_MAX)
          (split_ref (tl (dropWhile (\<lambda>c. c \<noteq> CHR ''='') seg)) (CHR '',''))"

section \<open>Lemmas\<close>

lemma control_ws [char_class]:
  "is_control (char_value CR)" "is_control (char_value LF)" "is_control (char_value TAB)"
  by (simp_all add: is_control_def char_value_def)

lemma split_ref_nonempty [simp]: "split_ref s d \<noteq> []"
  by (induction s) (auto split: list.splits)

lemma split_ref_append_sep:
  "d \<notin> set xs \<Longrightarrow> split_ref (xs @ d # ys) d = xs # split_ref ys d"
  by (induction xs) auto

lemma split_ref_no_sep: "d \<notin> set xs \<Longrightarrow> split_ref xs d = [xs]"
  by (induction xs) auto

lemma split_ref_cases:
  obtains (no_sep) "d \<notin> set s"
  | (sep) xs ys where "d \<notin> set xs" and "s = xs @ d # ys"
  by (meson split_list_first)

text \<open>Runs of ordinary characters are collected.\<close>

lemma name_run:
  assumes "list_all (\<lambda>c. \<not> is_control (char_value c)) xs" and "CHR ''='' \<notin> set xs"
    and "CHR ''&'' \<notin> set xs" and "length n + length xs \<le> QUERY_NAME_MAX"
  shows "parse_url_encoded_loop E QUERY_PARSE_NAME n v d (xs @ rest)
       = parse_url_encoded_loop E QUERY_PARSE_NAME (n @ xs) v d rest"
  using assms by (induction xs arbitrary: n) (auto simp: control_ws)

lemma value_run:
  assumes "list_all (\<lambda>c. \<not> is_control (char_value c)) xs" and "CHR '','' \<notin> set xs"
    and "CHR ''&'' \<notin> set xs" and "length v + length xs \<le> QUERY_VALUE_MAX"
  shows "parse_url_encoded_loop E QUERY_PARSE_VALUE n v d (xs @ rest)
       = parse_url_encoded_loop E QUERY_PARSE_VALUE n (v @ xs) d rest"
  using assms by (induction xs arbitrary: v) (auto simp: control_ws)

lemma insert_query_values:
  "insert_query E n v d = d @ (if n = [] then [] else [(url_decode E n, url_decode E v)])"
  by (simp add: insert_query_def dict_insert_def)

text \<open>
  A comma-separated list of values: all but the last are inserted, the last is kept for the
  end of the segment. \<open>values_from v vs\<close> are the values when \<open>v\<close> was already collected.
\<close>

definition values_from :: "byte_string \<Rightarrow> byte_string \<Rightarrow> byte_string list" where
  "values_from v vs = (v @ hd (split_ref vs (CHR '',''))) # tl (split_ref vs (CHR '',''))"

definition pairs_of :: "sl_utils \<Rightarrow> byte_string \<Rightarrow> byte_string list \<Rightarrow> dict" where
  "pairs_of E n vs = (if n = [] then [] else map (\<lambda>v. (url_decode E n, url_decode E v)) vs)"

lemma values_from_Nil [simp]: "values_from v [] = [v]"
  by (simp add: values_from_def)

lemma values_from_empty: "values_from [] vs = split_ref vs (CHR '','')"
  by (simp add: values_from_def)

lemma values_from_Cons:
  "values_from v (c # cs) =
     (if c = CHR '','' then v # values_from [] cs else values_from (v @ [c]) cs)"
  by (auto simp: values_from_def split: list.splits)

lemma values_from_nonempty [simp]: "values_from v vs \<noteq> []"
  by (simp add: values_from_def)

lemma insert_query_pairs: "insert_query E n v d = d @ pairs_of E n [v]"
  by (simp add: insert_query_def dict_insert_def pairs_of_def)

lemma pairs_of_append [simp]: "pairs_of E n (xs @ ys) = pairs_of E n xs @ pairs_of E n ys"
  by (simp add: pairs_of_def)

lemma pairs_of_Cons: "pairs_of E n (x # xs) = pairs_of E n [x] @ pairs_of E n xs"
  by (simp add: pairs_of_def)

lemma pairs_of_Nil [simp]: "pairs_of E n [] = []" "pairs_of E [] vs = []"
  by (simp_all add: pairs_of_def)

lemma value_list:
  assumes "list_all (\<lambda>c. \<not> is_control (char_value c)) vs" and "CHR ''&'' \<notin> set vs"
    and "list_all (\<lambda>w. length w \<le> QUERY_VALUE_MAX) (values_from v vs)"
  shows "parse_url_encoded_loop E QUERY_PARSE_VALUE n v d (vs @ rest)
       = parse_url_encoded_loop E QUERY_PARSE_VALUE n (last (values_from v vs))
           (d @ pairs_of E n (butlast (values_from v vs))) rest"
  using assms
proof (induction vs arbitrary: v d)
  case Nil
  then show ?case by simp
next
  case (Cons c cs)
  show ?case
  proof (cases "c = CHR '',''")
    case True
    with Cons show ?thesis
      by (simp add: values_from_Cons insert_query_pairs
          pairs_of_Cons [of E n v "butlast (values_from [] cs)"])
  next
    case False
    have "length (v @ [c]) \<le> length (hd (values_from (v @ [c]) cs))"
      by (simp add: values_from_def)
    moreover have "list_all (\<lambda>w. length w \<le> QUERY_VALUE_MAX) (values_from (v @ [c]) cs)"
      using Cons.prems False by (simp add: values_from_Cons)
    ultimately have "length v < QUERY_VALUE_MAX"
      by (auto simp: values_from_def)
    with Cons False show ?thesis
      by (auto simp: values_from_Cons control_ws)
  qed
qed

lemma pairs_butlast_last:
  "pairs_of E n (butlast (values_from v vs)) @ pairs_of E n [last (values_from v vs)]
   = pairs_of E n (values_from v vs)"
  by (metis append_butlast_last_id pairs_of_append values_from_nonempty)

text \<open>A whole segment, at the end of the input or before the next separator.\<close>

lemma segment_step:
  assumes "segment_ok seg" and "CHR ''&'' \<notin> set seg"
  shows "parse_url_encoded_loop E QUERY_PARSE_NAME [] [] d seg = (True, d @ segment_pairs E seg)"
    and "parse_url_encoded_loop E QUERY_PARSE_NAME [] [] d (seg @ CHR ''&'' # rest)
       = parse_url_encoded_loop E QUERY_PARSE_NAME [] [] (d @ segment_pairs E seg) rest"
proof -
  let ?n = "takeWhile (\<lambda>c. c \<noteq> CHR ''='') seg"
  let ?r = "dropWhile (\<lambda>c. c \<noteq> CHR ''='') seg"
  have seg: "seg = ?n @ ?r" by simp
  have n: "list_all (\<lambda>c. \<not> is_control (char_value c)) ?n" "CHR ''='' \<notin> set ?n"
    "CHR ''&'' \<notin> set ?n" "length ([] :: byte_string) + length ?n \<le> QUERY_NAME_MAX"
    using assms by (auto simp: segment_ok_def list_all_iff dest: set_takeWhileD)
  have name: "parse_url_encoded_loop E QUERY_PARSE_NAME [] [] d (seg @ tail)
      = parse_url_encoded_loop E QUERY_PARSE_NAME ?n [] d (?r @ tail)" for tail
    using name_run [OF n, of E "[]" d "?r @ tail"] by (subst seg) (simp del: takeWhile_dropWhile_id)
  have "parse_url_encoded_loop E QUERY_PARSE_NAME ?n [] d ?r = (True, d @ segment_pairs E seg) \<and>
    parse_url_encoded_loop E QUERY_PARSE_NAME ?n [] d (?r @ CHR ''&'' # rest)
      = parse_url_encoded_loop E QUERY_PARSE_NAME [] [] (d @ segment_pairs E seg) rest"
  proof (cases ?r)
    case Nil
    then show ?thesis
      by (auto simp: segment_pairs_def insert_query_pairs pairs_of_def Let_def simp del: dropWhile_eq_Nil_conv)
  next
    case (Cons e vs)
    then have e: "e = CHR ''=''" by (simp add: dropWhile_eq_Cons_conv)
    have "set ?r \<subseteq> set seg" by (meson set_dropWhileD subsetI)
    with Cons assms have vs: "list_all (\<lambda>c. \<not> is_control (char_value c)) vs" "CHR ''&'' \<notin> set vs"
      "list_all (\<lambda>w. length w \<le> QUERY_VALUE_MAX) (values_from [] vs)"
      by (auto simp: segment_ok_def list_all_iff values_from_empty)
    have pairs: "segment_pairs E seg = pairs_of E ?n (values_from [] vs)"
      using Cons by (simp add: segment_pairs_def pairs_of_def values_from_empty Let_def)
    show ?thesis
      using value_list [OF vs, of E ?n d "[]"] value_list [OF vs, of E ?n d "CHR ''&'' # rest"]
        pairs_butlast_last [of E ?n "[]" vs]
      unfolding Cons e pairs
      by (cases "?n = []") (simp_all add: insert_query_pairs del: takeWhile_eq_Nil_iff)
  qed
  with name [of "[]"] name [of "CHR ''&'' # rest"]
  show "parse_url_encoded_loop E QUERY_PARSE_NAME [] [] d seg = (True, d @ segment_pairs E seg)"
    and "parse_url_encoded_loop E QUERY_PARSE_NAME [] [] d (seg @ CHR ''&'' # rest)
       = parse_url_encoded_loop E QUERY_PARSE_NAME [] [] (d @ segment_pairs E seg) rest"
    by simp_all
qed

lemma parse_loop_reference:
  assumes "list_all segment_ok (split_ref s (CHR ''&''))"
  shows "parse_url_encoded_loop E QUERY_PARSE_NAME [] [] d s = (True, d @ query_pairs_of E s)"
  using assms
proof (induction "length s" arbitrary: s d rule: less_induct)
  case less
  show ?case
  proof (rule split_ref_cases [where d = "CHR ''&''" and s = s])
    assume "CHR ''&'' \<notin> set s"
    with less.prems show ?thesis
      by (simp add: split_ref_no_sep query_pairs_of_def segment_step)
  next
    fix xs ys assume xs: "CHR ''&'' \<notin> set xs" and s: "s = xs @ CHR ''&'' # ys"
    with less.prems have ok: "segment_ok xs" "list_all segment_ok (split_ref ys (CHR ''&''))"
      by (simp_all add: split_ref_append_sep)
    have "length ys < length s" using s by simp
    from less.hyps [OF this ok(2), of "d @ segment_pairs E xs"] xs ok(1) s show ?thesis
      by (simp add: segment_step split_ref_append_sep query_pairs_of_def)
  qed
qed

section \<open>Round trip with make_query_string\<close>

text \<open>
  What the round trip needs of the percent coding of \<open>sl::utils\<close>: decoding undoes encoding,
  a non-empty name stays non-empty, and the encoded text has none of the delimiters and no
  control character.
\<close>

definition pair_fits :: "sl_utils \<Rightarrow> byte_string \<times> byte_string \<Rightarrow> bool" where
  "pair_fits E kv \<longleftrightarrow> fst kv \<noteq> [] \<and> length (url_encode E (fst kv)) \<le> QUERY_NAME_MAX
     \<and> length (url_encode E (snd kv)) \<le> QUERY_VALUE_MAX"

definition encoded_pair :: "sl_utils \<Rightarrow> byte_string \<times> byte_string \<Rightarrow> byte_string" where
  "encoded_pair E kv = url_encode E (fst kv) @ ''='' @ url_encode E (snd kv)"

locale url_codec = sl_env +
  assumes decode_encode: "url_decode E (url_encode E s) = s"
    and encode_nonempty: "url_encode E s = [] \<Longrightarrow> s = []"
    and encode_safe: "c \<in> set (url_encode E s) \<Longrightarrow>
       c \<noteq> CHR ''='' \<and> c \<noteq> CHR ''&'' \<and> c \<noteq> CHR '','' \<and> \<not> is_control (char_value c)"
begin

lemma encoded_take_drop:
  "takeWhile (\<lambda>c. c \<noteq> CHR ''='') (encoded_pair E kv) = url_encode E (fst kv)"
  "dropWhile (\<lambda>c. c \<noteq> CHR ''='') (encoded_pair E kv) = CHR ''='' # url_encode E (snd kv)"
  by (auto simp: encoded_pair_def takeWhile_append dropWhile_append dest: encode_safe)

lemma encoded_no_amp: "CHR ''&'' \<notin> set (encoded_pair E kv)"
  by (auto simp: encoded_pair_def dest: encode_safe)

lemma encoded_split_values: "split_ref (url_encode E v) (CHR '','') = [url_encode E v]"
  by (rule split_ref_no_sep) (auto dest: encode_safe)

lemma encoded_segment_ok: "pair_fits E kv \<Longrightarrow> segment_ok (encoded_pair E kv)"
proof -
  have "\<not> is_control (char_value (CHR ''=''))"
    by (simp add: is_control_def char_value_def)
  then show "pair_fits E kv \<Longrightarrow> segment_ok (encoded_pair E kv)"
    unfolding segment_ok_def encoded_take_drop
    by (auto simp: pair_fits_def encoded_split_values list_all_iff encoded_pair_def
        dest: encode_safe)
qed

lemma encoded_segment_pairs: "pair_fits E kv \<Longrightarrow> segment_pairs E (encoded_pair E kv) = [kv]"
  by (auto simp: segment_pairs_def encoded_take_drop encoded_split_values decode_encode
      pair_fits_def Let_def dest: encode_nonempty)

lemma split_query_pairs:
  "split_ref (query_pairs E True (kv # rest)) (CHR ''&'') = map (encoded_pair E) (kv # rest)"
proof (induction rest arbitrary: kv)
  case Nil
  show ?case using encoded_no_amp [of kv] by (simp add: encoded_pair_def split_ref_no_sep)
next
  case (Cons kv' rest)
  have "query_pairs E True (kv # kv' # rest)
      = encoded_pair E kv @ CHR ''&'' # query_pairs E True (kv' # rest)"
    by (simp add: encoded_pair_def)
  then show ?case
    using Cons.IH [of kv'] split_ref_append_sep [OF encoded_no_amp, of kv]
    by (simp del: query_pairs.simps)
qed

lemma query_string_parses:
  assumes "list_all (pair_fits E) (bucket_order E q)"
  shows "parse_url_encoded E d (make_query_string E q) = (True, d @ bucket_order E q)"
proof (cases "bucket_order E q")
  case Nil
  then show ?thesis by (simp add: make_query_string_def parse_url_encoded_def)
next
  case (Cons kv rest)
  let ?s = "query_pairs E True (kv # rest)"
  have ne: "?s \<noteq> []" by simp
  have "list_all segment_ok (split_ref ?s (CHR ''&''))"
    using assms Cons unfolding split_query_pairs by (auto simp: list_all_iff encoded_segment_ok)
  then have "parse_url_encoded_loop E QUERY_PARSE_NAME [] [] d ?s = (True, d @ query_pairs_of E ?s)"
    by (rule parse_loop_reference)
  moreover have "query_pairs_of E ?s = kv # rest"
  proof -
    have "concat (map (segment_pairs E) (map (encoded_pair E) xs)) = xs" if "list_all (pair_fits E) xs" for xs
      using that by (induction xs) (simp_all add: encoded_segment_pairs)
    with assms Cons show ?thesis
      unfolding query_pairs_of_def split_query_pairs by (simp add: encoded_segment_pairs)
  qed
  ultimately show ?thesis using Cons ne by (simp add: make_query_string_def parse_url_encoded_def)
qed

end

interpretation ref_codec: url_codec utils_ref
proof unfold_locales
  fix c s assume "c \<in> set (url_encode utils_ref s)"
  then have "is_unreserved c \<or> c = CHR ''%''" by (simp add: url_encode_ref_chars)
  then show "c \<noteq> CHR ''='' \<and> c \<noteq> CHR ''&'' \<and> c \<noteq> CHR '','' \<and> \<not> is_control (char_value c)"
    by (auto simp: is_unreserved_def is_control_def char_value_def Let_def)
qed (simp_all add: url_decode_encode_ref)

section \<open>Properties\<close>

text \<open>
  C27: on input whose segments are free of control characters and within the size limits,
  \<open>parse_url_encoded\<close> succeeds and appends exactly the pairs that splitting the text at
  \<open>&\<close>, \<open>=\<close> and \<open>,\<close> gives, in order.
\<close>

theorem parse_url_encoded_reference:
  assumes "list_all segment_ok (split_ref s (CHR ''&''))"
  shows "parse_url_encoded E d s = (True, d @ query_pairs_of E s)"
proof (cases "s = []")
  case True
  then show ?thesis by (simp add: parse_url_encoded_def query_pairs_of_def segment_pairs_def)
next
  case False
  with parse_loop_reference [OF assms] show ?thesis by (simp add: parse_url_encoded_def)
qed

theorem parse_url_encoded_reference_witness:
  "parse_url_encoded utils_ref [] ''a=1,2&b''
     = (True, [(''a'', ''1''), (''a'', ''2''), (''b'', [])])"
proof -
  have ok: "list_all segment_ok (split_ref ''a=1,2&b'' (CHR ''&''))"
    by (simp add: segment_ok_def is_control_def char_value_def QUERY_NAME_MAX_def QUERY_VALUE_MAX_def)
  have "query_pairs_of utils_ref ''a=1,2&b'' = [(''a'', ''1''), (''a'', ''2''), (''b'', [])]"
    by (simp add: query_pairs_of_def segment_pairs_def Let_def)
  with parse_url_encoded_reference [OF ok, of utils_ref "[]"] show ?thesis by simp
qed

text \<open>
  C28: a query string built by \<open>make_query_string\<close> from parameters with non-empty names
  parses back to the same parameters, in the container's iteration order.
\<close>

theorem query_string_roundtrip:
  assumes "url_codec E"
    and "list_all (pair_fits E) (bucket_order E q)"
  shows "parse_url_encoded E d (make_query_string E q) = (True, d @ bucket_order E q)"
  using assms by (rule url_codec.query_string_parses)

theorem query_string_roundtrip_witness:
  "parse_url_encoded utils_ref [] (make_query_string utils_ref [(''k&'', ''a b''), (''n'', [])])
     = (True, [(''k&'', ''a b''), (''n'', [])])"
  using query_string_roundtrip [OF ref_codec.url_codec_axioms, of "[(''k&'', ''a b''), (''n'', [])]" "[]"]
  by (simp add: pair_fits_def QUERY_NAME_MAX_def QUERY_VALUE_MAX_def)

end
