(* ===== verification/Multipart_Parser.thy ===== *)
theory Multipart_Parser
  imports Query_Parser
begin

text \<open>
  \<open>http_parser::parse_multipart_form_data\<close>: the scan of a multipart body for its text fields.
  The position \<open>ptr\<close> is an index into the body.
\<close>

section \<open>The scan\<close>

datatype MultiPartParseState =
    MP_PARSE_START | MP_PARSE_HEADER_CR | MP_PARSE_HEADER_LF | MP_PARSE_HEADER_NAME
  | MP_PARSE_HEADER_SPACE | MP_PARSE_HEADER_VALUE | MP_PARSE_HEADER_LAST_LF | MP_PARSE_FIELD_DATA

record multipart_state =
  mp_parse_state :: MultiPartParseState
  mp_header_name :: byte_string
  mp_header_value :: byte_string
  mp_field_name :: byte_string
  mp_field_value :: byte_string
  mp_found_parameter :: bool
  mp_save_current_field :: bool
  mp_dict :: dict

text \<open>
  A pass through the \<open>switch\<close> goes on at a position (\<open>MP_go\<close>), returns (\<open>MP_return\<close>) or leaves
  by an exception (\<open>MP_raise\<close>).
\<close>

datatype multipart_result =
    MP_go nat multipart_state
  | MP_return bool multipart_state
  | MP_raise exn

abbreviation mp_goto :: "MultiPartParseState \<Rightarrow> multipart_state \<Rightarrow> multipart_state" where
  "mp_goto st s \<equiv> s\<lparr>mp_parse_state := st\<rparr>"

text \<open>\<open>std::search\<close> from a position; not found is the end.\<close>

definition search_end :: "byte_string \<Rightarrow> byte_string \<Rightarrow> nat \<Rightarrow> nat" where
  "search_end pat data i = (case search_from pat data i of None \<Rightarrow> length data | Some k \<Rightarrow> k)"

definition mp_start :: "byte_string \<Rightarrow> nat \<Rightarrow> multipart_state \<Rightarrow> multipart_result" where
  "mp_start boundary i s =
     MP_go (i + (length boundary - 1) + 1)
       (s\<lparr>mp_header_name := [], mp_header_value := [], mp_field_name := [], mp_field_value := [],
          mp_save_current_field := True, mp_parse_state := MP_PARSE_HEADER_CR\<rparr>)"

definition mp_header_cr :: "byte_string \<Rightarrow> nat \<Rightarrow> multipart_state \<Rightarrow> multipart_result" where
  "mp_header_cr data i s =
     (if data ! i = CR then MP_go (i + 1) (mp_goto MP_PARSE_HEADER_LF s)
      else if data ! i = LF then MP_go (i + 1) (mp_goto MP_PARSE_HEADER_NAME s)
      else if data ! i = CHR ''-'' \<and> i + 1 < length data \<and> data ! (i + 1) = CHR ''-''
      then MP_return True s
      else MP_return False s)"

definition mp_header_lf :: "byte_string \<Rightarrow> nat \<Rightarrow> multipart_state \<Rightarrow> multipart_result" where
  "mp_header_lf data i s =
     (if data ! i = LF then MP_go (i + 1) (mp_goto MP_PARSE_HEADER_NAME s) else MP_return False s)"

definition mp_on_header_name :: "byte_string \<Rightarrow> nat \<Rightarrow> multipart_state \<Rightarrow> multipart_result" where
  "mp_on_header_name data i s =
     (if data ! i = CR \<or> data ! i = LF then
        (if mp_header_name s = []
         then MP_go (i + 1) (mp_goto (if data ! i = CR then MP_PARSE_HEADER_LAST_LF else MP_PARSE_FIELD_DATA) s)
         else MP_go (i + 1) (mp_goto (if data ! i = CR then MP_PARSE_HEADER_LF else MP_PARSE_HEADER_NAME) s))
      else if data ! i = CHR '':'' then MP_go (i + 1) (mp_goto MP_PARSE_HEADER_SPACE s)
      else MP_go (i + 1) (s\<lparr>mp_header_name := mp_header_name s @ [data ! i]\<rparr>))"

definition mp_header_space :: "byte_string \<Rightarrow> nat \<Rightarrow> multipart_state \<Rightarrow> multipart_result" where
  "mp_header_space data i s =
     (if data ! i = CR then MP_go (i + 1) (mp_goto MP_PARSE_HEADER_LF s)
      else if data ! i = LF then MP_go (i + 1) (mp_goto MP_PARSE_HEADER_NAME s)
      else if data ! i \<noteq> SP
      then MP_go (i + 1) (s\<lparr>mp_header_value := mp_header_value s @ [data ! i],
                            mp_parse_state := MP_PARSE_HEADER_VALUE\<rparr>)
      else MP_go (i + 1) s)"

text \<open>The text between the quotes of \<open>name="\<dots>"\<close>, appended to the field name.\<close>

definition disposition_name :: "byte_string \<Rightarrow> byte_string" where
  "disposition_name header_value =
     (case search_list (''name='' @ [DQUOTE]) header_value of
        None \<Rightarrow> []
      | Some name_pos \<Rightarrow> takeWhile (\<lambda>c. c \<noteq> DQUOTE) (drop (name_pos + 6) header_value))"

definition mp_use_header :: "sl_utils \<Rightarrow> multipart_state \<Rightarrow> multipart_state" where
  "mp_use_header E s =
     (if iequals E (mp_header_name s) HEADER_CONTENT_TYPE
      then s\<lparr>mp_save_current_field := iequals E (take 5 (mp_header_value s)) ''text/''\<rparr>
      else if iequals E (mp_header_name s) HEADER_CONTENT_DISPOSITION
      then s\<lparr>mp_field_name := mp_field_name s @ disposition_name (mp_header_value s)\<rparr>
      else s)"

definition mp_on_header_value :: "sl_utils \<Rightarrow> byte_string \<Rightarrow> nat \<Rightarrow> multipart_state \<Rightarrow> multipart_result" where
  "mp_on_header_value E data i s =
     (if data ! i = CR \<or> data ! i = LF then
        MP_go (i + 1) ((mp_use_header E s)\<lparr>mp_header_name := [], mp_header_value := [],
          mp_parse_state := (if data ! i = CR then MP_PARSE_HEADER_LF else MP_PARSE_HEADER_NAME)\<rparr>)
      else MP_go (i + 1) (s\<lparr>mp_header_value := mp_header_value s @ [data ! i]\<rparr>))"

definition mp_header_last_lf ::
  "byte_string \<Rightarrow> byte_string \<Rightarrow> nat \<Rightarrow> multipart_state \<Rightarrow> multipart_result" where
  "mp_header_last_lf boundary data i s =
     (if data ! i = LF then
        (if mp_save_current_field s \<and> mp_field_name s \<noteq> []
         then MP_go (i + 1) (mp_goto MP_PARSE_FIELD_DATA s)
         else MP_go (search_end boundary data i) (mp_goto MP_PARSE_START s))
      else MP_return False s)"

text \<open>
  \<open>temp_ptr = next_ptr - 2\<close> reads before the body when the next boundary starts before offset 2.
  \<open>field_value.assign(ptr, field_end_ptr - ptr)\<close> with \<open>field_end_ptr < ptr\<close> converts a negative
  difference to \<open>size_t\<close>: \<open>std::length_error\<close>.
\<close>

definition mp_field_data ::
  "byte_string \<Rightarrow> byte_string \<Rightarrow> nat \<Rightarrow> multipart_state \<Rightarrow> multipart_result" where
  "mp_field_data boundary data i s =
     (let next_ptr = search_end boundary data i in
      if next_ptr < 2 then MP_raise Memory_fault
      else
        (let field_end = (if data ! (next_ptr - 2) = CR \<and> data ! (next_ptr - 1) = LF
                          then next_ptr - 2 else next_ptr)
         in if field_end < i then MP_raise Length_error
            else (let value = take (field_end - i) (drop i data)
                  in MP_go next_ptr
                       (s\<lparr>mp_field_value := value,
                          mp_dict := dict_insert (mp_dict s) (mp_field_name s) value,
                          mp_found_parameter := True, mp_parse_state := MP_PARSE_START\<rparr>))))"

definition multipart_step ::
  "sl_utils \<Rightarrow> byte_string \<Rightarrow> byte_string \<Rightarrow> nat \<Rightarrow> multipart_state \<Rightarrow> multipart_result" where
  "multipart_step E boundary data i s =
     (case mp_parse_state s of
        MP_PARSE_START \<Rightarrow> mp_start boundary i s
      | MP_PARSE_HEADER_CR \<Rightarrow> mp_header_cr data i s
      | MP_PARSE_HEADER_LF \<Rightarrow> mp_header_lf data i s
      | MP_PARSE_HEADER_NAME \<Rightarrow> mp_on_header_name data i s
      | MP_PARSE_HEADER_SPACE \<Rightarrow> mp_header_space data i s
      | MP_PARSE_HEADER_VALUE \<Rightarrow> mp_on_header_value E data i s
      | MP_PARSE_HEADER_LAST_LF \<Rightarrow> mp_header_last_lf boundary data i s
      | MP_PARSE_FIELD_DATA \<Rightarrow> mp_field_data boundary data i s)"

lemmas multipart_case_defs =
  mp_start_def mp_header_cr_def mp_header_lf_def mp_on_header_name_def mp_header_space_def
  mp_on_header_value_def mp_header_last_lf_def mp_field_data_def

section \<open>Progress\<close>

definition scan_measure :: "byte_string \<Rightarrow> nat \<Rightarrow> multipart_state \<Rightarrow> nat" where
  "scan_measure data i s =
     2 * (length data - i) + (if mp_parse_state s = MP_PARSE_START then 0 else 1)"

lemma search_end_bounds: "i \<le> length data \<Longrightarrow> i \<le> search_end pat data i \<and> search_end pat data i \<le> length data"
  by (auto simp: search_end_def split: option.splits dest: search_from_bound)

lemma multipart_step_progress:
  assumes "multipart_step E boundary data i s = MP_go j t" and "i < length data" and "boundary \<noteq> []"
  shows "scan_measure data j t < scan_measure data i s" and "i \<le> j"
proof -
  have "i \<le> search_end boundary data i" using search_end_bounds assms(2) by simp
  with assms show "scan_measure data j t < scan_measure data i s" "i \<le> j"
    by (cases "mp_parse_state s";
        auto simp: multipart_step_def multipart_case_defs scan_measure_def Let_def split: if_splits)+
qed

text \<open>The loop; the boundary is \<open>--\<close> followed by the text of the header.\<close>

function multipart_loop ::
  "sl_utils \<Rightarrow> byte_string \<Rightarrow> byte_string \<Rightarrow> nat \<Rightarrow> multipart_state \<Rightarrow> exn + (bool \<times> dict)"
where
  "multipart_loop E b data i s =
     (if i < length data then
        (case multipart_step E (''--'' @ b) data i s of
           MP_go j t \<Rightarrow> multipart_loop E b data j t
         | MP_return r t \<Rightarrow> Inr (r, mp_dict t)
         | MP_raise e \<Rightarrow> Inl e)
      else Inr (mp_found_parameter s, mp_dict s))"
  by pat_completeness auto
termination
  by (relation "measure (\<lambda>(E, b, data, i, s). scan_measure data i s)")
     (auto dest: multipart_step_progress(1))

declare multipart_loop.simps [simp del]

definition parse_multipart_form_data ::
  "sl_utils \<Rightarrow> dict \<Rightarrow> byte_string \<Rightarrow> byte_string \<Rightarrow> exn + (bool \<times> dict)" where
  "parse_multipart_form_data E d content_type data =
     (if length data = 0 then Inr (True, d)
      else
        (case search_list ''boundary='' content_type of
           None \<Rightarrow> Inr (False, d)
         | Some pos \<Rightarrow>
             (let b = drop (pos + 9) content_type
              in multipart_loop E b data (search_end (''--'' @ b) data 0)
                   \<lparr>mp_parse_state = MP_PARSE_START, mp_header_name = [], mp_header_value = [],
                    mp_field_name = [], mp_field_value = [], mp_found_parameter = False,
                    mp_save_current_field = True, mp_dict = d\<rparr>)))"

section \<open>Memory safety\<close>

lemma multipart_step_safe:
  assumes "multipart_step E boundary data i s = MP_raise Memory_fault"
  shows "search_end boundary data i < 2 \<and> mp_parse_state s = MP_PARSE_FIELD_DATA"
  using assms
  by (cases "mp_parse_state s") (auto simp: multipart_step_def multipart_case_defs Let_def split: if_splits)

lemma multipart_step_index:
  assumes "multipart_step E (''--'' @ b) data i s = MP_go j t" and "i < length data"
    and "mp_parse_state s \<noteq> MP_PARSE_START \<Longrightarrow> 2 \<le> i"
  shows "mp_parse_state t \<noteq> MP_PARSE_START \<Longrightarrow> 2 \<le> j"
proof -
  have "i \<le> j" using multipart_step_progress(2) [OF assms(1,2)] by simp
  then show "mp_parse_state t \<noteq> MP_PARSE_START \<Longrightarrow> 2 \<le> j"
    using assms
    by (cases "mp_parse_state s") (auto simp: multipart_step_def mp_start_def)
qed

lemma multipart_loop_safe:
  "(mp_parse_state s \<noteq> MP_PARSE_START \<Longrightarrow> 2 \<le> i) \<Longrightarrow> multipart_loop E b data i s \<noteq> Inl Memory_fault"
proof (induction E b data i s rule: multipart_loop.induct)
  case (1 E b data i s)
  show ?case
  proof (cases "i < length data")
    case True
    show ?thesis
    proof (cases "multipart_step E (''--'' @ b) data i s")
      case (MP_go j t)
      from multipart_step_index [OF MP_go True 1(2)] have "multipart_loop E b data j t \<noteq> Inl Memory_fault"
        by (rule 1(1) [OF True MP_go])
      with True MP_go show ?thesis by (subst multipart_loop.simps) simp
    next
      case (MP_return r t)
      with True show ?thesis by (subst multipart_loop.simps) simp
    next
      case (MP_raise e)
      have "e \<noteq> Memory_fault"
      proof
        assume "e = Memory_fault"
        then have "search_end (''--'' @ b) data i < 2" "mp_parse_state s = MP_PARSE_FIELD_DATA"
          using multipart_step_safe MP_raise by blast+
        moreover have "i \<le> search_end (''--'' @ b) data i" using search_end_bounds True by simp
        ultimately show False using 1(2) by simp
      qed
      with True MP_raise show ?thesis by (subst multipart_loop.simps) simp
    qed
  next
    case False
    then show ?thesis by (subst multipart_loop.simps) simp
  qed
qed

lemma multipart_safe: "parse_multipart_form_data E d ct data \<noteq> Inl Memory_fault"
proof -
  have "multipart_loop E b data i
      \<lparr>mp_parse_state = MP_PARSE_START, mp_header_name = [], mp_header_value = [], mp_field_name = [],
       mp_field_value = [], mp_found_parameter = False, mp_save_current_field = True, mp_dict = d\<rparr>
      \<noteq> Inl Memory_fault" for b i
    by (rule multipart_loop_safe) simp
  then show ?thesis by (simp add: parse_multipart_form_data_def Let_def split: option.splits)
qed

end
