(* ===== verification/Multipart_Roundtrip.thy ===== *)
theory Multipart_Roundtrip
  imports Multipart_Parser
begin

text \<open>
  The multipart scan on the forms a browser sends: the text of a form, what each state of the
  scan consumes of it, and that the scan gives back the text fields of the form in their order.
\<close>

section \<open>The text of a form\<close>

text \<open>
  A part has the name of its field, the name of a file and a content type where the client sends
  them, and the value. The lines follow RFC 7578; the scan of the program is not concerned in
  these definitions.
\<close>

record form_field =
  ff_name :: byte_string
  ff_filename :: "byte_string option"
  ff_type :: "byte_string option"
  ff_value :: byte_string

abbreviation CRLF_text :: byte_string where "CRLF_text \<equiv> [CR, LF]"

definition part_header :: "byte_string \<Rightarrow> byte_string \<Rightarrow> byte_string" where
  "part_header name value = name @ '': '' @ value @ CRLF_text"

definition disposition_text :: "form_field \<Rightarrow> byte_string" where
  "disposition_text f =
     ''form-data; name='' @ [DQUOTE] @ ff_name f @ [DQUOTE]
     @ (case ff_filename f of None \<Rightarrow> [] | Some n \<Rightarrow> ''; filename='' @ [DQUOTE] @ n @ [DQUOTE])"

definition part_headers_text :: "form_field \<Rightarrow> byte_string" where
  "part_headers_text f =
     part_header HEADER_CONTENT_DISPOSITION (disposition_text f)
     @ (case ff_type f of None \<Rightarrow> [] | Some t \<Rightarrow> part_header HEADER_CONTENT_TYPE t)"

definition part_text :: "form_field \<Rightarrow> byte_string" where
  "part_text f = CRLF_text @ part_headers_text f @ CRLF_text @ ff_value f @ CRLF_text"

fun form_text :: "byte_string \<Rightarrow> form_field list \<Rightarrow> byte_string" where
  "form_text b [] = ''--'' @ b @ ''--''"
| "form_text b (f # fs) = ''--'' @ b @ part_text f @ form_text b fs"

definition plain_line :: "byte_string \<Rightarrow> bool" where
  "plain_line s \<longleftrightarrow> CR \<notin> set s \<and> LF \<notin> set s"

definition wf_field :: "byte_string \<Rightarrow> form_field \<Rightarrow> bool" where
  "wf_field b f \<longleftrightarrow>
     ff_name f \<noteq> [] \<and> plain_line (ff_name f) \<and> DQUOTE \<notin> set (ff_name f)
     \<and> (\<forall>n \<in> set_option (ff_filename f). plain_line n)
     \<and> (\<forall>t \<in> set_option (ff_type f). t \<noteq> [] \<and> hd t \<noteq> SP \<and> plain_line t)
     \<and> search_list (''--'' @ b) (ff_value f) = None"

definition field_is_text :: "sl_utils \<Rightarrow> form_field \<Rightarrow> bool" where
  "field_is_text E f \<longleftrightarrow> (case ff_type f of None \<Rightarrow> True | Some t \<Rightarrow> iequals E (take 5 t) ''text/'')"

definition text_fields :: "sl_utils \<Rightarrow> form_field list \<Rightarrow> dict" where
  "text_fields E fs = map (\<lambda>f. (ff_name f, ff_value f)) (filter (field_is_text E) fs)"

lemma text_fields_Nil [simp]: "text_fields E [] = []"
  by (simp add: text_fields_def)

lemma text_fields_Cons [simp]:
  "text_fields E (f # fs) = (if field_is_text E f then [(ff_name f, ff_value f)] else []) @ text_fields E fs"
  by (simp add: text_fields_def)

section \<open>Positions\<close>

text \<open>What remains to be read at a position determines the byte there and the next position.\<close>

lemma drop_Cons_at:
  assumes "drop i data = c # rest"
  shows "i < length data" and "data ! i = c" and "drop (Suc i) data = rest"
proof -
  show "i < length data" using assms by (metis drop_all leI list.discI)
  then show "data ! i = c" using assms by (simp add: Cons_nth_drop_Suc [symmetric])
  show "drop (Suc i) data = rest" using assms by (metis drop_Suc list.sel(3) tl_drop)
qed

lemma drop_append_at: "drop i data = w @ rest \<Longrightarrow> drop (i + length w) data = rest"
  by (metis add.commute append_eq_conv_conj drop_drop)

lemma nth_append_at: "drop i data = w @ c # rest \<Longrightarrow> data ! (i + length w) = c"
  by (rule drop_Cons_at(2) [OF drop_append_at])

text \<open>A boundary without line ends is first met after the line end that follows the value.\<close>

lemma prefix_stops_at_CR:
  assumes "is_prefix_of B (v @ CR # rest)" and "CR \<notin> set B"
  shows "is_prefix_of B v"
  using assms
proof (induction B v rule: is_prefix_of.induct)
  case (2 x xs)
  then show ?case by auto
qed auto

lemma search_after_value:
  assumes "search_list B v = None" and "plain_line B" and "B \<noteq> []"
  shows "search_list B (v @ CR # LF # B @ rest) = Some (length v + 2)"
  using assms(1)
proof (induction v)
  case Nil
  obtain x xs where B: "B = x # xs" using assms(3) by (cases B) auto
  have "x \<noteq> CR" "x \<noteq> LF" using assms(2) B by (auto simp: plain_line_def)
  then show ?case using B by simp
next
  case (Cons c v)
  then have "\<not> is_prefix_of B (c # v)" "search_list B v = None" by (auto split: if_splits)
  moreover have "\<not> is_prefix_of B ((c # v) @ CR # LF # B @ rest)"
    using calculation(1) prefix_stops_at_CR assms(2) unfolding plain_line_def by blast
  ultimately show ?case using Cons.IH by simp
qed

lemma search_end_after_value:
  assumes "drop i data = v @ CR # LF # B @ rest" and "search_list B v = None" and "plain_line B" and "B \<noteq> []"
  shows "search_end B data i = i + length v + 2"
  using search_after_value [OF assms(2-4), of rest] assms(1)
  by (simp add: search_end_def search_from_def)

lemma search_end_here: "drop i data = B @ rest \<Longrightarrow> B \<noteq> [] \<Longrightarrow> search_end B data i = i"
  by (cases B) (auto simp: search_end_def search_from_def)

section \<open>What the states of the scan consume\<close>

lemma multipart_go:
  assumes "i < length data" and "multipart_step E (''--'' @ b) data i s = MP_go j t"
  shows "multipart_loop E b data i s = multipart_loop E b data j t"
  using assms by (subst multipart_loop.simps) simp

lemma run_part_header_name:
  "drop i data = w @ rest \<Longrightarrow> plain_line w \<Longrightarrow> CHR '':'' \<notin> set w \<Longrightarrow>
   mp_parse_state s = MP_PARSE_HEADER_NAME \<Longrightarrow>
   multipart_loop E b data i s
     = multipart_loop E b data (i + length w) (s\<lparr>mp_header_name := mp_header_name s @ w\<rparr>)"
proof (induction w arbitrary: i s)
  case (Cons c w)
  note at = drop_Cons_at [of i data c "w @ rest"]
  have "multipart_step E (''--'' @ b) data i s
      = MP_go (Suc i) (s\<lparr>mp_header_name := mp_header_name s @ [c]\<rparr>)"
    using Cons.prems at by (auto simp: multipart_step_def mp_on_header_name_def plain_line_def)
  then have "multipart_loop E b data i s
      = multipart_loop E b data (Suc i) (s\<lparr>mp_header_name := mp_header_name s @ [c]\<rparr>)"
    using multipart_go at(1) Cons.prems(1) by simp
  also have "\<dots> = multipart_loop E b data (Suc i + length w) (s\<lparr>mp_header_name := mp_header_name s @ c # w\<rparr>)"
    using Cons.IH [of "Suc i" "s\<lparr>mp_header_name := mp_header_name s @ [c]\<rparr>"] Cons.prems at(3)
    by (simp add: plain_line_def)
  finally show ?case by simp
qed simp

lemma run_part_header_value:
  "drop i data = w @ rest \<Longrightarrow> plain_line w \<Longrightarrow> mp_parse_state s = MP_PARSE_HEADER_VALUE \<Longrightarrow>
   multipart_loop E b data i s
     = multipart_loop E b data (i + length w) (s\<lparr>mp_header_value := mp_header_value s @ w\<rparr>)"
proof (induction w arbitrary: i s)
  case (Cons c w)
  note at = drop_Cons_at [of i data c "w @ rest"]
  have "multipart_step E (''--'' @ b) data i s
      = MP_go (Suc i) (s\<lparr>mp_header_value := mp_header_value s @ [c]\<rparr>)"
    using Cons.prems at by (auto simp: multipart_step_def mp_on_header_value_def plain_line_def)
  then have "multipart_loop E b data i s
      = multipart_loop E b data (Suc i) (s\<lparr>mp_header_value := mp_header_value s @ [c]\<rparr>)"
    using multipart_go at(1) Cons.prems(1) by simp
  also have "\<dots> = multipart_loop E b data (Suc i + length w) (s\<lparr>mp_header_value := mp_header_value s @ c # w\<rparr>)"
    using Cons.IH [of "Suc i" "s\<lparr>mp_header_value := mp_header_value s @ [c]\<rparr>"] Cons.prems at(3)
    by (simp add: plain_line_def)
  finally show ?case by simp
qed simp

text \<open>The colon and the space after a header name, with the first byte of the value.\<close>

lemma run_header_colon:
  assumes "drop i data = CHR '':'' # SP # c # rest" and "mp_parse_state s = MP_PARSE_HEADER_NAME"
    and "c \<noteq> SP" "c \<noteq> CR" "c \<noteq> LF"
  shows "multipart_loop E b data i s
    = multipart_loop E b data (i + 3)
        (s\<lparr>mp_header_value := mp_header_value s @ [c], mp_parse_state := MP_PARSE_HEADER_VALUE\<rparr>)"
proof -
  note at0 = drop_Cons_at [OF assms(1)]
  note at1 = drop_Cons_at [OF at0(3)]
  note at2 = drop_Cons_at [OF at1(3)]
  have "multipart_loop E b data i s
      = multipart_loop E b data (Suc i) (mp_goto MP_PARSE_HEADER_SPACE s)"
    by (rule multipart_go [OF at0(1)]) (simp add: at0(2) assms(2) multipart_step_def mp_on_header_name_def)
  also have "\<dots> = multipart_loop E b data (Suc (Suc i)) (mp_goto MP_PARSE_HEADER_SPACE s)"
    by (rule multipart_go [OF at1(1)]) (simp add: at1(2) multipart_step_def mp_header_space_def)
  also have "\<dots> = multipart_loop E b data (Suc (Suc (Suc i)))
      (s\<lparr>mp_header_value := mp_header_value s @ [c], mp_parse_state := MP_PARSE_HEADER_VALUE\<rparr>)"
    by (rule multipart_go [OF at2(1)]) (use assms(3-5) in \<open>simp add: at2(2) multipart_step_def mp_header_space_def\<close>)
  finally show ?thesis by (simp add: numeral_3_eq_3)
qed

text \<open>The line end after a header value: the header is used, the scan is at the next line.\<close>

lemma run_value_end:
  assumes "drop i data = CR # LF # rest" and "mp_parse_state s = MP_PARSE_HEADER_VALUE"
  shows "multipart_loop E b data i s
    = multipart_loop E b data (i + 2)
        ((mp_use_header E s)\<lparr>mp_header_name := [], mp_header_value := [], mp_parse_state := MP_PARSE_HEADER_NAME\<rparr>)"
proof -
  note at0 = drop_Cons_at [OF assms(1)]
  note at1 = drop_Cons_at [OF at0(3)]
  have "multipart_loop E b data i s
      = multipart_loop E b data (Suc i)
          ((mp_use_header E s)\<lparr>mp_header_name := [], mp_header_value := [], mp_parse_state := MP_PARSE_HEADER_LF\<rparr>)"
    by (rule multipart_go [OF at0(1)]) (simp add: at0(2) assms(2) multipart_step_def mp_on_header_value_def)
  also have "\<dots> = multipart_loop E b data (Suc (Suc i))
          ((mp_use_header E s)\<lparr>mp_header_name := [], mp_header_value := [], mp_parse_state := MP_PARSE_HEADER_NAME\<rparr>)"
    by (rule multipart_go [OF at1(1)]) (simp add: at1(2) multipart_step_def mp_header_lf_def)
  finally show ?thesis by simp
qed

text \<open>A whole header line.\<close>

lemma run_header:
  assumes "drop i data = part_header name hv @ rest"
    and "plain_line name" "CHR '':'' \<notin> set name" "plain_line hv" "hv \<noteq> []" "hd hv \<noteq> SP"
    and "mp_parse_state s = MP_PARSE_HEADER_NAME" "mp_header_name s = []" "mp_header_value s = []"
  shows "multipart_loop E b data i s
    = multipart_loop E b data (i + length (part_header name hv))
        ((mp_use_header E (s\<lparr>mp_header_name := name, mp_header_value := hv\<rparr>))
          \<lparr>mp_header_name := [], mp_header_value := [], mp_parse_state := MP_PARSE_HEADER_NAME\<rparr>)"
proof -
  obtain c v where v: "hv = c # v" using assms(5) by (cases hv) auto
  let ?s1 = "s\<lparr>mp_header_name := name\<rparr>"
  let ?s2 = "?s1\<lparr>mp_header_value := [c], mp_parse_state := MP_PARSE_HEADER_VALUE\<rparr>"
  let ?s3 = "?s2\<lparr>mp_header_value := hv\<rparr>"
  have d0: "drop i data = name @ CHR '':'' # SP # c # v @ CR # LF # rest"
    using assms(1) v by (simp add: part_header_def)
  note d1 = drop_append_at [OF d0]
  have d2: "drop (i + length name + 3) data = v @ CR # LF # rest"
    using drop_append_at [of "i + length name" data "[CHR '':'', SP, c]"] d1
    by (simp add: numeral_3_eq_3)
  note d3 = drop_append_at [OF d2]
  have "multipart_loop E b data i s = multipart_loop E b data (i + length name) ?s1"
    using run_part_header_name [OF d0 assms(2,3,7)] assms(8) by simp
  also have "\<dots> = multipart_loop E b data (i + length name + 3) ?s2"
    using run_header_colon [OF d1, of ?s1 E b] assms(4,6,7,9) v by (auto simp: plain_line_def)
  also have "\<dots> = multipart_loop E b data (i + length name + 3 + length v) ?s3"
    using run_part_header_value [OF d2, of ?s2] assms(4) v by (simp add: plain_line_def)
  also have "\<dots> = multipart_loop E b data (i + length name + 3 + length v + 2)
      ((mp_use_header E ?s3)\<lparr>mp_header_name := [], mp_header_value := [], mp_parse_state := MP_PARSE_HEADER_NAME\<rparr>)"
    by (rule run_value_end [OF d3]) simp
  also have "(mp_use_header E ?s3)\<lparr>mp_header_name := [], mp_header_value := [], mp_parse_state := MP_PARSE_HEADER_NAME\<rparr>
      = (mp_use_header E (s\<lparr>mp_header_name := name, mp_header_value := hv\<rparr>))
          \<lparr>mp_header_name := [], mp_header_value := [], mp_parse_state := MP_PARSE_HEADER_NAME\<rparr>"
    by (cases s) (simp add: mp_use_header_def)
  also have "i + length name + 3 + length v + 2 = i + length (part_header name hv)"
    using v by (simp add: part_header_def)
  finally show ?thesis .
qed

section \<open>Parts\<close>

text \<open>The boundary and its line end: everything about the part is reset.\<close>

definition part_start :: "multipart_state \<Rightarrow> multipart_state" where
  "part_start s =
     s\<lparr>mp_header_name := [], mp_header_value := [], mp_field_name := [], mp_field_value := [],
       mp_save_current_field := True, mp_parse_state := MP_PARSE_HEADER_NAME\<rparr>"

lemma run_boundary:
  assumes "drop i data = ''--'' @ b @ rest" and "mp_parse_state s = MP_PARSE_START"
  shows "multipart_loop E b data i s
    = multipart_loop E b data (i + length b + 2) (mp_goto MP_PARSE_HEADER_CR (part_start s))"
proof -
  have "i < length data" using drop_Cons_at(1) [of i data] assms(1) by simp
  from multipart_go [OF this] show ?thesis
    using assms(2) by (simp add: multipart_step_def mp_start_def part_start_def)
qed

lemma run_boundary_line:
  assumes "drop i data = ''--'' @ b @ CR # LF # rest" and "mp_parse_state s = MP_PARSE_START"
  shows "multipart_loop E b data i s = multipart_loop E b data (i + length b + 4) (part_start s)"
proof -
  let ?j = "i + length b + 2"
  have d: "drop ?j data = CR # LF # rest"
    using drop_append_at [of i data "''--'' @ b"] assms(1) by (simp add: ac_simps)
  note at0 = drop_Cons_at [OF d]
  note at1 = drop_Cons_at [OF at0(3)]
  have "multipart_loop E b data i s = multipart_loop E b data ?j (mp_goto MP_PARSE_HEADER_CR (part_start s))"
    by (rule run_boundary [OF _ assms(2)]) (use assms(1) in simp)
  also have "\<dots> = multipart_loop E b data (Suc ?j) (mp_goto MP_PARSE_HEADER_LF (part_start s))"
    by (rule multipart_go [OF at0(1)]) (use at0(2) in \<open>simp add: multipart_step_def mp_header_cr_def\<close>)
  also have "\<dots> = multipart_loop E b data (Suc (Suc ?j)) (part_start s)"
    by (rule multipart_go [OF at1(1)]) (use at1(2) in \<open>simp add: multipart_step_def mp_header_lf_def part_start_def\<close>)
  finally show ?thesis by (simp add: eval_nat_numeral)
qed

text \<open>The boundary followed by \<open>--\<close> ends the scan.\<close>

lemma run_last_boundary:
  assumes "drop i data = ''--'' @ b @ ''--'' @ rest" and "mp_parse_state s = MP_PARSE_START"
  shows "multipart_loop E b data i s = Inr (True, mp_dict s)"
proof -
  let ?j = "i + length b + 2"
  have d: "drop ?j data = CHR ''-'' # CHR ''-'' # rest"
    using drop_append_at [of i data "''--'' @ b"] assms(1) by (simp add: ac_simps)
  note at0 = drop_Cons_at [OF d]
  note at1 = drop_Cons_at [OF at0(3)]
  have "multipart_loop E b data i s = multipart_loop E b data ?j (mp_goto MP_PARSE_HEADER_CR (part_start s))"
    by (rule run_boundary [OF _ assms(2)]) (use assms(1) in simp)
  also have "\<dots> = Inr (True, mp_dict s)"
    using at0 at1 by (subst multipart_loop.simps) (simp add: multipart_step_def mp_header_cr_def part_start_def)
  finally show ?thesis .
qed

text \<open>The headers of a part determine the name of the field and whether it is kept.\<close>

lemma disposition_name_text: "DQUOTE \<notin> set (ff_name f) \<Longrightarrow> disposition_name (disposition_text f) = ff_name f"
  by (auto simp: disposition_name_def disposition_text_def takeWhile_append)

lemma disposition_plain:
  "wf_field b f \<Longrightarrow> plain_line (disposition_text f) \<and> disposition_text f \<noteq> [] \<and> hd (disposition_text f) \<noteq> SP"
  by (auto simp: wf_field_def disposition_text_def plain_line_def split: option.splits)

lemma part_header_names:
  "plain_line HEADER_CONTENT_DISPOSITION" "CHR '':'' \<notin> set HEADER_CONTENT_DISPOSITION"
  "plain_line HEADER_CONTENT_TYPE" "CHR '':'' \<notin> set HEADER_CONTENT_TYPE"
  by (simp_all add: plain_line_def HEADER_CONTENT_DISPOSITION_def HEADER_CONTENT_TYPE_def)

context sl_env
begin

lemma run_part_headers:
  assumes wf: "wf_field b f" and d: "drop i data = part_headers_text f @ rest"
    and names: "\<not> iequals E HEADER_CONTENT_DISPOSITION HEADER_CONTENT_TYPE"
  shows "multipart_loop E b data i (part_start s)
    = multipart_loop E b data (i + length (part_headers_text f))
        ((part_start s)\<lparr>mp_field_name := ff_name f, mp_save_current_field := field_is_text E f\<rparr>)"
proof -
  let ?D = "part_header HEADER_CONTENT_DISPOSITION (disposition_text f)"
  let ?s = "(part_start s)\<lparr>mp_field_name := ff_name f\<rparr>"
  let ?j = "i + length ?D"
  obtain types where types: "part_headers_text f = ?D @ types"
    "types = (case ff_type f of None \<Rightarrow> [] | Some t \<Rightarrow> part_header HEADER_CONTENT_TYPE t)"
    by (simp add: part_headers_text_def)
  have name: "DQUOTE \<notin> set (ff_name f)" using wf by (simp add: wf_field_def)
  have d0: "drop i data = ?D @ types @ rest" using d types(1) by simp
  note d1 = drop_append_at [OF d0]
  have use_name: "(mp_use_header E ((part_start s)\<lparr>mp_header_name := HEADER_CONTENT_DISPOSITION,
        mp_header_value := disposition_text f\<rparr>))\<lparr>mp_header_name := [], mp_header_value := [],
        mp_parse_state := MP_PARSE_HEADER_NAME\<rparr> = ?s"
    by (cases s) (simp add: part_start_def mp_use_header_def names iequals_refl disposition_name_text [OF name])
  have "multipart_loop E b data i (part_start s) = multipart_loop E b data ?j ?s"
    using run_header [OF d0, of "part_start s" E b, unfolded use_name] disposition_plain [OF wf] part_header_names
    by (simp add: part_start_def)
  also have "\<dots> = multipart_loop E b data (?j + length types) (?s\<lparr>mp_save_current_field := field_is_text E f\<rparr>)"
  proof (cases "ff_type f")
    case None
    then have "?s = ?s\<lparr>mp_save_current_field := field_is_text E f\<rparr>"
      by (cases s) (simp add: field_is_text_def part_start_def)
    then show ?thesis using types(2) None by simp
  next
    case (Some t)
    then have t: "plain_line t" "t \<noteq> []" "hd t \<noteq> SP" using wf by (simp_all add: wf_field_def)
    have "drop ?j data = part_header HEADER_CONTENT_TYPE t @ rest" using d1 types(2) Some by simp
    moreover have use_type: "(mp_use_header E (?s\<lparr>mp_header_name := HEADER_CONTENT_TYPE, mp_header_value := t\<rparr>))
        \<lparr>mp_header_name := [], mp_header_value := [], mp_parse_state := MP_PARSE_HEADER_NAME\<rparr>
      = ?s\<lparr>mp_save_current_field := field_is_text E f\<rparr>"
      by (cases s) (simp add: part_start_def mp_use_header_def iequals_refl field_is_text_def Some)
    ultimately show ?thesis
      using run_header [of ?j data HEADER_CONTENT_TYPE t rest ?s E b, unfolded use_type] t part_header_names types(2) Some
      by (simp add: part_start_def)
  qed
  finally show ?thesis using types(1) by (simp add: ac_simps)
qed

end

text \<open>The blank line and the value: a kept field is stored, another one is skipped.\<close>

lemma run_part_value:
  assumes d: "drop i data = CR # LF # v @ CR # LF # (''--'' @ b) @ rest"
    and v: "search_list (''--'' @ b) v = None" "plain_line b"
    and s: "mp_parse_state s = MP_PARSE_HEADER_NAME" "mp_header_name s = []" "mp_field_name s \<noteq> []"
  obtains t where "multipart_loop E b data i s = multipart_loop E b data (i + length v + 4) t"
    and "mp_parse_state t = MP_PARSE_START"
    and "mp_dict t = mp_dict s @ (if mp_save_current_field s then [(mp_field_name s, v)] else [])"
proof -
  let ?B = "''--'' @ b" and ?s1 = "mp_goto MP_PARSE_HEADER_LAST_LF s"
  note at0 = drop_Cons_at [OF d]
  note at1 = drop_Cons_at [OF at0(3)]
  have B: "plain_line ?B" "?B \<noteq> []" using v(2) by (auto simp: plain_line_def)
  have here: "search_end ?B data (Suc (Suc i)) = i + length v + 4"
    using search_end_after_value [OF at1(3) v(1) B] by simp
  have first: "multipart_loop E b data i s = multipart_loop E b data (Suc i) ?s1"
    by (rule multipart_go [OF at0(1)]) (use at0(2) s in \<open>simp add: multipart_step_def mp_on_header_name_def\<close>)
  show thesis
  proof (cases "mp_save_current_field s")
    case True
    let ?s2 = "mp_goto MP_PARSE_FIELD_DATA s"
    let ?t = "s\<lparr>mp_field_value := v, mp_dict := mp_dict s @ [(mp_field_name s, v)],
                mp_found_parameter := True, mp_parse_state := MP_PARSE_START\<rparr>"
    have "multipart_loop E b data (Suc i) ?s1 = multipart_loop E b data (Suc (Suc i)) ?s2"
      by (rule multipart_go [OF at1(1)])
         (use at1(2) True s(3) in \<open>simp add: multipart_step_def mp_header_last_lf_def\<close>)
    also have "\<dots> = multipart_loop E b data (i + length v + 4) ?t"
    proof (rule multipart_go)
      show "Suc (Suc i) < length data" using at1(3) by (cases v) (auto dest: drop_Cons_at(1))
      have "data ! (i + length v + 2) = CR" "data ! (i + length v + 3) = LF"
        using nth_append_at [OF at1(3)] nth_append_at [of "Suc (Suc i)" data "v @ [CR]" LF] at1(3)
        by (simp_all add: ac_simps eval_nat_numeral)
      moreover have "take (length v) (drop (Suc (Suc i)) data) = v" using at1(3) by simp
      ultimately show "multipart_step E ?B data (Suc (Suc i)) ?s2 = MP_go (i + length v + 4) ?t"
        using here by (simp add: multipart_step_def mp_field_data_def dict_insert_def Let_def eval_nat_numeral)
    qed
    finally show thesis using that [of ?t] first True by simp
  next
    case False
    have "search_end ?B data (Suc i) = i + length v + 4"
      using search_end_after_value [of "Suc i" data "LF # v" ?B rest] at0(3) v(1) B by simp
    then have "multipart_loop E b data (Suc i) ?s1
        = multipart_loop E b data (i + length v + 4) (mp_goto MP_PARSE_START s)"
      by (intro multipart_go [OF at1(1)])
         (use at1(2) False in \<open>simp add: multipart_step_def mp_header_last_lf_def\<close>)
    then show thesis using that [of "mp_goto MP_PARSE_START s"] first False by simp
  qed
qed

section \<open>Forms\<close>

lemma form_text_boundary: "\<exists>rest. form_text b fs = (''--'' @ b) @ rest"
  by (cases fs) auto

context sl_env
begin

lemma run_part:
  assumes wf: "wf_field b f" "plain_line b" and names: "\<not> iequals E HEADER_CONTENT_DISPOSITION HEADER_CONTENT_TYPE"
    and d: "drop i data = ''--'' @ b @ part_text f @ (''--'' @ b) @ rest" and s: "mp_parse_state s = MP_PARSE_START"
  obtains t where "multipart_loop E b data i s = multipart_loop E b data (i + length (''--'' @ b @ part_text f)) t"
    and "mp_parse_state t = MP_PARSE_START" and "mp_dict t = mp_dict s @ text_fields E [f]"
proof -
  let ?j = "i + length b + 4" and ?H = "part_headers_text f"
  let ?s = "(part_start s)\<lparr>mp_field_name := ff_name f, mp_save_current_field := field_is_text E f\<rparr>"
  let ?rest = "CR # LF # ff_value f @ CR # LF # (''--'' @ b) @ rest"
  have d0: "drop i data = ''--'' @ b @ CR # LF # ?H @ ?rest" using d by (simp add: part_text_def)
  have d1: "drop ?j data = ?H @ ?rest"
    using drop_append_at [of i data "''--'' @ b @ CRLF_text"] d0 by (simp add: ac_simps eval_nat_numeral)
  have "multipart_loop E b data i s = multipart_loop E b data (?j + length ?H) ?s"
    using run_boundary_line [OF d0 s] run_part_headers [OF wf(1) d1 names, of s] by simp
  moreover obtain t where
    "multipart_loop E b data (?j + length ?H) ?s = multipart_loop E b data (?j + length ?H + length (ff_value f) + 4) t"
    "mp_parse_state t = MP_PARSE_START"
    "mp_dict t = mp_dict ?s @ (if mp_save_current_field ?s then [(mp_field_name ?s, ff_value f)] else [])"
    using run_part_value [OF drop_append_at [OF d1], of ?s E] wf by (auto simp: wf_field_def part_start_def)
  moreover have "?j + length ?H + length (ff_value f) + 4 = i + length (''--'' @ b @ part_text f)"
    by (simp add: part_text_def)
  ultimately show thesis by (intro that [of t]) (simp_all add: part_start_def)
qed

lemma run_form:
  assumes "plain_line b" and "\<not> iequals E HEADER_CONTENT_DISPOSITION HEADER_CONTENT_TYPE"
  shows "list_all (wf_field b) fs \<Longrightarrow> drop i data = form_text b fs @ rest \<Longrightarrow> mp_parse_state s = MP_PARSE_START \<Longrightarrow>
         multipart_loop E b data i s = Inr (True, mp_dict s @ text_fields E fs)"
proof (induction fs arbitrary: i s)
  case Nil
  then show ?case using run_last_boundary [of i data b rest s E] by simp
next
  case (Cons f fs)
  obtain tail where tail: "form_text b fs @ rest = (''--'' @ b) @ tail"
    using form_text_boundary [of b fs] by auto
  have "drop i data = ''--'' @ b @ part_text f @ (''--'' @ b) @ tail" using Cons.prems(2) tail by simp
  with run_part [of b f i data tail s] Cons.prems assms obtain t where
    t: "multipart_loop E b data i s = multipart_loop E b data (i + length (''--'' @ b @ part_text f)) t"
    "mp_parse_state t = MP_PARSE_START" "mp_dict t = mp_dict s @ text_fields E [f]" by auto
  have "drop (i + length (''--'' @ b @ part_text f)) data = form_text b fs @ rest"
    by (rule drop_append_at) (use Cons.prems(2) in simp)
  from Cons.IH [OF _ this t(2)] show ?case using Cons.prems(1) t by simp
qed

end

text \<open>
  C11: A form sent as \<open>multipart/form-data\<close> is read back. For every list of parts whose names are
  non-empty and hold no quote or line end, whose content types, if any, are not empty, and whose
  values do not contain the boundary, the scan of the text of the form returns success with exactly
  the text fields of the form inserted in their order: a part without a content type or with one
  that starts with \<open>text/\<close> contributes its name and its value byte for byte, line ends in the value
  included, and a part with another content type contributes nothing. Text before the first
  boundary line and after the last one is ignored.
\<close>

theorem multipart_roundtrip:
  assumes "sl_env E" and "\<not> iequals E HEADER_CONTENT_DISPOSITION HEADER_CONTENT_TYPE"
    and "plain_line b" and "list_all (wf_field b) fs"
    and "preamble = [] \<or> (\<exists>p. preamble = p @ CRLF_text \<and> search_list (''--'' @ b) p = None)"
  shows "parse_multipart_form_data E d (''multipart/form-data; boundary='' @ b)
           (preamble @ form_text b fs @ epilogue)
       = Inr (True, d @ text_fields E fs)"
proof -
  let ?data = "preamble @ form_text b fs @ epilogue" and ?B = "''--'' @ b"
  obtain tail where tail: "form_text b fs @ epilogue = ?B @ tail" using form_text_boundary [of b fs] by auto
  have B: "plain_line ?B" "?B \<noteq> []" using assms(3) by (auto simp: plain_line_def)
  have start: "search_end ?B ?data 0 = length preamble"
    using assms(5)
  proof
    assume "preamble = []"
    then show ?thesis using search_end_here [of 0 ?data ?B tail] tail by simp
  next
    assume "\<exists>p. preamble = p @ CRLF_text \<and> search_list ?B p = None"
    then show ?thesis using search_end_after_value [of 0 ?data _ ?B tail] tail B by auto
  qed
  have pos: "search_list ''boundary='' (''multipart/form-data; boundary='' @ b) = Some 21" by simp
  have ne: "length ?data \<noteq> 0" using tail by auto
  show ?thesis
    unfolding parse_multipart_form_data_def Let_def pos if_not_P [OF ne]
    using sl_env.run_form [OF assms(1,3,2,4), of "length preamble" ?data epilogue] start by simp
qed

definition sample_form :: "form_field list" where
  "sample_form =
     [\<lparr>ff_name = ''q'', ff_filename = None, ff_type = None, ff_value = ''1'' @ CRLF_text @ ''-- 2''\<rparr>,
      \<lparr>ff_name = ''pic'', ff_filename = Some ''x.png'', ff_type = Some ''image/png'', ff_value = ''bits''\<rparr>,
      \<lparr>ff_name = ''note'', ff_filename = Some ''n.txt'', ff_type = Some ''text/plain'', ff_value = []\<rparr>]"

theorem multipart_roundtrip_witness:
  "parse_multipart_form_data utils_ref [] ''multipart/form-data; boundary=XY''
     (''hello'' @ CRLF_text @ form_text ''XY'' sample_form @ ''bye'')
   = Inr (True, [(''q'', ''1'' @ CRLF_text @ ''-- 2''), (''note'', [])])"
proof -
  have names: "\<not> iequals utils_ref HEADER_CONTENT_DISPOSITION HEADER_CONTENT_TYPE"
    by (simp add: iequals_ref_def upper_string_def HEADER_CONTENT_DISPOSITION_def HEADER_CONTENT_TYPE_def)
  have wf: "plain_line ''XY''" "list_all (wf_field ''XY'') sample_form"
    by (simp_all add: plain_line_def wf_field_def sample_form_def)
  have pre: "search_list (''--'' @ ''XY'') ''hello'' = None" by simp
  have kept: "text_fields utils_ref sample_form = [(''q'', ''1'' @ CRLF_text @ ''-- 2''), (''note'', [])]"
    by (simp add: sample_form_def field_is_text_def iequals_ref_def upper_string_def toupper_def char_value_def)
  show ?thesis
    using multipart_roundtrip [OF ref.sl_env_axioms names wf, of "''hello'' @ CRLF_text" "[]" "''bye''"] pre kept
    by (simp del: search_list.simps form_text.simps)
qed

section \<open>A part header without a value\<close>

text \<open>
  The name of a header is cleared only where a header value ends. After a header line with no value
  the name stays, the blank line that ends the headers is taken for the end of another header line,
  and the value of the field is read as headers: the field is lost.
\<close>

lemma empty_part_header_loses_field:
  "parse_multipart_form_data utils_ref [] ''boundary=X''
     (''--X'' @ CRLF_text @ ''Content-Disposition:name='' @ [DQUOTE] @ ''q'' @ [DQUOTE] @ CRLF_text
      @ ''A:'' @ CRLF_text @ CRLF_text @ ''1'' @ CRLF_text @ ''--X--'')
   = Inr (False, [])"
  by (simp add: parse_multipart_form_data_def multipart_loop.simps multipart_step_def multipart_case_defs
      search_end_def search_from_def mp_use_header_def disposition_name_def iequals_ref_def upper_string_def
      toupper_def char_value_def HEADER_CONTENT_DISPOSITION_def HEADER_CONTENT_TYPE_def)

end
