(* ===== verification/Tcp_Connection.thy ===== *)
theory Tcp_Connection
  imports Http_Message
begin

text \<open>
  \<open>tcp_connection.hpp\<close>: the state of a connection. Sockets, timers and the asynchronous
  operations belong to asio; here an asynchronous operation is an entry in the log \<open>tc_events\<close>
  of what the program asked for, and the completions are calls of the handlers modelled in the
  other theories.
\<close>

datatype lifecycle = Lifecycle_close | Lifecycle_keepalive | Lifecycle_pipelined

datatype conn_event =
    Async_write byte_string
  | Async_write_borrowed
  | Borrowed_read byte_string
  | Async_read_some
  | Async_accept
  | Async_handshake
  | Timer_wait
  | Cancel
  | Cancel_timer
  | Finished

text \<open>
  \<open>read_position\<close> is the pair of pointers into the read buffer, here the bytes between them
  (null pointers: none). The 8192 bytes of the read buffer are those the next read delivers.
\<close>

record tcp_connection =
  tc_open :: bool
  tc_ssl_flag :: bool
  tc_read_position :: byte_string
  tc_lifecycle :: lifecycle
  tc_remote_ip :: ip_address
  tc_events :: "conn_event list"

definition tc_log :: "conn_event \<Rightarrow> tcp_connection \<Rightarrow> tcp_connection" where
  "tc_log e c = c\<lparr>tc_events := tc_events c @ [e]\<rparr>"

definition save_read_pos :: "byte_string \<Rightarrow> tcp_connection \<Rightarrow> tcp_connection" where
  "save_read_pos bs c = c\<lparr>tc_read_position := bs\<rparr>"

definition load_read_pos :: "tcp_connection \<Rightarrow> byte_string" where
  "load_read_pos c = tc_read_position c"

definition new_tcp_connection :: "bool \<Rightarrow> ip_address \<Rightarrow> tcp_connection" where
  "new_tcp_connection ssl_flag_in ip =
     save_read_pos []
       \<lparr>tc_open = False, tc_ssl_flag = ssl_flag_in, tc_read_position = [],
        tc_lifecycle = Lifecycle_close, tc_remote_ip = ip, tc_events = []\<rparr>"

definition is_open :: "tcp_connection \<Rightarrow> bool" where
  "is_open c = tc_open c"

definition close_conn :: "tcp_connection \<Rightarrow> tcp_connection" where
  "close_conn c = (if is_open c then c\<lparr>tc_open := False\<rparr> else c)"

definition cancel_conn :: "tcp_connection \<Rightarrow> tcp_connection" where
  "cancel_conn c = tc_log Cancel c"

definition cancel_timer :: "tcp_connection \<Rightarrow> tcp_connection" where
  "cancel_timer c = tc_log Cancel_timer c"

definition async_accept :: "tcp_connection \<Rightarrow> tcp_connection" where
  "async_accept c = tc_log Async_accept c"

definition async_handshake_server :: "tcp_connection \<Rightarrow> tcp_connection" where
  "async_handshake_server c = (tc_log Async_handshake c)\<lparr>tc_ssl_flag := True\<rparr>"

definition async_read_some :: "tcp_connection \<Rightarrow> tcp_connection" where
  "async_read_some c = tc_log Async_read_some c"

text \<open>A sequence of buffers is written as its concatenation.\<close>

definition async_write :: "byte_string list \<Rightarrow> tcp_connection \<Rightarrow> tcp_connection" where
  "async_write buffers c = tc_log (Async_write (concat buffers)) c"

text \<open>
  asio reads the buffers of a write until it has completed. Where the completion handler holds their
  memory till then, the bytes at the call are the bytes written. A write of memory that is the caller's
  and may be gone when the call returns is an entry of its own, and another one says which bytes asio
  found there.
\<close>

definition async_write_borrowed :: "tcp_connection \<Rightarrow> tcp_connection" where
  "async_write_borrowed c = tc_log Async_write_borrowed c"

definition borrowed_read :: "byte_string \<Rightarrow> tcp_connection \<Rightarrow> tcp_connection" where
  "borrowed_read bs c = tc_log (Borrowed_read bs) c"

text \<open>\<open>finish\<close> calls the handler of the server, see \<open>Tcp_Server\<close>: an entry here.\<close>

definition finish_conn :: "tcp_connection \<Rightarrow> tcp_connection" where
  "finish_conn c = tc_log Finished c"

definition set_lifecycle :: "lifecycle \<Rightarrow> tcp_connection \<Rightarrow> tcp_connection" where
  "set_lifecycle l c = c\<lparr>tc_lifecycle := l\<rparr>"

definition get_keep_alive :: "tcp_connection \<Rightarrow> bool" where
  "get_keep_alive c \<longleftrightarrow> tc_lifecycle c \<noteq> Lifecycle_close"

definition is_pipelined :: "tcp_connection \<Rightarrow> bool" where
  "is_pipelined c \<longleftrightarrow> tc_lifecycle c = Lifecycle_pipelined"

definition get_remote_ip :: "tcp_connection \<Rightarrow> ip_address" where
  "get_remote_ip c = tc_remote_ip c"

text \<open>The destructor.\<close>

definition destroy_connection :: "tcp_connection \<Rightarrow> tcp_connection" where
  "destroy_connection c = close_conn c"

text \<open>What was written to the peer so far.\<close>

fun event_bytes :: "conn_event \<Rightarrow> byte_string" where
  "event_bytes (Async_write bs) = bs"
| "event_bytes (Borrowed_read bs) = bs"
| "event_bytes _ = []"

definition sent_bytes :: "tcp_connection \<Rightarrow> byte_string" where
  "sent_bytes c = concat (map event_bytes (tc_events c))"

lemmas conn_defs = tc_log_def async_write_def async_write_borrowed_def borrowed_read_def finish_conn_def set_lifecycle_def is_open_def
  get_keep_alive_def is_pipelined_def close_conn_def cancel_conn_def cancel_timer_def
  async_read_some_def async_accept_def async_handshake_server_def save_read_pos_def load_read_pos_def

lemma sent_bytes_write [simp]: "sent_bytes (async_write bufs c) = sent_bytes c @ concat bufs"
  by (simp add: sent_bytes_def conn_defs)

lemma sent_bytes_other [simp]:
  "sent_bytes (finish_conn c) = sent_bytes c" "sent_bytes (set_lifecycle l c) = sent_bytes c"
  by (simp_all add: sent_bytes_def conn_defs)

lemma is_open_simps [simp]:
  "is_open (async_write bufs c) = is_open c" "is_open (set_lifecycle l c) = is_open c"
  "is_open (finish_conn c) = is_open c"
  by (simp_all add: conn_defs)

lemma keep_alive_simps [simp]:
  "get_keep_alive (async_write bufs c) = get_keep_alive c"
  "get_keep_alive (set_lifecycle l c) = (l \<noteq> Lifecycle_close)"
  by (simp_all add: conn_defs)

end
