(* ===== verification/Cookie_Parser.thy ===== *)
theory Cookie_Parser
  imports Query_Parser Http_Response
begin

text \<open>
  \<open>http_parser::parse_cookie_header\<close> and \<open>is_cookie_attribute\<close>: cookies of a \<open>Cookie\<close> or
  \<open>Set-Cookie\<close> header, and the round trip with \<open>http_message::make_set_cookie_header\<close>.
\<close>

section \<open>Definitions\<close>

definition COOKIE_NAME_MAX :: nat where "COOKIE_NAME_MAX = 1024"
definition COOKIE_VALUE_MAX :: nat where "COOKIE_VALUE_MAX = 1024 * 1024"

definition is_cookie_attribute :: "sl_utils \<Rightarrow> byte_string \<Rightarrow> bool \<Rightarrow> bool" where
  "is_cookie_attribute E name set_cookie_header \<longleftrightarrow>
     name = [] \<or> hd name = CHR ''$''
     \<or> (set_cookie_header \<and>
        (iequals E name ''Comment''
         \<or> iequals E name ''Domain''
         \<or> iequals E name ''Max-Age''
         \<or> iequals E name ''Path''
         \<or> iequals E name ''Secure''
         \<or> iequals E name ''Version''
         \<or> iequals E name ''Expires''
         \<or> iequals E name ''HttpOnly''))"

datatype cookie_parse_state = COOKIE_PARSE_NAME | COOKIE_PARSE_VALUE | COOKIE_PARSE_IGNORE

definition insert_cookie :: "sl_utils \<Rightarrow> bool \<Rightarrow> byte_string \<Rightarrow> byte_string \<Rightarrow> dict \<Rightarrow> dict" where
  "insert_cookie E set_cookie_header name value d =
     (if \<not> is_cookie_attribute E name set_cookie_header then dict_insert d name value else d)"

fun parse_cookie_loop ::
  "sl_utils \<Rightarrow> bool \<Rightarrow> cookie_parse_state \<Rightarrow> byte_string \<Rightarrow> byte_string \<Rightarrow> char \<Rightarrow> dict
   \<Rightarrow> byte_string \<Rightarrow> bool \<times> dict"
where
  "parse_cookie_loop E sc st cookie_name cookie_value quote d [] =
     (True, insert_cookie E sc cookie_name cookie_value d)"
| "parse_cookie_loop E sc COOKIE_PARSE_NAME cookie_name cookie_value quote d (c # cs) =
     (if c = CHR ''='' then
        parse_cookie_loop E sc COOKIE_PARSE_VALUE cookie_name cookie_value (CHR 0x00) d cs
      else if c = CHR '';'' \<or> c = CHR '','' then
        (if cookie_name \<noteq> []
         then parse_cookie_loop E sc COOKIE_PARSE_NAME [] cookie_value quote
                (insert_cookie E sc cookie_name cookie_value d) cs
         else parse_cookie_loop E sc COOKIE_PARSE_NAME cookie_name cookie_value quote d cs)
      else if c \<noteq> SP then
        (if is_control (char_value c) \<or> length cookie_name \<ge> COOKIE_NAME_MAX then (False, d)
         else parse_cookie_loop E sc COOKIE_PARSE_NAME (cookie_name @ [c]) cookie_value quote d cs)
      else parse_cookie_loop E sc COOKIE_PARSE_NAME cookie_name cookie_value quote d cs)"
| "parse_cookie_loop E sc COOKIE_PARSE_VALUE cookie_name cookie_value quote d (c # cs) =
     (if quote = CHR 0x00 then
        (if c = CHR '';'' \<or> c = CHR '','' then
           parse_cookie_loop E sc COOKIE_PARSE_NAME [] [] quote
             (insert_cookie E sc cookie_name cookie_value d) cs
         else if c = SQUOTE \<or> c = DQUOTE then
           (if cookie_value = [] then
              parse_cookie_loop E sc COOKIE_PARSE_VALUE cookie_name cookie_value c d cs
            else if length cookie_value \<ge> COOKIE_VALUE_MAX then (False, d)
            else parse_cookie_loop E sc COOKIE_PARSE_VALUE cookie_name (cookie_value @ [c]) quote d cs)
         else if c \<noteq> SP \<or> cookie_value \<noteq> [] then
           (if is_control (char_value c) \<or> length cookie_value \<ge> COOKIE_VALUE_MAX then (False, d)
            else parse_cookie_loop E sc COOKIE_PARSE_VALUE cookie_name (cookie_value @ [c]) quote d cs)
         else parse_cookie_loop E sc COOKIE_PARSE_VALUE cookie_name cookie_value quote d cs)
      else
        (if c = quote then
           parse_cookie_loop E sc COOKIE_PARSE_IGNORE [] [] quote
             (insert_cookie E sc cookie_name cookie_value d) cs
         else if length cookie_value \<ge> COOKIE_VALUE_MAX then (False, d)
         else parse_cookie_loop E sc COOKIE_PARSE_VALUE cookie_name (cookie_value @ [c]) quote d cs))"
| "parse_cookie_loop E sc COOKIE_PARSE_IGNORE cookie_name cookie_value quote d (c # cs) =
     (if c = CHR '';'' \<or> c = CHR '',''
      then parse_cookie_loop E sc COOKIE_PARSE_NAME cookie_name cookie_value quote d cs
      else parse_cookie_loop E sc COOKIE_PARSE_IGNORE cookie_name cookie_value quote d cs)"

definition parse_cookie_header :: "sl_utils \<Rightarrow> dict \<Rightarrow> byte_string \<Rightarrow> bool \<Rightarrow> bool \<times> dict" where
  "parse_cookie_header E d s set_cookie_header =
     parse_cookie_loop E set_cookie_header COOKIE_PARSE_NAME [] [] (CHR 0x00) d s"

section \<open>Runs of ordinary characters\<close>

text \<open>A cookie name and an attribute value as this code writes them.\<close>

definition cookie_name_char :: "char \<Rightarrow> bool" where
  "cookie_name_char c \<longleftrightarrow>
     c \<noteq> CHR ''='' \<and> c \<noteq> CHR '';'' \<and> c \<noteq> CHR '','' \<and> c \<noteq> SP \<and> \<not> is_control (char_value c)"

definition cookie_plain_value_char :: "char \<Rightarrow> bool" where
  "cookie_plain_value_char c \<longleftrightarrow>
     c \<noteq> CHR '';'' \<and> c \<noteq> CHR '','' \<and> c \<noteq> SP \<and> c \<noteq> SQUOTE \<and> c \<noteq> DQUOTE
     \<and> \<not> is_control (char_value c)"

lemma cookie_name_run:
  assumes "list_all cookie_name_char xs" and "length n + length xs \<le> COOKIE_NAME_MAX"
  shows "parse_cookie_loop E sc COOKIE_PARSE_NAME n v q d (xs @ rest)
       = parse_cookie_loop E sc COOKIE_PARSE_NAME (n @ xs) v q d rest"
  using assms by (induction xs arbitrary: n) (auto simp: cookie_name_char_def)

lemma cookie_plain_run:
  assumes "list_all cookie_plain_value_char xs" and "length v + length xs \<le> COOKIE_VALUE_MAX"
  shows "parse_cookie_loop E sc COOKIE_PARSE_VALUE n v (CHR 0x00) d (xs @ rest)
       = parse_cookie_loop E sc COOKIE_PARSE_VALUE n (v @ xs) (CHR 0x00) d rest"
  using assms by (induction xs arbitrary: v) (auto simp: cookie_plain_value_char_def)

lemma cookie_quoted_run:
  assumes "q \<noteq> CHR 0x00" and "q \<notin> set xs" and "length v + length xs \<le> COOKIE_VALUE_MAX"
  shows "parse_cookie_loop E sc COOKIE_PARSE_VALUE n v q d (xs @ rest)
       = parse_cookie_loop E sc COOKIE_PARSE_VALUE n (v @ xs) q d rest"
  using assms by (induction xs arbitrary: v) auto

lemma cookie_ignore_run:
  assumes "CHR '';'' \<notin> set xs" and "CHR '','' \<notin> set xs"
  shows "parse_cookie_loop E sc COOKIE_PARSE_IGNORE n v q d (xs @ rest)
       = parse_cookie_loop E sc COOKIE_PARSE_IGNORE n v q d rest"
  using assms by (induction xs) auto

text \<open>One attribute \<open>; name=value\<close> of a \<open>Set-Cookie\<close> header, after the quoted cookie value.\<close>

lemma cookie_attribute_step:
  assumes "list_all cookie_name_char n" and "length n \<le> COOKIE_NAME_MAX"
    and "list_all cookie_plain_value_char v" and "length v \<le> COOKIE_VALUE_MAX"
    and "is_cookie_attribute E n sc"
  shows "parse_cookie_loop E sc COOKIE_PARSE_NAME [] [] q d (SP # n @ CHR ''='' # v) = (True, d)"
    and "parse_cookie_loop E sc COOKIE_PARSE_NAME [] [] q d (SP # n @ CHR ''='' # v @ CHR '';'' # rest)
       = parse_cookie_loop E sc COOKIE_PARSE_NAME [] [] (CHR 0x00) d rest"
proof -
  have name: "parse_cookie_loop E sc COOKIE_PARSE_NAME [] [] q d (SP # n @ CHR ''='' # tail)
      = parse_cookie_loop E sc COOKIE_PARSE_VALUE n [] (CHR 0x00) d tail" for tail
    using assms(1,2) by (simp add: cookie_name_run)
  have val: "parse_cookie_loop E sc COOKIE_PARSE_VALUE n [] (CHR 0x00) d (v @ tail)
      = parse_cookie_loop E sc COOKIE_PARSE_VALUE n v (CHR 0x00) d tail" for tail
    using assms(3,4) by (simp add: cookie_plain_run)
  show "parse_cookie_loop E sc COOKIE_PARSE_NAME [] [] q d (SP # n @ CHR ''='' # v) = (True, d)"
    using name [of v] val [of "[]"] assms(5) by (simp add: insert_cookie_def)
  show "parse_cookie_loop E sc COOKIE_PARSE_NAME [] [] q d (SP # n @ CHR ''='' # v @ CHR '';'' # rest)
       = parse_cookie_loop E sc COOKIE_PARSE_NAME [] [] (CHR 0x00) d rest"
    using name [of "v @ CHR '';'' # rest"] val [of "CHR '';'' # rest"] assms(5)
    by (simp add: insert_cookie_def)
qed

text \<open>The cookie itself: a name and a value in double quotes.\<close>

lemma cookie_pair_step:
  assumes "list_all cookie_name_char n" and "length n \<le> COOKIE_NAME_MAX"
    and "DQUOTE \<notin> set v" and "length v \<le> COOKIE_VALUE_MAX"
  shows "parse_cookie_loop E sc COOKIE_PARSE_NAME [] [] q d
           (n @ CHR ''='' # DQUOTE # v @ DQUOTE # CHR '';'' # rest)
       = parse_cookie_loop E sc COOKIE_PARSE_NAME [] [] DQUOTE (insert_cookie E sc n v d) rest"
  using assms by (simp add: cookie_name_run cookie_quoted_run)

lemma digit_plain_value_char: "is_digit (char_value c) \<Longrightarrow> cookie_plain_value_char c"
  by (auto simp: cookie_plain_value_char_def is_digit_def is_control_def char_value_def)

text \<open>The attributes \<open>make_set_cookie_header\<close> writes are recognised as attributes.\<close>

lemma written_attributes:
  assumes "sl_env E"
  shows "is_cookie_attribute E ''Version'' True" "is_cookie_attribute E ''Path'' True"
    "is_cookie_attribute E ''Max-Age'' True"
  using sl_env.iequals_refl [OF assms] by (simp_all add: is_cookie_attribute_def)

lemma written_attribute_chars:
  "list_all cookie_name_char ''Version''" "list_all cookie_name_char ''Path''"
  "list_all cookie_name_char ''Max-Age''" "list_all cookie_plain_value_char ''1''"
  by (simp_all add: cookie_name_char_def cookie_plain_value_char_def is_control_def char_value_def)

text \<open>A list of attributes, each preceded by a space and separated by semicolons.\<close>

fun attributes_text :: "(byte_string \<times> byte_string) list \<Rightarrow> byte_string" where
  "attributes_text [] = []"
| "attributes_text (nv # rest) =
     SP # fst nv @ CHR ''='' # snd nv @ (if rest = [] then [] else CHR '';'' # attributes_text rest)"

definition attribute_ok :: "sl_utils \<Rightarrow> byte_string \<times> byte_string \<Rightarrow> bool" where
  "attribute_ok E nv \<longleftrightarrow>
     list_all cookie_name_char (fst nv) \<and> length (fst nv) \<le> COOKIE_NAME_MAX
     \<and> list_all cookie_plain_value_char (snd nv) \<and> length (snd nv) \<le> COOKIE_VALUE_MAX
     \<and> is_cookie_attribute E (fst nv) True"

lemma attributes_parse:
  "ps \<noteq> [] \<Longrightarrow> list_all (attribute_ok E) ps \<Longrightarrow>
   parse_cookie_loop E True COOKIE_PARSE_NAME [] [] q d (attributes_text ps) = (True, d)"
proof (induction ps arbitrary: q)
  case (Cons nv rest)
  then have ok: "list_all cookie_name_char (fst nv)" "length (fst nv) \<le> COOKIE_NAME_MAX"
    "list_all cookie_plain_value_char (snd nv)" "length (snd nv) \<le> COOKIE_VALUE_MAX"
    "is_cookie_attribute E (fst nv) True"
    by (simp_all add: attribute_ok_def)
  show ?case
  proof (cases "rest = []")
    case True
    then show ?thesis using cookie_attribute_step(1) [OF ok] by simp
  next
    case False
    then have "attributes_text (nv # rest)
        = SP # fst nv @ CHR ''='' # snd nv @ CHR '';'' # attributes_text rest" by simp
    with False Cons show ?thesis using cookie_attribute_step(2) [OF ok] by simp
  qed
qed simp

section \<open>Properties\<close>

text \<open>
  C29: the \<open>Set-Cookie\<close> header that \<open>make_set_cookie_header\<close> builds for a well-formed cookie,
  with or without a path and a maximal age, is parsed back to exactly that cookie: the
  attributes \<open>Version\<close>, \<open>Path\<close> and \<open>Max-Age\<close> are not mistaken for cookies.
\<close>

theorem set_cookie_roundtrip:
  assumes env: "sl_env E"
    and name: "list_all cookie_name_char name" "length name \<le> COOKIE_NAME_MAX"
      "\<not> is_cookie_attribute E name True"
    and val: "DQUOTE \<notin> set value" "length value \<le> COOKIE_VALUE_MAX"
    and path: "list_all cookie_plain_value_char path" "length path \<le> COOKIE_VALUE_MAX"
    and age: "list_all (\<lambda>c. is_digit (char_value c)) (to_string E max_age)"
      "length (to_string E max_age) \<le> COOKIE_VALUE_MAX"
  shows "parse_cookie_header E d (make_set_cookie_header E name value path has_max_age max_age) True
       = (True, d @ [(name, value)])"
proof -
  define ps where "ps = (''Version'', ''1'') # (if path \<noteq> [] then [(''Path'', path)] else [])
    @ (if has_max_age then [(''Max-Age'', to_string E max_age)] else [])"
  have agec: "list_all cookie_plain_value_char (to_string E max_age)"
    using age(1) by (auto simp: list_all_iff digit_plain_value_char)
  have "list_all (attribute_ok E) ps"
    using written_attribute_chars written_attributes [OF env] path agec age(2)
    by (simp add: ps_def attribute_ok_def COOKIE_NAME_MAX_def COOKIE_VALUE_MAX_def)
  then have "parse_cookie_loop E True COOKIE_PARSE_NAME [] [] DQUOTE d' (attributes_text ps) = (True, d')" for d'
    by (rule attributes_parse [rotated]) (simp add: ps_def)
  moreover have "make_set_cookie_header E name value path has_max_age max_age
      = name @ CHR ''='' # DQUOTE # value @ DQUOTE # CHR '';'' # attributes_text ps"
    by (simp add: make_set_cookie_header_def ps_def)
  ultimately show ?thesis
    using cookie_pair_step [OF name(1,2) val] name(3)
    by (simp add: parse_cookie_header_def insert_cookie_def dict_insert_def)
qed

theorem set_cookie_roundtrip_witness:
  "parse_cookie_header utils_ref []
     (make_set_cookie_header utils_ref ''sid'' ''a b;c'' ''/app'' True 60) True
   = (True, [(''sid'', ''a b;c'')])"
proof -
  have age: "to_string utils_ref 60 = ''60''"
    by (simp add: dec_string.simps)
  show ?thesis
    by (rule set_cookie_roundtrip [OF ref.sl_env_axioms, of "''sid''" "''a b;c''" "''/app''" 60 "[]" True,
          simplified])
      (simp_all add: age [simplified] cookie_name_char_def cookie_plain_value_char_def is_control_def char_value_def
        is_digit_def is_cookie_attribute_def iequals_ref_def upper_string_def
        COOKIE_NAME_MAX_def COOKIE_VALUE_MAX_def)
qed

end
