(* ===== verification/Parser_State.thy ===== *)
theory Parser_State
  imports Cookie_Parser
begin

text \<open>
  The data of class \<open>http_parser\<close>: error values, parse states, limits, members, constructor
  and the operations that set the read buffer, the options and the initial state.
\<close>

section \<open>Error values\<close>

datatype error_value_t =
    ERROR_METHOD_CHAR | ERROR_METHOD_SIZE | ERROR_URI_CHAR | ERROR_URI_SIZE
  | ERROR_QUERY_CHAR | ERROR_QUERY_SIZE | ERROR_VERSION_EMPTY | ERROR_VERSION_CHAR
  | ERROR_STATUS_EMPTY | ERROR_STATUS_CHAR | ERROR_HEADER_CHAR | ERROR_HEADER_NAME_SIZE
  | ERROR_HEADER_VALUE_SIZE | ERROR_INVALID_CONTENT_LENGTH | ERROR_CHUNK_CHAR
  | ERROR_MISSING_CHUNK_DATA | ERROR_MISSING_HEADER_DATA | ERROR_MISSING_TOO_MUCH_CONTENT

definition error_values :: "error_value_t list" where
  "error_values =
     [ERROR_METHOD_CHAR, ERROR_METHOD_SIZE, ERROR_URI_CHAR, ERROR_URI_SIZE,
      ERROR_QUERY_CHAR, ERROR_QUERY_SIZE, ERROR_VERSION_EMPTY, ERROR_VERSION_CHAR,
      ERROR_STATUS_EMPTY, ERROR_STATUS_CHAR, ERROR_HEADER_CHAR, ERROR_HEADER_NAME_SIZE,
      ERROR_HEADER_VALUE_SIZE, ERROR_INVALID_CONTENT_LENGTH, ERROR_CHUNK_CHAR,
      ERROR_MISSING_CHUNK_DATA, ERROR_MISSING_HEADER_DATA, ERROR_MISSING_TOO_MUCH_CONTENT]"

text \<open>The integer of an enumerator: the first is 1, the others follow.\<close>

definition error_int :: "error_value_t \<Rightarrow> int" where
  "error_int ev = 1 + int (length (takeWhile (\<lambda>e. e \<noteq> ev) error_values))"

fun error_text :: "error_value_t \<Rightarrow> byte_string" where
  "error_text ERROR_METHOD_CHAR = ''invalid method character''"
| "error_text ERROR_METHOD_SIZE = ''method exceeds maximum size''"
| "error_text ERROR_URI_CHAR = ''invalid URI character''"
| "error_text ERROR_URI_SIZE = ''method exceeds maximum size''"
| "error_text ERROR_QUERY_CHAR = ''invalid query string character''"
| "error_text ERROR_QUERY_SIZE = ''query string exceeds maximum size''"
| "error_text ERROR_VERSION_EMPTY = ''HTTP version undefined''"
| "error_text ERROR_VERSION_CHAR = ''invalid version character''"
| "error_text ERROR_STATUS_EMPTY = ''HTTP status undefined''"
| "error_text ERROR_STATUS_CHAR = ''invalid status character''"
| "error_text ERROR_HEADER_CHAR = ''invalid header character''"
| "error_text ERROR_HEADER_NAME_SIZE = ''header name exceeds maximum size''"
| "error_text ERROR_HEADER_VALUE_SIZE = ''header value exceeds maximum size''"
| "error_text ERROR_INVALID_CONTENT_LENGTH = ''invalid Content-Length header''"
| "error_text ERROR_CHUNK_CHAR = ''invalid chunk character''"
| "error_text ERROR_MISSING_HEADER_DATA = ''missing header data''"
| "error_text ERROR_MISSING_CHUNK_DATA = ''missing chunk data''"
| "error_text ERROR_MISSING_TOO_MUCH_CONTENT = ''missing too much content''"

definition error_message :: "int \<Rightarrow> byte_string" where
  "error_message ev =
     (case find (\<lambda>e. error_int e = ev) error_values of
        Some e \<Rightarrow> error_text e | None \<Rightarrow> ''parser error'')"

section \<open>Limits and parse states\<close>

definition STATUS_MESSAGE_MAX :: nat where "STATUS_MESSAGE_MAX = 1024"
definition METHOD_MAX :: nat where "METHOD_MAX = 1024"
definition RESOURCE_MAX :: nat where "RESOURCE_MAX = 256 * 1024"
definition QUERY_STRING_MAX :: nat where "QUERY_STRING_MAX = 1024 * 1024"
definition HEADER_NAME_MAX :: nat where "HEADER_NAME_MAX = 1024"
definition HEADER_VALUE_MAX :: nat where "HEADER_VALUE_MAX = 1024 * 1024"
definition DEFAULT_CONTENT_MAX :: nat where "DEFAULT_CONTENT_MAX = 1024 * 1024"

datatype message_parse_state_type =
    PARSE_START | PARSE_HEADERS | PARSE_FOOTERS | PARSE_CONTENT | PARSE_CONTENT_NO_LENGTH
  | PARSE_CHUNKS | PARSE_END

datatype header_parse_state_type =
    PARSE_METHOD_START | PARSE_METHOD | PARSE_URI_STEM | PARSE_URI_QUERY
  | PARSE_HTTP_VERSION_H | PARSE_HTTP_VERSION_T_1 | PARSE_HTTP_VERSION_T_2
  | PARSE_HTTP_VERSION_P | PARSE_HTTP_VERSION_SLASH | PARSE_HTTP_VERSION_MAJOR_START
  | PARSE_HTTP_VERSION_MAJOR | PARSE_HTTP_VERSION_MINOR_START | PARSE_HTTP_VERSION_MINOR
  | PARSE_STATUS_CODE_START | PARSE_STATUS_CODE | PARSE_STATUS_MESSAGE
  | PARSE_EXPECTING_NEWLINE | PARSE_EXPECTING_CR | PARSE_HEADER_WHITESPACE
  | PARSE_HEADER_START | PARSE_HEADER_NAME | PARSE_SPACE_BEFORE_HEADER_VALUE
  | PARSE_HEADER_VALUE | PARSE_EXPECTING_FINAL_NEWLINE | PARSE_EXPECTING_FINAL_CR

datatype chunk_parse_state_type =
    PARSE_CHUNK_SIZE_START | PARSE_CHUNK_SIZE | PARSE_EXPECTING_IGNORED_TEXT_AFTER_CHUNK_SIZE
  | PARSE_EXPECTING_CR_AFTER_CHUNK_SIZE | PARSE_EXPECTING_LF_AFTER_CHUNK_SIZE | PARSE_CHUNK
  | PARSE_EXPECTING_CR_AFTER_CHUNK | PARSE_EXPECTING_LF_AFTER_CHUNK
  | PARSE_EXPECTING_FINAL_CR_OR_FOOTERS_AFTER_LAST_CHUNK
  | PARSE_EXPECTING_FINAL_LF_AFTER_LAST_CHUNK

section \<open>The parser object\<close>

text \<open>
  The pair \<open>m_read_ptr\<close>, \<open>m_read_end_ptr\<close> is the list \<open>hp_read\<close> of the bytes between them
  (null pointers are the empty list). \<open>hp_payload_log\<close> is a ghost field: the blocks given to
  the payload handler so far, oldest first. Byte counters are natural numbers: they count
  bytes that pass through an 8192 byte buffer.
\<close>

record http_parser =
  hp_read :: byte_string
  hp_message_state :: message_parse_state_type
  hp_headers_state :: header_parse_state_type
  hp_chunk_state :: chunk_parse_state_type
  hp_payload_handler :: "payload_handler_type option"
  hp_payload_log :: "byte_string list"
  hp_status_code :: "16 word"
  hp_status_message :: byte_string
  hp_method :: byte_string
  hp_resource :: byte_string
  hp_query_string :: byte_string
  hp_raw_headers :: byte_string
  hp_header_name :: byte_string
  hp_header_value :: byte_string
  hp_chunk_size_str :: byte_string
  hp_size_of_current_chunk :: nat
  hp_bytes_read_in_current_chunk :: nat
  hp_bytes_content_remaining :: nat
  hp_bytes_content_read :: nat
  hp_bytes_last_read :: nat
  hp_bytes_total_read :: nat
  hp_max_content_length :: nat
  hp_parse_headers_only :: bool
  hp_save_raw_headers :: bool

text \<open>
  The constructor leaves \<open>m_size_of_current_chunk\<close> and \<open>m_bytes_read_in_current_chunk\<close>
  uninitialised: the values found there are arguments.
\<close>

definition new_http_parser :: "nat \<Rightarrow> nat \<Rightarrow> nat \<Rightarrow> http_parser" where
  "new_http_parser garbage1 garbage2 max_content_length =
     \<lparr>hp_read = [], hp_message_state = PARSE_START, hp_headers_state = PARSE_METHOD_START,
      hp_chunk_state = PARSE_CHUNK_SIZE_START, hp_payload_handler = None, hp_payload_log = [],
      hp_status_code = 0, hp_status_message = [], hp_method = [], hp_resource = [],
      hp_query_string = [], hp_raw_headers = [], hp_header_name = [], hp_header_value = [],
      hp_chunk_size_str = [], hp_size_of_current_chunk = garbage1,
      hp_bytes_read_in_current_chunk = garbage2, hp_bytes_content_remaining = 0,
      hp_bytes_content_read = 0, hp_bytes_last_read = 0, hp_bytes_total_read = 0,
      hp_max_content_length = max_content_length, hp_parse_headers_only = False,
      hp_save_raw_headers = False\<rparr>"

definition parser_reset :: "http_parser \<Rightarrow> http_parser" where
  "parser_reset p = p
     \<lparr>hp_message_state := PARSE_START, hp_headers_state := PARSE_METHOD_START,
      hp_chunk_state := PARSE_CHUNK_SIZE_START, hp_status_code := 0, hp_status_message := [],
      hp_method := [], hp_resource := [], hp_query_string := [], hp_raw_headers := [],
      hp_bytes_content_read := 0, hp_bytes_last_read := 0, hp_bytes_total_read := 0\<rparr>"

definition set_read_buffer :: "byte_string \<Rightarrow> http_parser \<Rightarrow> http_parser" where
  "set_read_buffer bs p = p\<lparr>hp_read := bs\<rparr>"

definition eof :: "http_parser \<Rightarrow> bool" where
  "eof p \<longleftrightarrow> hp_read p = []"

definition bytes_available :: "http_parser \<Rightarrow> nat" where
  "bytes_available p = (if eof p then 0 else length (hp_read p))"

definition gcount :: "http_parser \<Rightarrow> nat" where
  "gcount p = hp_bytes_last_read p"

definition parse_headers_only :: "bool \<Rightarrow> http_parser \<Rightarrow> http_parser" where
  "parse_headers_only b p = p\<lparr>hp_parse_headers_only := b\<rparr>"

definition set_payload_handler :: "payload_handler_type \<Rightarrow> http_parser \<Rightarrow> http_parser" where
  "set_payload_handler h p = p\<lparr>hp_payload_handler := Some h\<rparr>"

definition set_max_content_length :: "nat \<Rightarrow> http_parser \<Rightarrow> http_parser" where
  "set_max_content_length n p = p\<lparr>hp_max_content_length := n\<rparr>"

definition reset_max_content_length :: "http_parser \<Rightarrow> http_parser" where
  "reset_max_content_length p = p\<lparr>hp_max_content_length := DEFAULT_CONTENT_MAX\<rparr>"

definition set_save_raw_headers :: "bool \<Rightarrow> http_parser \<Rightarrow> http_parser" where
  "set_save_raw_headers b p = p\<lparr>hp_save_raw_headers := b\<rparr>"

text \<open>
  The result of a parsing routine: the returned flag, the error code (\<open>None\<close> is the empty
  \<open>std::error_code\<close>), the parser and the message.
\<close>

type_synonym error_code = "error_value_t option"

section \<open>Lemmas\<close>

lemma error_message_of_value: "error_message (error_int ev) = error_text ev"
  by (cases ev) (simp_all add: error_message_def error_int_def error_values_def)

text \<open>
  The message table covers every error value, and two different error values have the
  same text only for the pair \<open>ERROR_METHOD_SIZE\<close>, \<open>ERROR_URI_SIZE\<close>.
\<close>

lemma error_messages_distinct:
  "error_message (error_int e) = error_message (error_int f) \<longleftrightarrow>
     e = f \<or> (e = ERROR_METHOD_SIZE \<and> f = ERROR_URI_SIZE) \<or> (e = ERROR_URI_SIZE \<and> f = ERROR_METHOD_SIZE)"
  unfolding error_message_of_value by (cases e; cases f) simp_all

end
