(* ===== verification/Header_Parser.thy ===== *)
theory Header_Parser
  imports Parser_State
begin

text \<open>
  \<open>http_parser::parse_headers\<close> (request line and headers, byte by byte) and
  \<open>update_message_with_header_data\<close>. One definition per \<open>case\<close> of the \<open>switch\<close>; the loop
  over the read buffer; the loop seen as a run of the step function, independent of how the
  bytes are split into buffers.
\<close>

section \<open>One byte\<close>

text \<open>
  A \<open>case\<close> ends by \<open>break\<close> (then \<open>m_read_ptr\<close> advances: \<open>H_next\<close>), by \<open>return true\<close>
  (\<open>H_done\<close>, with the flag saying whether \<open>m_read_ptr\<close> was advanced before), or by
  \<open>set_error\<close> and \<open>return false\<close> (\<open>H_error\<close>).
\<close>

datatype header_result =
    H_next http_parser http_request
  | H_done bool http_parser http_request
  | H_error error_value_t http_parser http_request

definition not_token :: "char \<Rightarrow> bool" where
  "not_token c \<longleftrightarrow> \<not> is_char (char_value c) \<or> is_control (char_value c) \<or> is_special (char_value c)"

abbreviation goto :: "header_parse_state_type \<Rightarrow> http_parser \<Rightarrow> http_parser" where
  "goto st p \<equiv> p\<lparr>hp_headers_state := st\<rparr>"

text \<open>The pair of calls for a request without a version, and the start of a header name.\<close>

definition set_version_0_0 :: "http_request \<Rightarrow> http_request" where
  "set_version_0_0 m = set_version_minor 0 (set_version_major 0 m)"

definition begin_header_name :: "char \<Rightarrow> http_parser \<Rightarrow> http_parser" where
  "begin_header_name c p = p\<lparr>hp_header_name := [c], hp_headers_state := PARSE_HEADER_NAME\<rparr>"

definition on_method_start :: "char \<Rightarrow> http_parser \<Rightarrow> http_request \<Rightarrow> header_result" where
  "on_method_start c p m =
     (if c \<noteq> SP \<and> c \<noteq> CR \<and> c \<noteq> LF then
        (if not_token c then H_error ERROR_METHOD_CHAR p m
         else H_next (p\<lparr>hp_headers_state := PARSE_METHOD, hp_method := [c]\<rparr>) m)
      else H_next p m)"

definition on_method :: "char \<Rightarrow> http_parser \<Rightarrow> http_request \<Rightarrow> header_result" where
  "on_method c p m =
     (if c = SP then H_next (p\<lparr>hp_resource := [], hp_headers_state := PARSE_URI_STEM\<rparr>) m
      else if not_token c then H_error ERROR_METHOD_CHAR p m
      else if length (hp_method p) \<ge> METHOD_MAX then H_error ERROR_METHOD_SIZE p m
      else H_next (p\<lparr>hp_method := hp_method p @ [c]\<rparr>) m)"

definition on_uri_stem :: "char \<Rightarrow> http_parser \<Rightarrow> http_request \<Rightarrow> header_result" where
  "on_uri_stem c p m =
     (if c = SP then H_next (goto PARSE_HTTP_VERSION_H p) m
      else if c = CHR ''?'' then H_next (p\<lparr>hp_query_string := [], hp_headers_state := PARSE_URI_QUERY\<rparr>) m
      else if c = CR then H_next (goto PARSE_EXPECTING_NEWLINE p) (set_version_0_0 m)
      else if c = LF then H_next (goto PARSE_EXPECTING_CR p) (set_version_0_0 m)
      else if is_control (char_value c) then H_error ERROR_URI_CHAR p m
      else if length (hp_resource p) \<ge> RESOURCE_MAX then H_error ERROR_URI_SIZE p m
      else H_next (p\<lparr>hp_resource := hp_resource p @ [c]\<rparr>) m)"

definition on_uri_query :: "char \<Rightarrow> http_parser \<Rightarrow> http_request \<Rightarrow> header_result" where
  "on_uri_query c p m =
     (if c = SP then H_next (goto PARSE_HTTP_VERSION_H p) m
      else if c = CR then H_next (goto PARSE_EXPECTING_NEWLINE p) (set_version_0_0 m)
      else if c = LF then H_next (goto PARSE_EXPECTING_CR p) (set_version_0_0 m)
      else if is_control (char_value c) then H_error ERROR_QUERY_CHAR p m
      else if length (hp_query_string p) \<ge> QUERY_STRING_MAX then H_error ERROR_QUERY_SIZE p m
      else H_next (p\<lparr>hp_query_string := hp_query_string p @ [c]\<rparr>) m)"

text \<open>The assignment after the \<open>if\<close> chain overrides the states set for CR and LF.\<close>

definition on_version_h :: "char \<Rightarrow> http_parser \<Rightarrow> http_request \<Rightarrow> header_result" where
  "on_version_h c p m =
     (if c = CR then
        H_next (goto PARSE_HTTP_VERSION_T_1 (goto PARSE_EXPECTING_NEWLINE p)) (set_version_0_0 m)
      else if c = LF then
        H_next (goto PARSE_HTTP_VERSION_T_1 (goto PARSE_EXPECTING_CR p)) (set_version_0_0 m)
      else if c \<noteq> CHR ''H'' then H_error ERROR_VERSION_CHAR p m
      else H_next (goto PARSE_HTTP_VERSION_T_1 p) m)"

definition on_version_t_1 :: "char \<Rightarrow> http_parser \<Rightarrow> http_request \<Rightarrow> header_result" where
  "on_version_t_1 c p m =
     (if c \<noteq> CHR ''T'' then H_error ERROR_VERSION_CHAR p m
      else H_next (goto PARSE_HTTP_VERSION_T_2 p) m)"

definition on_version_t_2 :: "char \<Rightarrow> http_parser \<Rightarrow> http_request \<Rightarrow> header_result" where
  "on_version_t_2 c p m =
     (if c \<noteq> CHR ''T'' then H_error ERROR_VERSION_CHAR p m
      else H_next (goto PARSE_HTTP_VERSION_P p) m)"

definition on_version_p :: "char \<Rightarrow> http_parser \<Rightarrow> http_request \<Rightarrow> header_result" where
  "on_version_p c p m =
     (if c \<noteq> CHR ''P'' then H_error ERROR_VERSION_CHAR p m
      else H_next (goto PARSE_HTTP_VERSION_SLASH p) m)"

definition on_version_slash :: "char \<Rightarrow> http_parser \<Rightarrow> http_request \<Rightarrow> header_result" where
  "on_version_slash c p m =
     (if c \<noteq> CHR ''/'' then H_error ERROR_VERSION_CHAR p m
      else H_next (goto PARSE_HTTP_VERSION_MAJOR_START p) m)"

text \<open>Version and status numbers are \<open>uint16_t\<close>: the arithmetic wraps.\<close>

definition digit_word :: "char \<Rightarrow> 16 word" where
  "digit_word c = word_of_int (char_value c - 48)"

definition on_version_major_start :: "char \<Rightarrow> http_parser \<Rightarrow> http_request \<Rightarrow> header_result" where
  "on_version_major_start c p m =
     (if \<not> is_digit (char_value c) then H_error ERROR_VERSION_CHAR p m
      else H_next (goto PARSE_HTTP_VERSION_MAJOR p) (set_version_major (digit_word c) m))"

definition on_version_major :: "char \<Rightarrow> http_parser \<Rightarrow> http_request \<Rightarrow> header_result" where
  "on_version_major c p m =
     (if c = CHR ''.'' then H_next (goto PARSE_HTTP_VERSION_MINOR_START p) m
      else if is_digit (char_value c)
      then H_next p (set_version_major (m_version_major m * 10 + digit_word c) m)
      else H_error ERROR_VERSION_CHAR p m)"

definition on_version_minor_start :: "char \<Rightarrow> http_parser \<Rightarrow> http_request \<Rightarrow> header_result" where
  "on_version_minor_start c p m =
     (if \<not> is_digit (char_value c) then H_error ERROR_VERSION_CHAR p m
      else H_next (goto PARSE_HTTP_VERSION_MINOR p) (set_version_minor (digit_word c) m))"

definition on_version_minor :: "char \<Rightarrow> http_parser \<Rightarrow> http_request \<Rightarrow> header_result" where
  "on_version_minor c p m =
     (if c = SP then H_next p m
      else if c = CR then H_next (goto PARSE_EXPECTING_NEWLINE p) m
      else if c = LF then H_next (goto PARSE_EXPECTING_CR p) m
      else if is_digit (char_value c)
      then H_next p (set_version_minor (m_version_minor m * 10 + digit_word c) m)
      else H_error ERROR_VERSION_CHAR p m)"

definition on_status_code_start :: "char \<Rightarrow> http_parser \<Rightarrow> http_request \<Rightarrow> header_result" where
  "on_status_code_start c p m =
     (if \<not> is_digit (char_value c) then H_error ERROR_STATUS_CHAR p m
      else H_next (p\<lparr>hp_status_code := digit_word c, hp_headers_state := PARSE_STATUS_CODE\<rparr>) m)"

definition on_status_code :: "char \<Rightarrow> http_parser \<Rightarrow> http_request \<Rightarrow> header_result" where
  "on_status_code c p m =
     (if c = SP then H_next (p\<lparr>hp_status_message := [], hp_headers_state := PARSE_STATUS_MESSAGE\<rparr>) m
      else if is_digit (char_value c)
      then H_next (p\<lparr>hp_status_code := hp_status_code p * 10 + digit_word c\<rparr>) m
      else if c = CR
      then H_next (p\<lparr>hp_status_message := [], hp_headers_state := PARSE_EXPECTING_NEWLINE\<rparr>) m
      else if c = LF
      then H_next (p\<lparr>hp_status_message := [], hp_headers_state := PARSE_EXPECTING_CR\<rparr>) m
      else H_error ERROR_STATUS_CHAR p m)"

definition on_status_message :: "char \<Rightarrow> http_parser \<Rightarrow> http_request \<Rightarrow> header_result" where
  "on_status_message c p m =
     (if c = CR then H_next (goto PARSE_EXPECTING_NEWLINE p) m
      else if c = LF then H_next (goto PARSE_EXPECTING_CR p) m
      else if is_control (char_value c) then H_error ERROR_STATUS_CHAR p m
      else if length (hp_status_message p) \<ge> STATUS_MESSAGE_MAX then H_error ERROR_STATUS_CHAR p m
      else H_next (p\<lparr>hp_status_message := hp_status_message p @ [c]\<rparr>) m)"

definition on_expecting_newline :: "char \<Rightarrow> http_parser \<Rightarrow> http_request \<Rightarrow> header_result" where
  "on_expecting_newline c p m =
     (if c = LF then
        (if m_version_major m = 0 then H_done True p m else H_next (goto PARSE_HEADER_START p) m)
      else if c = CR then H_done True p m
      else if c = TAB \<or> c = SP then H_next (goto PARSE_HEADER_WHITESPACE p) m
      else if not_token c then H_error ERROR_HEADER_CHAR p m
      else H_next (begin_header_name c p) m)"

definition on_expecting_cr :: "char \<Rightarrow> http_parser \<Rightarrow> http_request \<Rightarrow> header_result" where
  "on_expecting_cr c p m =
     (if c = CR then H_next (goto PARSE_HEADER_START p) m
      else if c = LF then H_done True p m
      else if c = TAB \<or> c = SP then H_next (goto PARSE_HEADER_WHITESPACE p) m
      else if not_token c then H_error ERROR_HEADER_CHAR p m
      else H_next (begin_header_name c p) m)"

definition on_header_whitespace :: "char \<Rightarrow> http_parser \<Rightarrow> http_request \<Rightarrow> header_result" where
  "on_header_whitespace c p m =
     (if c = CR then H_next (goto PARSE_EXPECTING_NEWLINE p) m
      else if c = LF then H_next (goto PARSE_EXPECTING_CR p) m
      else if c \<noteq> TAB \<and> c \<noteq> SP then
        (if not_token c then H_error ERROR_HEADER_CHAR p m
         else H_next (begin_header_name c p) m)
      else H_next p m)"

definition on_header_start :: "char \<Rightarrow> http_parser \<Rightarrow> http_request \<Rightarrow> header_result" where
  "on_header_start c p m =
     (if c = CR then H_next (goto PARSE_EXPECTING_FINAL_NEWLINE p) m
      else if c = LF then H_next (goto PARSE_EXPECTING_FINAL_CR p) m
      else if c = TAB \<or> c = SP then H_next (goto PARSE_HEADER_WHITESPACE p) m
      else if not_token c then H_error ERROR_HEADER_CHAR p m
      else H_next (begin_header_name c p) m)"

definition on_header_name :: "char \<Rightarrow> http_parser \<Rightarrow> http_request \<Rightarrow> header_result" where
  "on_header_name c p m =
     (if c = CHR '':'' then
        H_next (p\<lparr>hp_header_value := [], hp_headers_state := PARSE_SPACE_BEFORE_HEADER_VALUE\<rparr>) m
      else if not_token c then H_error ERROR_HEADER_CHAR p m
      else if length (hp_header_name p) \<ge> HEADER_NAME_MAX then H_error ERROR_HEADER_NAME_SIZE p m
      else H_next (p\<lparr>hp_header_name := hp_header_name p @ [c]\<rparr>) m)"

definition on_space_before_header_value :: "char \<Rightarrow> http_parser \<Rightarrow> http_request \<Rightarrow> header_result" where
  "on_space_before_header_value c p m =
     (if c = SP then H_next (goto PARSE_HEADER_VALUE p) m
      else if c = CR then
        H_next (goto PARSE_EXPECTING_NEWLINE p) (add_header (hp_header_name p) (hp_header_value p) m)
      else if c = LF then
        H_next (goto PARSE_EXPECTING_CR p) (add_header (hp_header_name p) (hp_header_value p) m)
      else if not_token c then H_error ERROR_HEADER_CHAR p m
      else H_next (p\<lparr>hp_header_value := hp_header_value p @ [c],
                     hp_headers_state := PARSE_HEADER_VALUE\<rparr>) m)"

definition on_header_value :: "char \<Rightarrow> http_parser \<Rightarrow> http_request \<Rightarrow> header_result" where
  "on_header_value c p m =
     (if c = CR then
        H_next (goto PARSE_EXPECTING_NEWLINE p) (add_header (hp_header_name p) (hp_header_value p) m)
      else if c = LF then
        H_next (goto PARSE_EXPECTING_CR p) (add_header (hp_header_name p) (hp_header_value p) m)
      else if c \<noteq> TAB \<and> is_control (char_value c) then H_error ERROR_HEADER_CHAR p m
      else if length (hp_header_value p) \<ge> HEADER_VALUE_MAX then H_error ERROR_HEADER_VALUE_SIZE p m
      else H_next (p\<lparr>hp_header_value := hp_header_value p @ [c]\<rparr>) m)"

definition on_expecting_final_newline :: "char \<Rightarrow> http_parser \<Rightarrow> http_request \<Rightarrow> header_result" where
  "on_expecting_final_newline c p m = H_done (c = LF) p m"

definition on_expecting_final_cr :: "char \<Rightarrow> http_parser \<Rightarrow> http_request \<Rightarrow> header_result" where
  "on_expecting_final_cr c p m = H_done (c = CR) p m"

definition header_step :: "char \<Rightarrow> http_parser \<Rightarrow> http_request \<Rightarrow> header_result" where
  "header_step c p m =
     (case hp_headers_state p of
        PARSE_METHOD_START \<Rightarrow> on_method_start c p m
      | PARSE_METHOD \<Rightarrow> on_method c p m
      | PARSE_URI_STEM \<Rightarrow> on_uri_stem c p m
      | PARSE_URI_QUERY \<Rightarrow> on_uri_query c p m
      | PARSE_HTTP_VERSION_H \<Rightarrow> on_version_h c p m
      | PARSE_HTTP_VERSION_T_1 \<Rightarrow> on_version_t_1 c p m
      | PARSE_HTTP_VERSION_T_2 \<Rightarrow> on_version_t_2 c p m
      | PARSE_HTTP_VERSION_P \<Rightarrow> on_version_p c p m
      | PARSE_HTTP_VERSION_SLASH \<Rightarrow> on_version_slash c p m
      | PARSE_HTTP_VERSION_MAJOR_START \<Rightarrow> on_version_major_start c p m
      | PARSE_HTTP_VERSION_MAJOR \<Rightarrow> on_version_major c p m
      | PARSE_HTTP_VERSION_MINOR_START \<Rightarrow> on_version_minor_start c p m
      | PARSE_HTTP_VERSION_MINOR \<Rightarrow> on_version_minor c p m
      | PARSE_STATUS_CODE_START \<Rightarrow> on_status_code_start c p m
      | PARSE_STATUS_CODE \<Rightarrow> on_status_code c p m
      | PARSE_STATUS_MESSAGE \<Rightarrow> on_status_message c p m
      | PARSE_EXPECTING_NEWLINE \<Rightarrow> on_expecting_newline c p m
      | PARSE_EXPECTING_CR \<Rightarrow> on_expecting_cr c p m
      | PARSE_HEADER_WHITESPACE \<Rightarrow> on_header_whitespace c p m
      | PARSE_HEADER_START \<Rightarrow> on_header_start c p m
      | PARSE_HEADER_NAME \<Rightarrow> on_header_name c p m
      | PARSE_SPACE_BEFORE_HEADER_VALUE \<Rightarrow> on_space_before_header_value c p m
      | PARSE_HEADER_VALUE \<Rightarrow> on_header_value c p m
      | PARSE_EXPECTING_FINAL_NEWLINE \<Rightarrow> on_expecting_final_newline c p m
      | PARSE_EXPECTING_FINAL_CR \<Rightarrow> on_expecting_final_cr c p m)"

section \<open>The loop\<close>

definition save_raw :: "char \<Rightarrow> http_parser \<Rightarrow> http_parser" where
  "save_raw c p = (if hp_save_raw_headers p then p\<lparr>hp_raw_headers := hp_raw_headers p @ [c]\<rparr> else p)"

text \<open>The common tail of the loop exits: position and byte counters.\<close>

definition finish_read :: "nat \<Rightarrow> byte_string \<Rightarrow> http_parser \<Rightarrow> http_parser" where
  "finish_read n rest p =
     p\<lparr>hp_read := rest, hp_bytes_last_read := n, hp_bytes_total_read := hp_bytes_total_read p + n\<rparr>"

fun parse_headers_loop ::
  "nat \<Rightarrow> http_parser \<Rightarrow> http_request \<Rightarrow> error_code \<Rightarrow> byte_string
   \<Rightarrow> tribool \<times> error_code \<times> http_parser \<times> http_request"
where
  "parse_headers_loop n p m ec [] = (Indeterminate, ec, finish_read n [] p, m)"
| "parse_headers_loop n p m ec (c # cs) =
     (case header_step c (save_raw c p) m of
        H_next p' m' \<Rightarrow> parse_headers_loop (Suc n) p' m' ec cs
      | H_done True p' m' \<Rightarrow> (TTrue, ec, finish_read (Suc n) cs p', m')
      | H_done False p' m' \<Rightarrow> (TTrue, ec, finish_read n (c # cs) p', m')
      | H_error e p' m' \<Rightarrow> (TFalse, Some e, p'\<lparr>hp_read := c # cs\<rparr>, m'))"

definition parse_headers ::
  "http_parser \<Rightarrow> http_request \<Rightarrow> error_code \<Rightarrow> tribool \<times> error_code \<times> http_parser \<times> http_request" where
  "parse_headers p m ec = parse_headers_loop 0 (p\<lparr>hp_bytes_last_read := 0\<rparr>) m ec (hp_read p)"

section \<open>After the headers\<close>

text \<open>Failures of the two parsers are only logged; the dictionaries keep what was parsed.\<close>

definition parse_cookies :: "sl_utils \<Rightarrow> dict \<Rightarrow> dict \<Rightarrow> dict" where
  "parse_cookies E rng cookies =
     fold (\<lambda>kv d. snd (parse_cookie_header E d (snd kv) False)) rng cookies"

definition update_message_with_header_data ::
  "sl_utils \<Rightarrow> http_parser \<Rightarrow> http_request \<Rightarrow> http_request" where
  "update_message_with_header_data E p m =
     (let m1 = set_query_string (hp_query_string p)
                 (set_resource (hp_resource p) (set_method (hp_method p) m));
          m2 = (if hp_query_string p \<noteq> []
                then m1\<lparr>rq_query_params :=
                       snd (parse_url_encoded E (rq_query_params m1) (hp_query_string p))\<rparr>
                else m1)
      in m2\<lparr>m_cookie_params :=
              parse_cookies E (equal_range E (m_headers m2) HEADER_COOKIE) (m_cookie_params m2)\<rparr>)"

lemmas header_case_defs =
  on_method_start_def on_method_def on_uri_stem_def on_uri_query_def on_version_h_def
  on_version_t_1_def on_version_t_2_def on_version_p_def on_version_slash_def
  on_version_major_start_def on_version_major_def on_version_minor_start_def
  on_version_minor_def on_status_code_start_def on_status_code_def on_status_message_def
  on_expecting_newline_def on_expecting_cr_def on_header_whitespace_def on_header_start_def
  on_header_name_def on_space_before_header_value_def on_header_value_def
  on_expecting_final_newline_def on_expecting_final_cr_def

end
