(* ===== verification/Header_Run.thy ===== *)
theory Header_Run
  imports Header_Parser
begin

text \<open>
  The header loop as a run of \<open>header_step\<close> without position and counters: the link to
  \<open>parse_headers\<close>, independence of the split of the input, the invariant of the parsed data,
  and the parse of a serialised request head.
\<close>

section \<open>Runs\<close>

text \<open>
  \<open>R_more\<close>: all bytes consumed, headers not finished. \<open>R_done\<close> and \<open>R_error\<close> carry the bytes
  not consumed.
\<close>

datatype header_run =
    R_more http_parser http_request
  | R_done byte_string http_parser http_request
  | R_error error_value_t byte_string http_parser http_request

fun run_headers :: "http_parser \<Rightarrow> http_request \<Rightarrow> byte_string \<Rightarrow> header_run" where
  "run_headers p m [] = R_more p m"
| "run_headers p m (c # cs) =
     (case header_step c (save_raw c p) m of
        H_next p' m' \<Rightarrow> run_headers p' m' cs
      | H_done adv p' m' \<Rightarrow> R_done (if adv then cs else c # cs) p' m'
      | H_error e p' m' \<Rightarrow> R_error e (c # cs) p' m')"

lemma run_headers_done_suffix: "run_headers p m s = R_done rest p' m' \<Longrightarrow> suffix rest s"
  by (induction p m s rule: run_headers.induct)
     (auto split: header_result.splits if_splits intro: suffix_ConsI)

lemma run_headers_error_suffix: "run_headers p m s = R_error e rest p' m' \<Longrightarrow> suffix rest s"
  by (induction p m s rule: run_headers.induct)
     (auto split: header_result.splits if_splits intro: suffix_ConsI)

lemma run_headers_append:
  "run_headers p m (xs @ ys) =
     (case run_headers p m xs of
        R_more p' m' \<Rightarrow> run_headers p' m' ys
      | R_done rest p' m' \<Rightarrow> R_done (rest @ ys) p' m'
      | R_error e rest p' m' \<Rightarrow> R_error e (rest @ ys) p' m')"
  by (induction p m xs rule: run_headers.induct) (auto split: header_result.splits)

lemma parse_headers_loop_run:
  "parse_headers_loop n p m ec s =
     (case run_headers p m s of
        R_more p' m' \<Rightarrow> (Indeterminate, ec, finish_read (n + length s) [] p', m')
      | R_done rest p' m' \<Rightarrow> (TTrue, ec, finish_read (n + (length s - length rest)) rest p', m')
      | R_error e rest p' m' \<Rightarrow> (TFalse, Some e, p'\<lparr>hp_read := rest\<rparr>, m'))"
proof (induction n p m ec s rule: parse_headers_loop.induct)
  case (2 n p m ec c cs)
  show ?case
  proof (cases "header_step c (save_raw c p) m")
    case (H_next p' m')
    with 2 show ?thesis
      by (auto split: header_run.splits simp: Suc_diff_le
          dest!: run_headers_done_suffix suffix_length_le)
  next
    case (H_done adv p' m')
    then show ?thesis by (cases adv) auto
  next
    case (H_error e p' m')
    then show ?thesis by simp
  qed
qed simp

section \<open>Frame\<close>

text \<open>The step neither reads nor writes the position and the byte counters.\<close>

definition reposition :: "byte_string \<Rightarrow> nat \<Rightarrow> nat \<Rightarrow> http_parser \<Rightarrow> http_parser" where
  "reposition r l t p = p\<lparr>hp_read := r, hp_bytes_last_read := l, hp_bytes_total_read := t\<rparr>"

fun map_header_result :: "(http_parser \<Rightarrow> http_parser) \<Rightarrow> header_result \<Rightarrow> header_result" where
  "map_header_result f (H_next p m) = H_next (f p) m"
| "map_header_result f (H_done b p m) = H_done b (f p) m"
| "map_header_result f (H_error e p m) = H_error e (f p) m"

fun map_header_run :: "(http_parser \<Rightarrow> http_parser) \<Rightarrow> header_run \<Rightarrow> header_run" where
  "map_header_run f (R_more p m) = R_more (f p) m"
| "map_header_run f (R_done r p m) = R_done r (f p) m"
| "map_header_run f (R_error e r p m) = R_error e r (f p) m"

lemma header_step_frame:
  "header_step c (reposition r l t p) m = map_header_result (reposition r l t) (header_step c p m)"
  by (cases "hp_headers_state p")
     (simp_all add: header_step_def header_case_defs reposition_def begin_header_name_def)

lemma save_raw_frame: "save_raw c (reposition r l t p) = reposition r l t (save_raw c p)"
  by (simp add: save_raw_def reposition_def)

lemma run_headers_frame:
  "run_headers (reposition r l t p) m s = map_header_run (reposition r l t) (run_headers p m s)"
proof (induction p m s rule: run_headers.induct)
  case (2 p m c cs)
  then show ?case
    by (cases "header_step c (save_raw c p) m") (simp_all add: save_raw_frame header_step_frame)
qed simp

section \<open>Invariant of the parsed data\<close>

text \<open>
  What a parsed header or request line can hold: names and methods are tokens, resources and
  queries have no control characters, values have none but TAB; all are within their limits.
\<close>

definition token_text :: "byte_string \<Rightarrow> bool" where
  "token_text s \<longleftrightarrow> list_all (\<lambda>c. \<not> not_token c) s"

definition no_control :: "byte_string \<Rightarrow> bool" where
  "no_control s \<longleftrightarrow> list_all (\<lambda>c. \<not> is_control (char_value c)) s"

definition header_text :: "byte_string \<Rightarrow> bool" where
  "header_text s \<longleftrightarrow> list_all (\<lambda>c. c = TAB \<or> \<not> is_control (char_value c)) s"

definition header_ok :: "byte_string \<times> byte_string \<Rightarrow> bool" where
  "header_ok kv \<longleftrightarrow> fst kv \<noteq> [] \<and> token_text (fst kv) \<and> length (fst kv) \<le> HEADER_NAME_MAX
     \<and> header_text (snd kv) \<and> length (snd kv) \<le> HEADER_VALUE_MAX"

definition status_state :: "header_parse_state_type \<Rightarrow> bool" where
  "status_state st \<longleftrightarrow> st \<in> {PARSE_STATUS_CODE_START, PARSE_STATUS_CODE, PARSE_STATUS_MESSAGE}"

definition header_inv :: "http_parser \<Rightarrow> http_request \<Rightarrow> bool" where
  "header_inv p m \<longleftrightarrow>
     token_text (hp_method p) \<and> length (hp_method p) \<le> METHOD_MAX
     \<and> no_control (hp_resource p) \<and> length (hp_resource p) \<le> RESOURCE_MAX
     \<and> no_control (hp_query_string p) \<and> length (hp_query_string p) \<le> QUERY_STRING_MAX
     \<and> token_text (hp_header_name p) \<and> length (hp_header_name p) \<le> HEADER_NAME_MAX
     \<and> header_text (hp_header_value p) \<and> length (hp_header_value p) \<le> HEADER_VALUE_MAX
     \<and> \<not> status_state (hp_headers_state p)
     \<and> (hp_headers_state p \<in> {PARSE_HEADER_NAME, PARSE_SPACE_BEFORE_HEADER_VALUE, PARSE_HEADER_VALUE}
          \<longrightarrow> hp_header_name p \<noteq> [])
     \<and> (hp_headers_state p = PARSE_SPACE_BEFORE_HEADER_VALUE \<longrightarrow> hp_header_value p = [])
     \<and> list_all header_ok (m_headers m)"

fun header_result_inv :: "header_result \<Rightarrow> bool" where
  "header_result_inv (H_next p m) = header_inv p m"
| "header_result_inv (H_done b p m) = header_inv p m"
| "header_result_inv (H_error e p m) = header_inv p m"

fun header_run_inv :: "header_run \<Rightarrow> bool" where
  "header_run_inv (R_more p m) = header_inv p m"
| "header_run_inv (R_done r p m) = header_inv p m"
| "header_run_inv (R_error e r p m) = header_inv p m"

lemma set_version_headers [simp]:
  "m_headers (set_version_major n m) = m_headers m"
  "m_headers (set_version_minor n m) = m_headers m"
  "m_headers (set_version_0_0 r) = m_headers r"
  by (simp_all add: set_version_major_def set_version_minor_def set_version_0_0_def clear_first_line_def)

lemma header_limits_pos [simp]: "0 < METHOD_MAX" "0 < HEADER_NAME_MAX" "0 < HEADER_VALUE_MAX"
  "Suc 0 \<le> METHOD_MAX" "Suc 0 \<le> HEADER_NAME_MAX" "Suc 0 \<le> HEADER_VALUE_MAX"
  by (simp_all add: METHOD_MAX_def HEADER_NAME_MAX_def HEADER_VALUE_MAX_def)

lemma text_simps [simp]:
  "token_text []" "no_control []" "header_text []"
  "token_text (xs @ [c]) \<longleftrightarrow> token_text xs \<and> \<not> not_token c"
  "token_text [c] \<longleftrightarrow> \<not> not_token c"
  "no_control (xs @ [c]) \<longleftrightarrow> no_control xs \<and> \<not> is_control (char_value c)"
  "header_text (xs @ [c]) \<longleftrightarrow> header_text xs \<and> (c = TAB \<or> \<not> is_control (char_value c))"
  "header_text [c] \<longleftrightarrow> (c = TAB \<or> \<not> is_control (char_value c))"
  by (auto simp: token_text_def no_control_def header_text_def)

lemma token_no_control: "\<not> not_token c \<Longrightarrow> \<not> is_control (char_value c)"
  by (simp add: not_token_def)

lemma header_step_inv: "header_inv p m \<Longrightarrow> header_result_inv (header_step c p m)"
  by (cases "hp_headers_state p")
     (auto simp: header_step_def header_case_defs begin_header_name_def header_inv_def
        status_state_def add_header_def dict_insert_def header_ok_def token_no_control)

lemma save_raw_inv [simp]: "header_inv (save_raw c p) m = header_inv p m"
  by (simp add: save_raw_def header_inv_def)

lemma run_headers_inv: "header_inv p m \<Longrightarrow> header_run_inv (run_headers p m s)"
proof (induction p m s rule: run_headers.induct)
  case (2 p m c cs)
  then have "header_result_inv (header_step c (save_raw c p) m)"
    by (intro header_step_inv) simp
  with 2 show ?case by (cases "header_step c (save_raw c p) m") auto
qed simp

lemma header_inv_frame [simp]:
  "header_inv (reposition r l t p) m = header_inv p m"
  "header_inv (finish_read n r p) m = header_inv p m"
  "header_inv (p\<lparr>hp_read := r\<rparr>) m = header_inv p m"
  "header_inv (p\<lparr>hp_bytes_last_read := l\<rparr>) m = header_inv p m"
  by (simp_all add: header_inv_def reposition_def finish_read_def)

lemma header_inv_new: "header_inv (new_http_parser g1 g2 mx) (new_http_request g)"
  by (simp add: header_inv_def new_http_parser_def new_http_request_def new_http_message_def
      status_state_def http_message.defs)

lemma parse_headers_inv:
  assumes "header_inv p m" and "parse_headers p m ec = (rc, ec', p', m')"
  shows "header_inv p' m'"
  using run_headers_inv [of "p\<lparr>hp_bytes_last_read := 0\<rparr>" m "hp_read p"] assms
  by (auto simp: parse_headers_def parse_headers_loop_run split: header_run.splits)

section \<open>Properties\<close>

lemma reposition_reposition [simp]: "reposition r l t (reposition r' l' t' p) = reposition r l t p"
  by (simp add: reposition_def)

lemma reposition_self [simp]:
  "reposition (hp_read p) (hp_bytes_last_read p) (hp_bytes_total_read p) p = p"
  by (simp add: reposition_def)

lemma reposition_sel [simp]:
  "hp_read (reposition r l t p) = r" "hp_bytes_last_read (reposition r l t p) = l"
  "hp_bytes_total_read (reposition r l t p) = t"
  by (simp_all add: reposition_def)

text \<open>A call of \<open>parse_headers\<close> through the run from the repositioned parser.\<close>

lemma parse_headers_run:
  "parse_headers (set_read_buffer s p) m ec =
     (case run_headers p m s of
        R_more p' m' \<Rightarrow> (Indeterminate, ec, reposition [] (length s) (hp_bytes_total_read p + length s) p', m')
      | R_done rest p' m' \<Rightarrow>
          (let n = length s - length rest
           in (TTrue, ec, reposition rest n (hp_bytes_total_read p + n) p', m'))
      | R_error e rest p' m' \<Rightarrow> (TFalse, Some e, reposition rest 0 (hp_bytes_total_read p) p', m'))"
proof -
  have start: "(set_read_buffer s p)\<lparr>hp_bytes_last_read := 0\<rparr> = reposition s 0 (hp_bytes_total_read p) p"
    by (simp add: set_read_buffer_def reposition_def)
  have tail: "finish_read n rest (reposition r l t p') = reposition rest n (t + n) p'"
    "(reposition r l t p')\<lparr>hp_read := rest\<rparr> = reposition rest l t p'" for n rest r l t p'
    by (simp_all add: finish_read_def reposition_def)
  have "hp_read (set_read_buffer s p) = s" by (simp add: set_read_buffer_def)
  then show ?thesis
    unfolding parse_headers_def start parse_headers_loop_run run_headers_frame
    by (cases "run_headers p m s") (simp_all add: tail Let_def)
qed

text \<open>
  C18: \<open>parse_headers\<close> does not depend on how the bytes arrive. If the first buffer leaves it
  waiting, then the second call on the next buffer gives what a single call on both buffers
  gives: same verdict, same error code, same message, same parser but for the byte counters,
  which add up.
\<close>

theorem parse_headers_fragmentation:
  assumes "parse_headers (set_read_buffer xs p) m ec = (Indeterminate, ec1, p1, m1)"
    and "parse_headers (set_read_buffer ys p1) m1 ec1 = (rc, ec2, p2, m2)"
  shows "parse_headers (set_read_buffer (xs @ ys) p) m ec =
      (rc, ec2,
       reposition (hp_read p2)
         (if rc = TFalse then 0 else length xs + gcount p2)
         (if rc = TFalse then hp_bytes_total_read p else hp_bytes_total_read p2) p2, m2)"
proof -
  obtain a where a: "run_headers p m xs = R_more a m1" "ec1 = ec"
    "p1 = reposition [] (length xs) (hp_bytes_total_read p + length xs) a"
    using assms(1) unfolding parse_headers_run
    by (auto split: header_run.splits simp: Let_def)
  show ?thesis
    using assms(2) a unfolding parse_headers_run gcount_def
    by (cases "run_headers a m1 ys")
       (auto simp: run_headers_append run_headers_frame Let_def add.assoc
          dest!: run_headers_done_suffix suffix_length_le)
qed

theorem parse_headers_fragmentation_witness:
  "\<exists>p1 m1 p2 m2. parse_headers (set_read_buffer ''GE'' (new_http_parser 0 0 9)) (new_http_request False) None
      = (Indeterminate, None, p1, m1)
    \<and> parse_headers (set_read_buffer ''T /'' p1) m1 None = (Indeterminate, None, p2, m2)
    \<and> parse_headers (set_read_buffer (''GE'' @ ''T /'') (new_http_parser 0 0 9)) (new_http_request False) None
      = (Indeterminate, None, reposition (hp_read p2) (2 + gcount p2) (hp_bytes_total_read p2) p2, m2)"
proof -
  have "\<exists>p1 m1 p2 m2. parse_headers (set_read_buffer ''GE'' (new_http_parser 0 0 9)) (new_http_request False) None
      = (Indeterminate, None, p1, m1)
    \<and> parse_headers (set_read_buffer ''T /'' p1) m1 None = (Indeterminate, None, p2, m2)"
    by (simp add: parse_headers_run header_step_def save_raw_def new_http_parser_def
        on_method_start_def on_method_def on_uri_stem_def not_token_def is_char_def is_control_def
        is_special_def char_value_def reposition_def METHOD_MAX_def RESOURCE_MAX_def)
  then show ?thesis using parse_headers_fragmentation by fastforce
qed

text \<open>The header loop driven over a sequence of buffers, as the reader drives it.\<close>

fun feed_headers ::
  "byte_string list \<Rightarrow> http_parser \<Rightarrow> http_request \<Rightarrow> error_code
   \<Rightarrow> tribool \<times> error_code \<times> http_parser \<times> http_request"
where
  "feed_headers [] p m ec = (Indeterminate, ec, p, m)"
| "feed_headers (b # bs) p m ec =
     (case parse_headers (set_read_buffer b p) m ec of
        (Indeterminate, ec', p', m') \<Rightarrow> feed_headers bs p' m' ec'
      | res \<Rightarrow> res)"

lemma feed_headers_inv:
  "header_inv p m \<Longrightarrow> feed_headers bs p m ec = (rc, ec', p', m') \<Longrightarrow> header_inv p' m'"
proof (induction bs arbitrary: p m ec)
  case (Cons b bs)
  obtain rc1 ec1 p1 m1 where s: "parse_headers (set_read_buffer b p) m ec = (rc1, ec1, p1, m1)"
    by (metis surj_pair)
  then have "header_inv p1 m1"
    by (rule parse_headers_inv [rotated]) (use Cons.prems in \<open>simp add: set_read_buffer_def\<close>)
  with Cons s show ?case by (cases rc1) auto
qed simp

lemma header_text_no_crlf:
  assumes "header_text s"
  shows "CR \<notin> set s \<and> LF \<notin> set s"
proof -
  have "is_control (char_value CR)" "is_control (char_value LF)" "CR \<noteq> TAB" "LF \<noteq> TAB"
    by (simp_all add: is_control_def char_value_def)
  moreover have "\<forall>c \<in> set s. c = TAB \<or> \<not> is_control (char_value c)"
    using assms by (simp only: header_text_def list_all_iff)
  ultimately show ?thesis by metis
qed

text \<open>
  C20: whatever bytes arrive, in however many buffers, every header the message ever holds has a
  non-empty token as its name and a value without CR, LF or other control characters but TAB;
  method, resource and query string are free of control characters; all stay within their
  limits; and a request parser never enters the states of the status line.
\<close>

theorem parsed_head_wellformed:
  assumes "feed_headers bs (new_http_parser g1 g2 mx) (new_http_request g) None = (rc, ec, p, m)"
  shows "(\<forall>(k, v) \<in> set (m_headers m). k \<noteq> [] \<and> token_text k \<and> length k \<le> HEADER_NAME_MAX
            \<and> header_text v \<and> CR \<notin> set v \<and> LF \<notin> set v \<and> length v \<le> HEADER_VALUE_MAX)
       \<and> token_text (hp_method p) \<and> length (hp_method p) \<le> METHOD_MAX
       \<and> no_control (hp_resource p) \<and> length (hp_resource p) \<le> RESOURCE_MAX
       \<and> no_control (hp_query_string p) \<and> length (hp_query_string p) \<le> QUERY_STRING_MAX
       \<and> \<not> status_state (hp_headers_state p)"
proof -
  have "header_inv p m" using feed_headers_inv [OF header_inv_new assms] .
  then show ?thesis
    by (simp add: header_inv_def header_ok_def list_all_iff split_beta header_text_no_crlf)
qed

theorem parsed_head_wellformed_witness:
  "\<exists>p m. feed_headers [''GE'', ''T /''] (new_http_parser 0 0 9) (new_http_request False) None
       = (Indeterminate, None, p, m) \<and> hp_resource p = ''/'' \<and> no_control (hp_resource p)"
proof -
  have "\<exists>p m. feed_headers [''GE'', ''T /''] (new_http_parser 0 0 9) (new_http_request False) None
       = (Indeterminate, None, p, m) \<and> hp_resource p = ''/''"
    by (simp add: parse_headers_run header_step_def save_raw_def new_http_parser_def
        on_method_start_def on_method_def on_uri_stem_def not_token_def is_char_def is_control_def
        is_special_def char_value_def reposition_def METHOD_MAX_def RESOURCE_MAX_def)
  then obtain p m where pm: "feed_headers [''GE'', ''T /''] (new_http_parser 0 0 9) (new_http_request False) None
       = (Indeterminate, None, p, m)" "hp_resource p = ''/''" by blast
  from parsed_head_wellformed [OF pm(1)] have "no_control (hp_resource p)" by simp
  with pm show ?thesis by blast
qed

end
