(* ===== verification/Head_Roundtrip.thy ===== *)
theory Head_Roundtrip
  imports Header_Run
begin

text \<open>
  The header loop on the text of a request head: the bytes \<open>prepare_buffers_for_send\<close> writes
  for a request are parsed back to its method, resource, query string, version and headers.
\<close>

section \<open>Runs of bytes within one state\<close>

abbreviation no_raw :: "http_parser \<Rightarrow> bool" where
  "no_raw p \<equiv> \<not> hp_save_raw_headers p"

text \<open>Updates of the parser are brought into one order: the state first.\<close>

lemma goto_first:
  "goto st (p\<lparr>hp_method := x\<rparr>) = (goto st p)\<lparr>hp_method := x\<rparr>"
  "goto st (p\<lparr>hp_resource := x\<rparr>) = (goto st p)\<lparr>hp_resource := x\<rparr>"
  "goto st (p\<lparr>hp_query_string := x\<rparr>) = (goto st p)\<lparr>hp_query_string := x\<rparr>"
  "goto st (p\<lparr>hp_header_name := x\<rparr>) = (goto st p)\<lparr>hp_header_name := x\<rparr>"
  "goto st (p\<lparr>hp_header_value := x\<rparr>) = (goto st p)\<lparr>hp_header_value := x\<rparr>"
  by simp_all

lemma same_field:
  "hp_headers_state p = st \<Longrightarrow> goto st p = p"
  "hp_query_string p = q \<Longrightarrow> p\<lparr>hp_query_string := q\<rparr> = p"
  by auto

lemma save_raw_off [simp]: "no_raw p \<Longrightarrow> save_raw c p = p"
  by (simp add: save_raw_def)

lemma token_chars:
  assumes "\<not> not_token c"
  shows "c \<noteq> SP" "c \<noteq> CR" "c \<noteq> LF" "c \<noteq> TAB" "c \<noteq> CHR '':''"
  using assms by (auto simp: not_token_def is_control_def is_special_def char_value_def)

lemma control_chars:
  assumes "\<not> is_control (char_value c)"
  shows "c \<noteq> CR" "c \<noteq> LF" "c \<noteq> TAB"
  using assms by (auto simp: is_control_def char_value_def)

lemma run_method:
  assumes "token_text xs" and "length (hp_method p) + length xs \<le> METHOD_MAX"
    and "hp_headers_state p = PARSE_METHOD" and "no_raw p"
  shows "run_headers p m (xs @ rest) = run_headers (p\<lparr>hp_method := hp_method p @ xs\<rparr>) m rest"
  using assms
  by (induction xs arbitrary: p)
     (auto simp: token_text_def header_step_def on_method_def token_chars)

lemma run_resource:
  assumes "no_control xs" and "SP \<notin> set xs" and "CHR ''?'' \<notin> set xs"
    and "length (hp_resource p) + length xs \<le> RESOURCE_MAX"
    and "hp_headers_state p = PARSE_URI_STEM" and "no_raw p"
  shows "run_headers p m (xs @ rest) = run_headers (p\<lparr>hp_resource := hp_resource p @ xs\<rparr>) m rest"
  using assms
  by (induction xs arbitrary: p)
     (auto simp: no_control_def header_step_def on_uri_stem_def control_chars)

lemma run_query:
  assumes "no_control xs" and "SP \<notin> set xs"
    and "length (hp_query_string p) + length xs \<le> QUERY_STRING_MAX"
    and "hp_headers_state p = PARSE_URI_QUERY" and "no_raw p"
  shows "run_headers p m (xs @ rest) = run_headers (p\<lparr>hp_query_string := hp_query_string p @ xs\<rparr>) m rest"
  using assms
  by (induction xs arbitrary: p)
     (auto simp: no_control_def header_step_def on_uri_query_def control_chars)

lemma run_header_name:
  assumes "token_text xs" and "length (hp_header_name p) + length xs \<le> HEADER_NAME_MAX"
    and "hp_headers_state p = PARSE_HEADER_NAME" and "no_raw p"
  shows "run_headers p m (xs @ rest) = run_headers (p\<lparr>hp_header_name := hp_header_name p @ xs\<rparr>) m rest"
  using assms
  by (induction xs arbitrary: p)
     (auto simp: token_text_def header_step_def on_header_name_def token_chars)

lemma run_header_value:
  assumes "header_text xs" and "length (hp_header_value p) + length xs \<le> HEADER_VALUE_MAX"
    and "hp_headers_state p = PARSE_HEADER_VALUE" and "no_raw p"
  shows "run_headers p m (xs @ rest) = run_headers (p\<lparr>hp_header_value := hp_header_value p @ xs\<rparr>) m rest"
  using assms
  by (induction xs arbitrary: p)
     (auto simp: header_text_def header_step_def on_header_value_def control_ws)

section \<open>Version numbers\<close>

definition version_word :: "16 word \<Rightarrow> byte_string \<Rightarrow> 16 word" where
  "version_word w ds = foldl (\<lambda>a c. a * 10 + digit_word c) w ds"

abbreviation digits :: "byte_string \<Rightarrow> bool" where
  "digits ds \<equiv> list_all (\<lambda>c. is_digit (char_value c)) ds"

lemma digit_word_of: "is_digit (char_value c) \<Longrightarrow> digit_word c = of_nat (digit_of c)"
  by (auto simp: digit_word_def digit_of_def is_digit_def)

lemma version_word_value:
  "digits ds \<Longrightarrow> version_word (of_nat acc) ds = of_nat (digits_value 10 acc (map digit_of ds))"
proof (induction ds arbitrary: acc)
  case (Cons d ds)
  have "(of_nat acc * 10 + of_nat (digit_of d) :: 16 word) = of_nat (acc * 10 + digit_of d)"
    by simp
  with Cons show ?case by (simp add: version_word_def digit_word_of del: of_nat_add of_nat_mult)
qed (simp add: version_word_def)

lemma digit_chars:
  assumes "is_digit (char_value c)"
  shows "c \<noteq> CHR ''.''" "c \<noteq> SP" "c \<noteq> CR" "c \<noteq> LF"
  using assms by (auto simp: is_digit_def char_value_def)

lemma set_version_fresh [simp]:
  "m_first_line m = [] \<Longrightarrow> set_version_major n m = m\<lparr>m_version_major := n\<rparr>"
  "m_first_line m = [] \<Longrightarrow> set_version_minor n m = m\<lparr>m_version_minor := n\<rparr>"
  by (simp_all add: set_version_major_def set_version_minor_def clear_first_line_def)

lemma run_major:
  assumes "digits ds" and "hp_headers_state p = PARSE_HTTP_VERSION_MAJOR" and "no_raw p"
    and "m_first_line m = []"
  shows "run_headers p m (ds @ rest)
       = run_headers p (m\<lparr>m_version_major := version_word (m_version_major m) ds\<rparr>) rest"
  using assms
  by (induction ds arbitrary: m)
     (auto simp: header_step_def on_version_major_def digit_chars version_word_def)

lemma run_minor:
  assumes "digits ds" and "hp_headers_state p = PARSE_HTTP_VERSION_MINOR" and "no_raw p"
    and "m_first_line m = []"
  shows "run_headers p m (ds @ rest)
       = run_headers p (m\<lparr>m_version_minor := version_word (m_version_minor m) ds\<rparr>) rest"
  using assms
  by (induction ds arbitrary: m)
     (auto simp: header_step_def on_version_minor_def digit_chars version_word_def)

lemma version_word_start: "digits (d # ds) \<Longrightarrow> version_word (digit_word d) ds = of_nat (dec_value (d # ds))"
  by (simp add: digit_word_of version_word_value dec_value_def)

text \<open>From the \<open>H\<close> of \<open>HTTP/x.y\<close> to the CR, the version numbers taken modulo \<open>2 ^ 16\<close>.\<close>

lemma run_version:
  assumes "digits ma" and "ma \<noteq> []" and "digits mi" and "mi \<noteq> []"
    and "hp_headers_state p = PARSE_HTTP_VERSION_H" and "no_raw p" and "m_first_line m = []"
  shows "run_headers p m (''HTTP/'' @ ma @ ''.'' @ mi @ CR # rest)
       = run_headers (goto PARSE_EXPECTING_NEWLINE p)
           (m\<lparr>m_version_major := of_nat (dec_value ma), m_version_minor := of_nat (dec_value mi)\<rparr>) rest"
proof -
  obtain a as b bs where ab: "ma = a # as" "mi = b # bs"
    using assms(2,4) by (meson neq_Nil_conv)
  have "run_headers p m (''HTTP/'' @ ma @ ''.'' @ mi @ CR # rest)
      = run_headers (goto PARSE_HTTP_VERSION_MAJOR p) (m\<lparr>m_version_major := digit_word a\<rparr>)
          (as @ ''.'' @ mi @ CR # rest)"
    using assms ab
    by (simp add: header_step_def on_version_h_def on_version_t_1_def on_version_t_2_def
        on_version_p_def on_version_slash_def on_version_major_start_def)
  also have "\<dots> = run_headers (goto PARSE_HTTP_VERSION_MINOR p)
      (m\<lparr>m_version_major := of_nat (dec_value ma), m_version_minor := digit_word b\<rparr>) (bs @ CR # rest)"
    using assms ab
    by (simp add: run_major header_step_def on_version_major_def on_version_minor_start_def
        version_word_start)
  also have "\<dots> = run_headers (goto PARSE_EXPECTING_NEWLINE p)
      (m\<lparr>m_version_major := of_nat (dec_value ma), m_version_minor := of_nat (dec_value mi)\<rparr>) rest"
    using assms ab
    by (simp add: run_minor header_step_def on_version_minor_def version_word_start)
  finally show ?thesis .
qed

section \<open>The head of a request\<close>

text \<open>The text of a head: request line, one line per header, empty line.\<close>

definition header_lines :: "dict \<Rightarrow> byte_string" where
  "header_lines hs = concat (map (\<lambda>kv. fst kv @ '': '' @ snd kv @ [CR, LF]) hs)"

definition request_line ::
  "byte_string \<Rightarrow> byte_string \<Rightarrow> byte_string \<Rightarrow> byte_string \<Rightarrow> byte_string \<Rightarrow> byte_string" where
  "request_line meth resource query ma mi =
     meth @ '' '' @ resource @ (if query \<noteq> [] then ''?'' @ query else [])
     @ '' HTTP/'' @ ma @ ''.'' @ mi @ [CR, LF]"

definition line_ok :: "byte_string \<Rightarrow> byte_string \<Rightarrow> byte_string \<Rightarrow> bool" where
  "line_ok meth resource query \<longleftrightarrow>
     meth \<noteq> [] \<and> token_text meth \<and> length meth \<le> METHOD_MAX
     \<and> no_control resource \<and> SP \<notin> set resource \<and> CHR ''?'' \<notin> set resource
     \<and> length resource \<le> RESOURCE_MAX
     \<and> no_control query \<and> SP \<notin> set query \<and> length query \<le> QUERY_STRING_MAX"

lemma run_one_header:
  assumes "header_ok kv" and "hp_headers_state p = PARSE_HEADER_START" and "no_raw p"
    and "m_version_major m \<noteq> 0"
  shows "run_headers p m (fst kv @ '': '' @ snd kv @ CR # LF # rest)
       = run_headers (p\<lparr>hp_header_name := fst kv, hp_header_value := snd kv\<rparr>)
           (add_header (fst kv) (snd kv) m) rest"
proof -
  obtain k ks where k: "fst kv = k # ks"
    using assms(1) by (cases "fst kv") (auto simp: header_ok_def)
  have tok: "\<not> not_token k" "token_text ks" "length [k] + length ks \<le> HEADER_NAME_MAX"
    "header_text (snd kv)" "length (snd kv) \<le> HEADER_VALUE_MAX"
    using assms(1) k by (auto simp: header_ok_def token_text_def)
  let ?p1 = "p\<lparr>hp_header_name := fst kv, hp_headers_state := PARSE_HEADER_NAME\<rparr>"
  have "run_headers p m (fst kv @ '': '' @ snd kv @ CR # LF # rest)
      = run_headers ?p1 m ('': '' @ snd kv @ CR # LF # rest)"
    using assms k tok
    by (simp add: header_step_def on_header_start_def token_chars begin_header_name_def run_header_name goto_first)
  also have "\<dots> = run_headers (?p1\<lparr>hp_header_value := snd kv, hp_headers_state := PARSE_HEADER_VALUE\<rparr>) m
      (CR # LF # rest)"
    using assms tok
    by (simp add: header_step_def on_header_name_def on_space_before_header_value_def run_header_value goto_first)
  also have "\<dots> = run_headers (p\<lparr>hp_header_name := fst kv, hp_header_value := snd kv\<rparr>)
           (add_header (fst kv) (snd kv) m) rest"
    using assms by (simp add: header_step_def on_header_value_def on_expecting_newline_def add_header_def goto_first same_field)
  finally show ?thesis .
qed

text \<open>What the headers leave in the registers that hold the current name and value.\<close>

definition last_header :: "dict \<Rightarrow> http_parser \<Rightarrow> http_parser" where
  "last_header hs p =
     (if hs = [] then p else p\<lparr>hp_header_name := fst (last hs), hp_header_value := snd (last hs)\<rparr>)"

lemma run_header_lines:
  assumes "list_all header_ok hs" and "hp_headers_state p = PARSE_HEADER_START" and "no_raw p"
    and "m_version_major m \<noteq> 0"
  shows "run_headers p m (header_lines hs @ rest)
       = run_headers (last_header hs p) (m\<lparr>m_headers := m_headers m @ hs\<rparr>) rest"
  using assms
proof (induction hs arbitrary: p m)
  case Nil
  then show ?case by (simp add: header_lines_def last_header_def)
next
  case (Cons kv hs)
  have "run_headers p m (header_lines (kv # hs) @ rest)
      = run_headers (p\<lparr>hp_header_name := fst kv, hp_header_value := snd kv\<rparr>)
          (add_header (fst kv) (snd kv) m) (header_lines hs @ rest)"
    using run_one_header [of kv p m "header_lines hs @ rest"] Cons.prems
    by (simp add: header_lines_def)
  also have "\<dots> = run_headers (last_header hs (p\<lparr>hp_header_name := fst kv, hp_header_value := snd kv\<rparr>))
      (m\<lparr>m_headers := m_headers m @ kv # hs\<rparr>) rest"
    using Cons by (simp add: add_header_def dict_insert_def)
  finally show ?case by (simp add: last_header_def)
qed

lemma run_request_line:
  assumes ok: "line_ok meth resource query"
    and v: "digits ma" "ma \<noteq> []" "digits mi" "mi \<noteq> []" "(of_nat (dec_value ma) :: 16 word) \<noteq> 0"
    and p: "hp_headers_state p = PARSE_METHOD_START" "hp_query_string p = []" "no_raw p"
    and m: "m_first_line m = []"
  shows "run_headers p m (request_line meth resource query ma mi @ rest)
       = run_headers
           (p\<lparr>hp_headers_state := PARSE_HEADER_START, hp_method := meth, hp_resource := resource,
              hp_query_string := query\<rparr>)
           (m\<lparr>m_version_major := of_nat (dec_value ma), m_version_minor := of_nat (dec_value mi)\<rparr>) rest"
proof -
  obtain c cs where c: "meth = c # cs" using ok by (cases meth) (auto simp: line_ok_def)
  have tok: "\<not> not_token c" "token_text cs" "length [c] + length cs \<le> METHOD_MAX"
    using ok c by (auto simp: line_ok_def token_text_def)
  let ?v = "''HTTP/'' @ ma @ ''.'' @ mi @ CR # LF # rest"
  let ?q = "if query \<noteq> [] then ''?'' @ query else []"
  let ?p1 = "p\<lparr>hp_headers_state := PARSE_URI_STEM, hp_method := meth, hp_resource := resource\<rparr>"
  have "run_headers p m (request_line meth resource query ma mi @ rest)
      = run_headers (p\<lparr>hp_headers_state := PARSE_URI_STEM, hp_method := meth, hp_resource := []\<rparr>) m
          (resource @ ?q @ SP # ?v)"
    using p tok c
    by (simp add: request_line_def header_step_def on_method_start_def token_chars run_method on_method_def goto_first)
  also have "\<dots> = run_headers ?p1 m (?q @ SP # ?v)"
    using ok p by (simp add: run_resource line_ok_def goto_first)
  also have "\<dots> = run_headers (?p1\<lparr>hp_headers_state := PARSE_HTTP_VERSION_H, hp_query_string := query\<rparr>) m ?v"
  proof (cases "query = []")
    case True
    with p show ?thesis by (simp add: header_step_def on_uri_stem_def goto_first same_field)
  next
    case False
    with ok p show ?thesis
      by (simp add: header_step_def on_uri_stem_def run_query line_ok_def on_uri_query_def goto_first)
  qed
  also have "\<dots> = run_headers
      (goto PARSE_EXPECTING_NEWLINE (?p1\<lparr>hp_headers_state := PARSE_HTTP_VERSION_H, hp_query_string := query\<rparr>))
      (m\<lparr>m_version_major := of_nat (dec_value ma), m_version_minor := of_nat (dec_value mi)\<rparr>) (LF # rest)"
    by (rule run_version) (use v p m in simp_all)
  also have "\<dots> = run_headers
           (p\<lparr>hp_headers_state := PARSE_HEADER_START, hp_method := meth, hp_resource := resource,
              hp_query_string := query\<rparr>)
           (m\<lparr>m_version_major := of_nat (dec_value ma), m_version_minor := of_nat (dec_value mi)\<rparr>) rest"
    using v p by (simp add: header_step_def on_expecting_newline_def goto_first)
  finally show ?thesis .
qed

section \<open>What is written\<close>

lemma digit_header_char: "is_digit (char_value c) \<Longrightarrow> \<not> is_control (char_value c)"
  by (auto simp: is_digit_def is_control_def)

lemma dec_string_length: "n < 10 ^ k \<Longrightarrow> 0 < k \<Longrightarrow> length (dec_string n) \<le> k"
proof (induction n arbitrary: k rule: dec_string.induct)
  case (1 n)
  show ?case
  proof (cases "n < 10")
    case True
    with 1 show ?thesis by (subst dec_string.simps) simp
  next
    case False
    then obtain j where j: "k = Suc j" "0 < j"
      using 1(2,3) by (cases k; cases "k - 1") auto
    with 1(2) have "n div 10 < 10 ^ j" by simp
    with 1(1) False j show ?thesis by (subst dec_string.simps) simp
  qed
qed

lemma header_ok_content_length:
  assumes "token_text k" "k \<noteq> []" "length k \<le> HEADER_NAME_MAX" and "n < 2 ^ 64"
  shows "header_ok (k, dec_string n)"
proof -
  have "n < 10 ^ 20" using assms(4) by simp
  then have "length (dec_string n) \<le> 20" by (rule dec_string_length) simp
  moreover have "header_text (dec_string n)"
    using dec_string_digits [of n] by (auto simp: header_text_def list_all_iff digit_header_char)
  ultimately show ?thesis using assms by (simp add: header_ok_def HEADER_VALUE_MAX_def)
qed

lemmas header_name_consts =
  HEADER_CONNECTION_def HEADER_TRANSFER_ENCODING_def HEADER_CONTENT_LENGTH_def

context sl_env
begin

lemma change_value_ok:
  assumes "list_all header_ok d" and "header_ok (k, v)"
  shows "list_all header_ok (change_value E d k v)"
proof (cases "equal_range E d k")
  case Nil
  with assms show ?thesis by (simp add: change_value_def dict_insert_def)
next
  case (Cons kv rest)
  then have "kv \<in> set d" using equal_range_mem [of kv d k] by simp
  with assms Cons show ?thesis
    by (auto simp: change_value_def header_ok_def list_all_iff)
qed

lemma prepare_headers_ok:
  assumes dec: "\<And>n. to_string E n = dec_string n" and hs: "list_all header_ok (m_headers m)"
    and n: "m_content_length m < 2 ^ 64"
  shows "list_all header_ok (m_headers (prepare_headers_for_send E ka uc m))"
proof -
  have names: "token_text HEADER_CONNECTION" "token_text HEADER_TRANSFER_ENCODING"
    "token_text HEADER_CONTENT_LENGTH"
    by (simp_all add: token_text_def not_token_def is_char_def is_control_def is_special_def
        char_value_def header_name_consts)
  have vals: "header_text ''Keep-Alive''" "header_text ''close''" "header_text ''chunked''"
    by (simp_all add: header_text_def is_control_def char_value_def)
  have fixed: "header_ok (HEADER_CONNECTION, ''Keep-Alive'')" "header_ok (HEADER_CONNECTION, ''close'')"
    "header_ok (HEADER_TRANSFER_ENCODING, ''chunked'')"
    using names vals
    by (simp_all add: header_ok_def HEADER_NAME_MAX_def HEADER_VALUE_MAX_def header_name_consts)
  have len: "header_ok (HEADER_CONTENT_LENGTH, dec_string (m_content_length m))"
    by (rule header_ok_content_length)
       (use names n in \<open>simp_all add: header_name_consts HEADER_NAME_MAX_def\<close>)
  show ?thesis
    using hs fixed len
    by (auto simp: prepare_headers_for_send_def Let_def change_header_def dec intro!: change_value_ok)
qed

end

lemma concat_append_headers:
  "concat (append_headers E m wb) = concat wb @ header_lines (bucket_order E (m_headers m)) @ [CR, LF]"
proof -
  have "concat (concat (map (\<lambda>kv. [fst kv, HEADER_NAME_VALUE_DELIMITER, snd kv, STRING_CRLF]) hs))
      = header_lines hs" for hs :: dict
    by (induction hs) (simp_all add: header_lines_def HEADER_NAME_VALUE_DELIMITER_def STRING_CRLF_def)
  then show ?thesis by (simp add: append_headers_def STRING_CRLF_def)
qed

text \<open>The head a request writes, as text.\<close>

lemma prepared_head:
  assumes "\<And>n. to_string E n = dec_string n" and "m_first_line q = []"
    and "prepare_buffers_for_send E (request_update_first_line E) ka uc q [] = (bufs, q')"
  shows "concat bufs =
      request_line (rq_method q) (rq_resource q) (rq_query_string q)
        (dec_string (unat (m_version_major q))) (dec_string (unat (m_version_minor q)))
      @ header_lines (bucket_order E (m_headers q')) @ [CR, LF]"
    and "m_headers q' = m_headers (prepare_headers_for_send E ka uc q)"
proof -
  let ?m1 = "prepare_headers_for_send E ka uc q"
  have keep: "m_first_line ?m1 = []" "rq_method ?m1 = rq_method q" "rq_resource ?m1 = rq_resource q"
    "rq_query_string ?m1 = rq_query_string q" "m_version_major ?m1 = m_version_major q"
    "m_version_minor ?m1 = m_version_minor q"
    using assms(2) by (simp_all add: prepare_headers_for_send_def Let_def change_header_def)
  have q': "q' = ?m1\<lparr>m_first_line := request_update_first_line E ?m1\<rparr>"
    and bufs: "bufs = append_headers E q' [request_update_first_line E ?m1, STRING_CRLF]"
    using assms(3) keep
    by (auto simp: prepare_buffers_for_send_def get_first_line_def append_cookie_headers_base_def Let_def)
  show "m_headers q' = m_headers ?m1" by (simp add: q')
  show "concat bufs =
      request_line (rq_method q) (rq_resource q) (rq_query_string q)
        (dec_string (unat (m_version_major q))) (dec_string (unat (m_version_minor q)))
      @ header_lines (bucket_order E (m_headers q')) @ [CR, LF]"
    by (simp add: bufs concat_append_headers request_line_def request_update_first_line_def keep
        get_version_string_def assms(1) STRING_HTTP_VERSION_def STRING_CRLF_def)
qed

lemma run_request_head:
  assumes "line_ok meth resource query" and "list_all header_ok hs" and "ver \<noteq> 0"
    and "hp_headers_state p = PARSE_METHOD_START" "hp_query_string p = []" "no_raw p"
    and "m_first_line m = []" "m_headers m = []"
  shows "run_headers p m (request_line meth resource query (dec_string (unat (ver :: 16 word)))
           (dec_string (unat (sub :: 16 word))) @ header_lines hs @ CR # LF # body)
       = R_done body
           ((last_header hs (p\<lparr>hp_method := meth, hp_resource := resource, hp_query_string := query\<rparr>))
              \<lparr>hp_headers_state := PARSE_EXPECTING_FINAL_NEWLINE\<rparr>)
           (m\<lparr>m_version_major := ver, m_version_minor := sub, m_headers := hs\<rparr>)"
proof -
  let ?p1 = "p\<lparr>hp_headers_state := PARSE_HEADER_START, hp_method := meth, hp_resource := resource,
      hp_query_string := query\<rparr>"
  let ?m1 = "m\<lparr>m_version_major := ver, m_version_minor := sub\<rparr>"
  have "run_headers p m (request_line meth resource query (dec_string (unat ver))
           (dec_string (unat sub)) @ header_lines hs @ CR # LF # body)
      = run_headers ?p1 ?m1 (header_lines hs @ CR # LF # body)"
    using assms by (simp add: run_request_line dec_string_digits)
  also have "\<dots> = run_headers (last_header hs ?p1) (?m1\<lparr>m_headers := hs\<rparr>) (CR # LF # body)"
    using assms by (simp add: run_header_lines)
  also have "\<dots> = R_done body (goto PARSE_EXPECTING_FINAL_NEWLINE (last_header hs ?p1)) (?m1\<lparr>m_headers := hs\<rparr>)"
    using assms
    by (simp add: last_header_def header_step_def on_header_start_def on_expecting_final_newline_def)
  finally show ?thesis by (simp add: last_header_def)
qed

section \<open>Properties\<close>

lemma fresh_parser_simps [simp]:
  "hp_headers_state (new_http_parser g1 g2 mx) = PARSE_METHOD_START"
  "hp_query_string (new_http_parser g1 g2 mx) = []"
  "no_raw (new_http_parser g1 g2 mx)"
  "hp_bytes_total_read (new_http_parser g1 g2 mx) = 0"
  by (simp_all add: new_http_parser_def)

lemma fresh_request_simps [simp]:
  "m_first_line (new_http_request g) = []" "m_headers (new_http_request g) = []"
  by (simp_all add: new_http_request_def new_http_message_def http_message.defs)

text \<open>
  C1: a request head written by \<open>prepare_buffers_for_send\<close> is read back by \<open>parse_headers\<close> and
  \<open>update_message_with_header_data\<close>: same method, resource, query string and version, the same
  headers (the ones added for sending included), and the bytes after the head are left in
  the buffer.
\<close>

theorem request_head_roundtrip:
  assumes "sl_env E" and "\<And>n. to_string E n = dec_string n"
    and "line_ok (rq_method q) (rq_resource q) (rq_query_string q)"
    and "list_all header_ok (m_headers q)" and "m_version_major q \<noteq> 0"
    and "m_first_line q = []" and "m_content_length q < 2 ^ 64"
    and "prepare_buffers_for_send E (request_update_first_line E) ka uc q [] = (bufs, q')"
  shows "\<exists>p' m'. parse_headers (set_read_buffer (concat bufs @ body) (new_http_parser g1 g2 mx))
             (new_http_request g) None = (TTrue, None, p', m')
           \<and> hp_read p' = body \<and> gcount p' = length (concat bufs)
           \<and> (let r = update_message_with_header_data E p' m' in
                rq_method r = rq_method q \<and> rq_resource r = rq_resource q
                \<and> rq_query_string r = rq_query_string q
                \<and> m_version_major r = m_version_major q \<and> m_version_minor r = m_version_minor q
                \<and> mset (m_headers r) = mset (m_headers q'))"
proof -
  note head = prepared_head [OF assms(2,6,8)]
  have "list_all header_ok (m_headers q')"
    using sl_env.prepare_headers_ok [OF assms(1,2,4,7)] head(2) by simp
  then have ok: "list_all header_ok (bucket_order E (m_headers q'))"
    using sl_env.set_bucket_order [OF assms(1)] by (simp add: list_all_iff)
  let ?p = "(set_read_buffer (concat bufs @ body) (new_http_parser g1 g2 mx))\<lparr>hp_bytes_last_read := 0\<rparr>"
  have "run_headers ?p (new_http_request g) (concat bufs @ body) = R_done body
      ((last_header (bucket_order E (m_headers q')) (?p\<lparr>hp_method := rq_method q,
          hp_resource := rq_resource q, hp_query_string := rq_query_string q\<rparr>))
            \<lparr>hp_headers_state := PARSE_EXPECTING_FINAL_NEWLINE\<rparr>)
      ((new_http_request g)\<lparr>m_version_major := m_version_major q, m_version_minor := m_version_minor q,
          m_headers := bucket_order E (m_headers q')\<rparr>)"
    unfolding head(1) using assms(3,5) ok by (simp add: run_request_head set_read_buffer_def)
  then show ?thesis
    using sl_env.bucket_mset [OF assms(1)]
    by (simp add: parse_headers_def set_read_buffer_def parse_headers_loop_run finish_read_def
        gcount_def update_message_with_header_data_def Let_def set_method_def set_resource_def
        set_query_string_def clear_first_line_def last_header_def)
qed

definition sample_request :: http_request where
  "sample_request = (new_http_request False)
     \<lparr>rq_resource := ''/a'', rq_query_string := ''x=1'', m_headers := [(''Host'', ''h'')]\<rparr>"

theorem request_head_roundtrip_witness:
  "\<exists>p' m'. parse_headers (set_read_buffer
       (concat (fst (prepare_buffers_for_send utils_ref (request_update_first_line utils_ref)
          True False sample_request [])) @ ''xyz'') (new_http_parser 0 0 100))
       (new_http_request False) None = (TTrue, None, p', m')
     \<and> hp_read p' = ''xyz'' \<and> rq_resource (update_message_with_header_data utils_ref p' m') = ''/a''"
proof -
  let ?S = "prepare_buffers_for_send utils_ref (request_update_first_line utils_ref) True False sample_request []"
  have ok: "line_ok (rq_method sample_request) (rq_resource sample_request) (rq_query_string sample_request)"
    "list_all header_ok (m_headers sample_request)"
    by (simp_all add: sample_request_def new_http_request_def new_http_message_def http_message.defs
        line_ok_def token_text_def not_token_def is_char_def is_control_def is_special_def char_value_def
        no_control_def METHOD_MAX_def RESOURCE_MAX_def QUERY_STRING_MAX_def header_ok_def header_text_def
        HEADER_NAME_MAX_def HEADER_VALUE_MAX_def REQUEST_METHOD_GET_def)
  have rest: "m_version_major sample_request \<noteq> 0" "m_first_line sample_request = []"
    "m_content_length sample_request < 2 ^ 64"
    by (simp_all add: sample_request_def new_http_request_def new_http_message_def http_message.defs)
  have env: "sl_env utils_ref" "\<And>n. to_string utils_ref n = dec_string n"
    by (simp_all add: ref.sl_env_axioms)
  have "?S = (fst ?S, snd ?S)" by simp
  from request_head_roundtrip [OF env ok rest this]
  have "\<exists>p' m'. parse_headers (set_read_buffer (concat (fst ?S) @ ''xyz'') (new_http_parser 0 0 100))
       (new_http_request False) None = (TTrue, None, p', m') \<and> hp_read p' = ''xyz''
     \<and> rq_resource (update_message_with_header_data utils_ref p' m') = rq_resource sample_request"
    unfolding Let_def by blast
  then show ?thesis by (simp add: sample_request_def)
qed

lemma run_simple_line:
  assumes "line_ok meth resource []" and "hp_headers_state p = PARSE_METHOD_START" "no_raw p"
  shows "run_headers p m (meth @ '' '' @ resource @ rest)
       = run_headers (p\<lparr>hp_headers_state := PARSE_URI_STEM, hp_method := meth, hp_resource := resource\<rparr>)
           m rest"
proof -
  obtain c cs where c: "meth = c # cs" using assms(1) by (cases meth) (auto simp: line_ok_def)
  have tok: "\<not> not_token c" "token_text cs" "length [c] + length cs \<le> METHOD_MAX"
    using assms(1) c by (auto simp: line_ok_def token_text_def)
  have "run_headers p m (meth @ '' '' @ resource @ rest)
      = run_headers (p\<lparr>hp_headers_state := PARSE_URI_STEM, hp_method := meth, hp_resource := []\<rparr>) m
          (resource @ rest)"
    using assms(2,3) tok c
    by (simp add: header_step_def on_method_start_def token_chars run_method on_method_def goto_first)
  then show ?thesis using assms by (simp add: run_resource line_ok_def goto_first)
qed

lemma versionless_request_cases:
  assumes "line_ok meth resource []"
    and "p = new_http_parser g1 g2 mx" and "m = new_http_request g"
  shows "\<exists>p' m'. parse_headers (set_read_buffer (meth @ '' '' @ resource @ [CR, LF] @ body) p) m None
             = (TTrue, None, p', m')
           \<and> hp_read p' = body \<and> hp_method p' = meth \<and> hp_resource p' = resource
           \<and> m_version_major m' = 0 \<and> m_version_minor m' = 0 \<and> m_headers m' = []"
    and "\<exists>p' m'. parse_headers (set_read_buffer (meth @ '' '' @ resource @ [SP, CR, LF] @ body) p) m None
             = (TFalse, Some ERROR_VERSION_CHAR, p', m')"
proof -
  let ?q = "\<lambda>s. (set_read_buffer s p)\<lparr>hp_bytes_last_read := 0\<rparr>"
  have line: "run_headers (?q s) m (meth @ '' '' @ resource @ rest)
      = run_headers ((?q s)\<lparr>hp_headers_state := PARSE_URI_STEM, hp_method := meth,
           hp_resource := resource\<rparr>) m rest" for s rest
    by (rule run_simple_line) (use assms in \<open>simp_all add: set_read_buffer_def\<close>)
  show "\<exists>p' m'. parse_headers (set_read_buffer (meth @ '' '' @ resource @ [CR, LF] @ body) p) m None
             = (TTrue, None, p', m')
           \<and> hp_read p' = body \<and> hp_method p' = meth \<and> hp_resource p' = resource
           \<and> m_version_major m' = 0 \<and> m_version_minor m' = 0 \<and> m_headers m' = []"
    using line [of "meth @ '' '' @ resource @ [CR, LF] @ body" "[CR, LF] @ body"] assms
    by (simp add: parse_headers_def set_read_buffer_def parse_headers_loop_run finish_read_def
        header_step_def on_uri_stem_def on_expecting_newline_def set_version_0_0_def)
  show "\<exists>p' m'. parse_headers (set_read_buffer (meth @ '' '' @ resource @ [SP, CR, LF] @ body) p) m None
             = (TFalse, Some ERROR_VERSION_CHAR, p', m')"
    using line [of "meth @ '' '' @ resource @ [SP, CR, LF] @ body" "[SP, CR, LF] @ body"] assms
    by (simp add: parse_headers_def set_read_buffer_def parse_headers_loop_run finish_read_def
        header_step_def on_uri_stem_def on_version_h_def on_version_t_1_def)
qed

text \<open>
  C39: a request line that ends after the resource (\<open>GET /x\<close> CR LF) is accepted as a complete
  head of version 0.0 and leaves the following bytes alone; the same line with a blank before
  the CR is rejected with \<open>ERROR_VERSION_CHAR\<close>, since the state set for the CR is overwritten.
\<close>

theorem versionless_request:
  assumes "line_ok meth resource []"
    and "p = new_http_parser g1 g2 mx" and "m = new_http_request g"
  shows "(\<exists>p' m'. parse_headers (set_read_buffer (meth @ '' '' @ resource @ [CR, LF] @ body) p) m None
              = (TTrue, None, p', m')
            \<and> hp_read p' = body \<and> hp_method p' = meth \<and> hp_resource p' = resource
            \<and> m_version_major m' = 0 \<and> m_version_minor m' = 0 \<and> m_headers m' = [])
       \<and> (\<exists>p' m'. parse_headers (set_read_buffer (meth @ '' '' @ resource @ [SP, CR, LF] @ body) p) m None
              = (TFalse, Some ERROR_VERSION_CHAR, p', m'))"
  using versionless_request_cases [OF assms, of body] by (rule conjI)

theorem versionless_request_witness:
  "\<exists>p' m'. parse_headers (set_read_buffer (''GET /x'' @ [CR, LF]) (new_http_parser 0 0 9))
       (new_http_request False) None = (TTrue, None, p', m') \<and> hp_resource p' = ''/x''"
proof -
  have "line_ok ''GET'' ''/x'' []"
    by (simp add: line_ok_def token_text_def not_token_def is_char_def is_control_def is_special_def
        char_value_def no_control_def METHOD_MAX_def RESOURCE_MAX_def)
  from versionless_request [OF this refl refl, where body = "[]" and ?g1.0 = 0 and ?g2.0 = 0 and mx = 9 and g = False] show ?thesis by auto
qed

text \<open>
  C40: the version numbers of a request line are the decimal numbers written there modulo
  \<open>2 ^ 16\<close>; a major number that is a multiple of 65536 counts as version 0.
\<close>

theorem version_numbers_wrap:
  assumes "line_ok meth resource query" and "digits ma" "ma \<noteq> []" "digits mi" "mi \<noteq> []"
    and "dec_value ma mod 2 ^ 16 \<noteq> 0"
  shows "\<exists>p' m'. parse_headers (set_read_buffer (request_line meth resource query ma mi)
             (new_http_parser g1 g2 mx)) (new_http_request g) None = (Indeterminate, None, p', m')
           \<and> unat (m_version_major m') = dec_value ma mod 2 ^ 16
           \<and> unat (m_version_minor m') = dec_value mi mod 2 ^ 16
           \<and> hp_method p' = meth \<and> hp_resource p' = resource \<and> hp_query_string p' = query
           \<and> hp_headers_state p' = PARSE_HEADER_START"
proof -
  have nz: "(of_nat (dec_value ma) :: 16 word) \<noteq> 0"
  proof
    assume "(of_nat (dec_value ma) :: 16 word) = 0"
    then have "unat (of_nat (dec_value ma) :: 16 word) = 0" by simp
    with assms(6) show False by (simp add: unat_of_nat)
  qed
  show ?thesis
    using run_request_line [OF assms(1-5) nz, where rest = "[]" and m = "new_http_request g"
        and p = "(set_read_buffer (request_line meth resource query ma mi)
                   (new_http_parser g1 g2 mx))\<lparr>hp_bytes_last_read := 0\<rparr>"]
    by (simp add: parse_headers_def set_read_buffer_def parse_headers_loop_run finish_read_def unat_of_nat)
qed

theorem version_numbers_wrap_witness:
  "\<exists>p' m'. parse_headers (set_read_buffer (request_line ''GET'' ''/x'' [] ''65537'' ''1'')
       (new_http_parser 0 0 9)) (new_http_request False) None = (Indeterminate, None, p', m')
     \<and> unat (m_version_major m') = 1"
proof -
  have ok: "line_ok ''GET'' ''/x'' []" "digits ''65537''" "''65537'' \<noteq> []" "digits ''1''" "''1'' \<noteq> []"
    by (simp_all add: line_ok_def token_text_def not_token_def is_char_def is_control_def is_special_def
        char_value_def no_control_def METHOD_MAX_def RESOURCE_MAX_def is_digit_def)
  have "dec_value ''65537'' = 65537" by (simp add: dec_value_def digit_of_def char_value_def)
  with version_numbers_wrap [OF ok] show ?thesis by fastforce
qed

end
