(* ===== verification/Chunk_Parser.thy ===== *)
theory Chunk_Parser
  imports Head_Roundtrip
begin

text \<open>
  \<open>http_parser::parse_chunks\<close>: the loop over a chunked body, one definition per \<open>case\<close> of the
  \<open>switch\<close>, with or without a payload handler.
\<close>

section \<open>One byte\<close>

text \<open>
  A \<open>case\<close> ends by \<open>break\<close> (\<open>C_next k\<close>: the byte and the \<open>k\<close> bytes after it are consumed),
  by \<open>return true\<close> (\<open>C_done\<close>, the flag saying whether the byte was consumed), by
  \<open>set_error\<close> and \<open>return false\<close> (\<open>C_error\<close>), or by the exception of the payload handler
  (\<open>C_throw\<close>). The last component is the vector \<open>chunks\<close>.
\<close>

datatype chunk_result =
    C_next nat http_parser byte_string
  | C_done bool http_parser byte_string
  | C_error error_value_t http_parser byte_string
  | C_throw http_parser byte_string

abbreviation goto_chunk :: "chunk_parse_state_type \<Rightarrow> http_parser \<Rightarrow> http_parser" where
  "goto_chunk st p \<equiv> p\<lparr>hp_chunk_state := st\<rparr>"

text \<open>
  \<open>strtol(s, 0, 16)\<close> on a string of hexadecimal digits: the value, or \<open>LONG_MAX\<close> (64 bit
  \<open>long\<close>) when it is too large.
\<close>

definition hex_digit_value :: "char \<Rightarrow> nat" where
  "hex_digit_value c =
     nat (if char_value c \<le> 57 then char_value c - 48
          else if char_value c \<le> 70 then char_value c - 55 else char_value c - 87)"

definition strtol_16 :: "byte_string \<Rightarrow> nat" where
  "strtol_16 s = min (digits_value 16 0 (map hex_digit_value s)) (2 ^ 63 - 1)"

definition on_chunk_size_start :: "char \<Rightarrow> http_parser \<Rightarrow> byte_string \<Rightarrow> chunk_result" where
  "on_chunk_size_start c p chunks =
     (if is_hex_digit (char_value c)
      then C_next 0 (p\<lparr>hp_chunk_size_str := [c], hp_chunk_state := PARSE_CHUNK_SIZE\<rparr>) chunks
      else if c = SP \<or> c = TAB \<or> c = CR \<or> c = LF then C_next 0 p chunks
      else C_error ERROR_CHUNK_CHAR p chunks)"

definition on_chunk_size :: "char \<Rightarrow> http_parser \<Rightarrow> byte_string \<Rightarrow> chunk_result" where
  "on_chunk_size c p chunks =
     (if is_hex_digit (char_value c)
      then C_next 0 (p\<lparr>hp_chunk_size_str := hp_chunk_size_str p @ [c]\<rparr>) chunks
      else if c = CR then C_next 0 (goto_chunk PARSE_EXPECTING_LF_AFTER_CHUNK_SIZE p) chunks
      else if c = SP \<or> c = TAB
      then C_next 0 (goto_chunk PARSE_EXPECTING_CR_AFTER_CHUNK_SIZE p) chunks
      else if c = CHR '';''
      then C_next 0 (goto_chunk PARSE_EXPECTING_IGNORED_TEXT_AFTER_CHUNK_SIZE p) chunks
      else C_error ERROR_CHUNK_CHAR p chunks)"

definition on_ignored_text :: "char \<Rightarrow> http_parser \<Rightarrow> byte_string \<Rightarrow> chunk_result" where
  "on_ignored_text c p chunks =
     (if c = CR then C_next 0 (goto_chunk PARSE_EXPECTING_LF_AFTER_CHUNK_SIZE p) chunks
      else C_next 0 p chunks)"

definition on_cr_after_chunk_size :: "char \<Rightarrow> http_parser \<Rightarrow> byte_string \<Rightarrow> chunk_result" where
  "on_cr_after_chunk_size c p chunks =
     (if c = CR then C_next 0 (goto_chunk PARSE_EXPECTING_LF_AFTER_CHUNK_SIZE p) chunks
      else if c = SP \<or> c = TAB then C_next 0 p chunks
      else C_error ERROR_CHUNK_CHAR p chunks)"

definition on_lf_after_chunk_size :: "char \<Rightarrow> http_parser \<Rightarrow> byte_string \<Rightarrow> chunk_result" where
  "on_lf_after_chunk_size c p chunks =
     (if c = LF then
        (let size = strtol_16 (hp_chunk_size_str p);
             p1 = p\<lparr>hp_bytes_read_in_current_chunk := 0, hp_size_of_current_chunk := size\<rparr>
         in if size = 0
            then C_next 0 (goto_chunk PARSE_EXPECTING_FINAL_CR_OR_FOOTERS_AFTER_LAST_CHUNK p1) chunks
            else C_next 0 (goto_chunk PARSE_CHUNK p1) chunks)
      else C_error ERROR_CHUNK_CHAR p chunks)"

text \<open>The test after the \<open>if\<close> of \<open>PARSE_CHUNK\<close>: is the chunk complete?\<close>

definition chunk_complete :: "http_parser \<Rightarrow> http_parser" where
  "chunk_complete p =
     (if hp_bytes_read_in_current_chunk p = hp_size_of_current_chunk p
      then goto_chunk PARSE_EXPECTING_CR_AFTER_CHUNK p else p)"

definition on_chunk :: "char \<Rightarrow> byte_string \<Rightarrow> http_parser \<Rightarrow> byte_string \<Rightarrow> chunk_result" where
  "on_chunk c rest p chunks =
     (if hp_bytes_read_in_current_chunk p < hp_size_of_current_chunk p then
        (case hp_payload_handler p of
           Some h \<Rightarrow>
             (let bytes_avail = length (c # rest);
                  bytes_in_chunk = hp_size_of_current_chunk p - hp_bytes_read_in_current_chunk p;
                  len = (if bytes_in_chunk > bytes_avail then bytes_avail else bytes_in_chunk);
                  block = take len (c # rest);
                  p1 = p\<lparr>hp_payload_log := hp_payload_log p @ [block]\<rparr>
              in if h (hp_payload_log p) block
                 then C_next (if len > 1 then len - 1 else 0)
                        (chunk_complete (p1\<lparr>hp_bytes_read_in_current_chunk :=
                           hp_bytes_read_in_current_chunk p + len\<rparr>)) chunks
                 else C_throw p1 chunks)
         | None \<Rightarrow>
             (if length chunks < hp_max_content_length p
              then C_next 0 (chunk_complete (p\<lparr>hp_bytes_read_in_current_chunk :=
                     hp_bytes_read_in_current_chunk p + 1\<rparr>)) (chunks @ [c])
              else C_next 0 (chunk_complete p) chunks))
      else C_next 0 (chunk_complete p) chunks)"

definition on_cr_after_chunk :: "char \<Rightarrow> http_parser \<Rightarrow> byte_string \<Rightarrow> chunk_result" where
  "on_cr_after_chunk c p chunks =
     (if c = CR then C_next 0 (goto_chunk PARSE_EXPECTING_LF_AFTER_CHUNK p) chunks
      else C_error ERROR_CHUNK_CHAR p chunks)"

definition on_lf_after_chunk :: "char \<Rightarrow> http_parser \<Rightarrow> byte_string \<Rightarrow> chunk_result" where
  "on_lf_after_chunk c p chunks =
     (if c = LF then C_next 0 (goto_chunk PARSE_CHUNK_SIZE_START p) chunks
      else C_error ERROR_CHUNK_CHAR p chunks)"

definition on_final_cr_or_footers :: "char \<Rightarrow> http_parser \<Rightarrow> byte_string \<Rightarrow> chunk_result" where
  "on_final_cr_or_footers c p chunks =
     (if c = CR then C_next 0 (goto_chunk PARSE_EXPECTING_FINAL_LF_AFTER_LAST_CHUNK p) chunks
      else C_done False (p\<lparr>hp_message_state := PARSE_FOOTERS, hp_headers_state := PARSE_HEADER_START\<rparr>) chunks)"

definition on_final_lf :: "char \<Rightarrow> http_parser \<Rightarrow> byte_string \<Rightarrow> chunk_result" where
  "on_final_lf c p chunks =
     (if c = LF then C_done True p chunks else C_error ERROR_CHUNK_CHAR p chunks)"

definition chunk_step :: "char \<Rightarrow> byte_string \<Rightarrow> http_parser \<Rightarrow> byte_string \<Rightarrow> chunk_result" where
  "chunk_step c rest p chunks =
     (case hp_chunk_state p of
        PARSE_CHUNK_SIZE_START \<Rightarrow> on_chunk_size_start c p chunks
      | PARSE_CHUNK_SIZE \<Rightarrow> on_chunk_size c p chunks
      | PARSE_EXPECTING_IGNORED_TEXT_AFTER_CHUNK_SIZE \<Rightarrow> on_ignored_text c p chunks
      | PARSE_EXPECTING_CR_AFTER_CHUNK_SIZE \<Rightarrow> on_cr_after_chunk_size c p chunks
      | PARSE_EXPECTING_LF_AFTER_CHUNK_SIZE \<Rightarrow> on_lf_after_chunk_size c p chunks
      | PARSE_CHUNK \<Rightarrow> on_chunk c rest p chunks
      | PARSE_EXPECTING_CR_AFTER_CHUNK \<Rightarrow> on_cr_after_chunk c p chunks
      | PARSE_EXPECTING_LF_AFTER_CHUNK \<Rightarrow> on_lf_after_chunk c p chunks
      | PARSE_EXPECTING_FINAL_CR_OR_FOOTERS_AFTER_LAST_CHUNK \<Rightarrow> on_final_cr_or_footers c p chunks
      | PARSE_EXPECTING_FINAL_LF_AFTER_LAST_CHUNK \<Rightarrow> on_final_lf c p chunks)"

section \<open>The loop\<close>

definition finish_content :: "nat \<Rightarrow> byte_string \<Rightarrow> http_parser \<Rightarrow> http_parser" where
  "finish_content n rest p =
     p\<lparr>hp_read := rest, hp_bytes_last_read := n, hp_bytes_total_read := hp_bytes_total_read p + n,
       hp_bytes_content_read := hp_bytes_content_read p + n\<rparr>"

text \<open>The first component is \<open>None\<close> when the exception of the payload handler leaves the loop.\<close>

function parse_chunks_loop ::
  "nat \<Rightarrow> http_parser \<Rightarrow> byte_string \<Rightarrow> error_code \<Rightarrow> byte_string
   \<Rightarrow> tribool option \<times> error_code \<times> http_parser \<times> byte_string"
where
  "parse_chunks_loop n p chunks ec [] = (Some Indeterminate, ec, finish_content n [] p, chunks)"
| "parse_chunks_loop n p chunks ec (c # cs) =
     (case chunk_step c cs p chunks of
        C_next k p' chunks' \<Rightarrow> parse_chunks_loop (n + 1 + k) p' chunks' ec (drop k cs)
      | C_done True p' chunks' \<Rightarrow> (Some TTrue, ec, finish_content (n + 1) cs p', chunks')
      | C_done False p' chunks' \<Rightarrow> (Some TTrue, ec, finish_content n (c # cs) p', chunks')
      | C_error e p' chunks' \<Rightarrow> (Some TFalse, Some e, p'\<lparr>hp_read := c # cs\<rparr>, chunks')
      | C_throw p' chunks' \<Rightarrow> (None, ec, p'\<lparr>hp_read := c # cs\<rparr>, chunks'))"
  by pat_completeness auto
termination
  by (relation "measure (\<lambda>(n, p, chunks, ec, bs). length bs)") auto

definition parse_chunks ::
  "http_parser \<Rightarrow> byte_string \<Rightarrow> error_code
   \<Rightarrow> tribool option \<times> error_code \<times> http_parser \<times> byte_string" where
  "parse_chunks p chunks ec = parse_chunks_loop 0 (p\<lparr>hp_bytes_last_read := 0\<rparr>) chunks ec (hp_read p)"

lemmas chunk_case_defs =
  on_chunk_size_start_def on_chunk_size_def on_ignored_text_def on_cr_after_chunk_size_def
  on_lf_after_chunk_size_def on_chunk_def on_cr_after_chunk_def on_lf_after_chunk_def
  on_final_cr_or_footers_def on_final_lf_def

end
