(* ===== verification/Chunk_Run.thy ===== *)
theory Chunk_Run
  imports Chunk_Parser
begin

text \<open>
  The chunk loop as a run of \<open>chunk_step\<close> without position and counters: the link to
  \<open>parse_chunks\<close>, independence of the split of the input, bounds, and the parse of a chunked
  body.
\<close>

section \<open>Runs\<close>

datatype chunk_run =
    K_more http_parser byte_string
  | K_done byte_string http_parser byte_string
  | K_error error_value_t byte_string http_parser byte_string
  | K_throw byte_string http_parser byte_string

function run_chunks :: "http_parser \<Rightarrow> byte_string \<Rightarrow> byte_string \<Rightarrow> chunk_run" where
  "run_chunks p ch [] = K_more p ch"
| "run_chunks p ch (c # cs) =
     (case chunk_step c cs p ch of
        C_next k p' ch' \<Rightarrow> run_chunks p' ch' (drop k cs)
      | C_done adv p' ch' \<Rightarrow> K_done (if adv then cs else c # cs) p' ch'
      | C_error e p' ch' \<Rightarrow> K_error e (c # cs) p' ch'
      | C_throw p' ch' \<Rightarrow> K_throw (c # cs) p' ch')"
  by pat_completeness auto
termination
  by (relation "measure (\<lambda>(p, ch, bs). length bs)") auto

lemma suffix_drop_Cons: "suffix r (drop k cs) \<Longrightarrow> suffix r (c # cs)"
  by (meson suffix_ConsI suffix_drop suffix_order.trans)

lemma run_chunks_done_suffix: "run_chunks p ch s = K_done rest p' ch' \<Longrightarrow> suffix rest s"
  by (induction p ch s rule: run_chunks.induct)
     (auto split: chunk_result.splits if_splits intro: suffix_ConsI suffix_drop_Cons)

lemma chunk_step_extra:
  "chunk_step c rest p ch = C_next k p' ch' \<Longrightarrow> k \<le> length rest"
  by (auto simp: chunk_step_def chunk_case_defs Let_def split: chunk_parse_state_type.splits
      if_splits option.splits)

lemma parse_chunks_loop_run:
  "parse_chunks_loop n p ch ec s =
     (case run_chunks p ch s of
        K_more p' ch' \<Rightarrow> (Some Indeterminate, ec, finish_content (n + length s) [] p', ch')
      | K_done rest p' ch' \<Rightarrow>
          (Some TTrue, ec, finish_content (n + (length s - length rest)) rest p', ch')
      | K_error e rest p' ch' \<Rightarrow> (Some TFalse, Some e, p'\<lparr>hp_read := rest\<rparr>, ch')
      | K_throw rest p' ch' \<Rightarrow> (None, ec, p'\<lparr>hp_read := rest\<rparr>, ch'))"
proof (induction n p ch ec s rule: parse_chunks_loop.induct)
  case (2 n p ch ec c cs)
  show ?case
  proof (cases "chunk_step c cs p ch")
    case (C_next k p' ch')
    have "k \<le> length cs" using C_next by (rule chunk_step_extra)
    with 2 C_next show ?thesis
      by (auto split: chunk_run.splits simp: Suc_diff_le
          dest!: run_chunks_done_suffix suffix_length_le)
  next
    case (C_done adv p' ch')
    then show ?thesis by (cases adv) auto
  qed auto
qed simp

section \<open>Frame\<close>

definition recount :: "byte_string \<Rightarrow> nat \<Rightarrow> nat \<Rightarrow> nat \<Rightarrow> http_parser \<Rightarrow> http_parser" where
  "recount r l t b p =
     p\<lparr>hp_read := r, hp_bytes_last_read := l, hp_bytes_total_read := t, hp_bytes_content_read := b\<rparr>"

fun map_chunk_result :: "(http_parser \<Rightarrow> http_parser) \<Rightarrow> chunk_result \<Rightarrow> chunk_result" where
  "map_chunk_result f (C_next k p ch) = C_next k (f p) ch"
| "map_chunk_result f (C_done b p ch) = C_done b (f p) ch"
| "map_chunk_result f (C_error e p ch) = C_error e (f p) ch"
| "map_chunk_result f (C_throw p ch) = C_throw (f p) ch"

fun map_chunk_run :: "(http_parser \<Rightarrow> http_parser) \<Rightarrow> chunk_run \<Rightarrow> chunk_run" where
  "map_chunk_run f (K_more p ch) = K_more (f p) ch"
| "map_chunk_run f (K_done r p ch) = K_done r (f p) ch"
| "map_chunk_run f (K_error e r p ch) = K_error e r (f p) ch"
| "map_chunk_run f (K_throw r p ch) = K_throw r (f p) ch"

lemma chunk_step_frame:
  "chunk_step c rest (recount r l t b p) ch = map_chunk_result (recount r l t b) (chunk_step c rest p ch)"
  by (cases "hp_chunk_state p")
     (simp_all add: chunk_step_def chunk_case_defs recount_def chunk_complete_def Let_def
        split: option.splits)

lemma run_chunks_frame:
  "run_chunks (recount r l t b p) ch s = map_chunk_run (recount r l t b) (run_chunks p ch s)"
proof (induction p ch s rule: run_chunks.induct)
  case (2 p ch c cs)
  then show ?case by (cases "chunk_step c cs p ch") (simp_all add: chunk_step_frame)
qed simp

lemma recount_sel [simp]:
  "recount r l t b (recount r' l' t' b' p) = recount r l t b p"
  "hp_read (recount r l t b p) = r" "hp_bytes_last_read (recount r l t b p) = l"
  "hp_bytes_total_read (recount r l t b p) = t" "hp_bytes_content_read (recount r l t b p) = b"
  by (simp_all add: recount_def)

lemma parse_chunks_run:
  "parse_chunks (set_read_buffer s p) ch ec =
     (let t = hp_bytes_total_read p; b = hp_bytes_content_read p in
      case run_chunks p ch s of
        K_more p' ch' \<Rightarrow> (Some Indeterminate, ec, recount [] (length s) (t + length s) (b + length s) p', ch')
      | K_done rest p' ch' \<Rightarrow>
          (let n = length s - length rest
           in (Some TTrue, ec, recount rest n (t + n) (b + n) p', ch'))
      | K_error e rest p' ch' \<Rightarrow> (Some TFalse, Some e, recount rest 0 t b p', ch')
      | K_throw rest p' ch' \<Rightarrow> (None, ec, recount rest 0 t b p', ch'))"
proof -
  have start: "(set_read_buffer s p)\<lparr>hp_bytes_last_read := 0\<rparr>
      = recount s 0 (hp_bytes_total_read p) (hp_bytes_content_read p) p"
    by (simp add: set_read_buffer_def recount_def)
  have tail: "finish_content n rest (recount r l t b p') = recount rest n (t + n) (b + n) p'"
    "(recount r l t b p')\<lparr>hp_read := rest\<rparr> = recount rest l t b p'" for n rest r l t b p'
    by (simp_all add: finish_content_def recount_def)
  have "hp_read (set_read_buffer s p) = s" by (simp add: set_read_buffer_def)
  then show ?thesis
    unfolding parse_chunks_def start parse_chunks_loop_run run_chunks_frame
    by (cases "run_chunks p ch s") (simp_all add: tail Let_def)
qed

text \<open>The loop keeps the members of the other phases; footers change the message state.\<close>

definition chunk_frame :: "http_parser \<Rightarrow> http_parser \<Rightarrow> bool" where
  "chunk_frame p q \<longleftrightarrow>
     hp_payload_handler q = hp_payload_handler p
     \<and> hp_bytes_content_remaining q = hp_bytes_content_remaining p
     \<and> hp_max_content_length q = hp_max_content_length p
     \<and> hp_parse_headers_only q = hp_parse_headers_only p
     \<and> hp_save_raw_headers q = hp_save_raw_headers p
     \<and> hp_method q = hp_method p \<and> hp_resource q = hp_resource p
     \<and> hp_query_string q = hp_query_string p \<and> hp_header_name q = hp_header_name p
     \<and> hp_header_value q = hp_header_value p"

fun chunk_result_frame :: "http_parser \<Rightarrow> chunk_result \<Rightarrow> bool" where
  "chunk_result_frame p (C_next k q ch) =
     (chunk_frame p q \<and> hp_message_state q = hp_message_state p \<and> hp_headers_state q = hp_headers_state p)"
| "chunk_result_frame p (C_done b q ch) =
     (chunk_frame p q
      \<and> (hp_message_state q = hp_message_state p \<and> hp_headers_state q = hp_headers_state p
         \<or> hp_message_state q = PARSE_FOOTERS \<and> hp_headers_state q = PARSE_HEADER_START))"
| "chunk_result_frame p (C_error e q ch) =
     (chunk_frame p q \<and> hp_message_state q = hp_message_state p \<and> hp_headers_state q = hp_headers_state p)"
| "chunk_result_frame p (C_throw q ch) =
     (chunk_frame p q \<and> hp_message_state q = hp_message_state p \<and> hp_headers_state q = hp_headers_state p)"

fun chunk_run_frame :: "http_parser \<Rightarrow> chunk_run \<Rightarrow> bool" where
  "chunk_run_frame p (K_more q ch) =
     (chunk_frame p q \<and> hp_message_state q = hp_message_state p \<and> hp_headers_state q = hp_headers_state p)"
| "chunk_run_frame p (K_done r q ch) =
     (chunk_frame p q
      \<and> (hp_message_state q = hp_message_state p \<and> hp_headers_state q = hp_headers_state p
         \<or> hp_message_state q = PARSE_FOOTERS \<and> hp_headers_state q = PARSE_HEADER_START))"
| "chunk_run_frame p (K_error e r q ch) =
     (chunk_frame p q \<and> hp_message_state q = hp_message_state p \<and> hp_headers_state q = hp_headers_state p)"
| "chunk_run_frame p (K_throw r q ch) =
     (chunk_frame p q \<and> hp_message_state q = hp_message_state p \<and> hp_headers_state q = hp_headers_state p)"

lemma chunk_frame_refl [simp]: "chunk_frame p p"
  by (simp add: chunk_frame_def)

lemma chunk_frame_trans: "chunk_frame p q \<Longrightarrow> chunk_frame q r \<Longrightarrow> chunk_frame p r"
  by (simp add: chunk_frame_def)

lemma chunk_step_keeps: "chunk_result_frame p (chunk_step c rest p ch)"
  by (cases "hp_chunk_state p")
     (simp_all add: chunk_step_def chunk_case_defs chunk_frame_def chunk_complete_def Let_def
        split: option.splits)

lemma run_chunks_keeps: "chunk_run_frame p (run_chunks p ch s)"
proof (induction p ch s rule: run_chunks.induct)
  case (2 p ch c cs)
  from 2 chunk_step_keeps [of p c cs ch] show ?case
    by (cases "chunk_step c cs p ch")
       (auto elim!: chunk_run_frame.elims intro: chunk_frame_trans)
qed simp

section \<open>Independence of the split of the input\<close>

text \<open>
  A payload handler gets the bytes of a chunk in blocks that depend on the buffers. \<open>erase\<close>
  forgets the blocks and keeps the bytes; a handler that never throws is \<open>quiet\<close>.
\<close>

definition erase :: "http_parser \<Rightarrow> http_parser" where
  "erase p = p\<lparr>hp_payload_log := [concat (hp_payload_log p)]\<rparr>"

definition quiet :: "http_parser \<Rightarrow> bool" where
  "quiet p \<longleftrightarrow> (case hp_payload_handler p of None \<Rightarrow> True | Some h \<Rightarrow> \<forall>l b. h l b)"

lemma erase_eqD:
  assumes "erase p = erase q"
  shows "\<exists>l. q = p\<lparr>hp_payload_log := l\<rparr> \<and> concat l = concat (hp_payload_log p)"
proof (intro exI conjI)
  show "concat (hp_payload_log q) = concat (hp_payload_log p)"
    using assms by (metis erase_def concat.simps append_Nil2 http_parser.select_convs(6)
        http_parser.surjective http_parser.update_convs(6))
  have "q = (erase q)\<lparr>hp_payload_log := hp_payload_log q\<rparr>" by (simp add: erase_def)
  also have "\<dots> = p\<lparr>hp_payload_log := hp_payload_log q\<rparr>" unfolding assms [symmetric] by (simp add: erase_def)
  finally show "q = p\<lparr>hp_payload_log := hp_payload_log q\<rparr>" .
qed

text \<open>A step inside a chunk with a quiet handler takes as much as there is, up to the chunk end.\<close>

lemma on_chunk_quiet:
  assumes "quiet p" and "hp_payload_handler p = Some h"
    and "hp_bytes_read_in_current_chunk p < hp_size_of_current_chunk p"
    and "n = min (length (c # rest)) (hp_size_of_current_chunk p - hp_bytes_read_in_current_chunk p)"
  shows "on_chunk c rest p ch = C_next (n - 1)
      (chunk_complete (p\<lparr>hp_payload_log := hp_payload_log p @ [take n (c # rest)],
         hp_bytes_read_in_current_chunk := hp_bytes_read_in_current_chunk p + n\<rparr>)) ch"
proof -
  have n: "(if hp_size_of_current_chunk p - hp_bytes_read_in_current_chunk p > length (c # rest)
            then length (c # rest) else hp_size_of_current_chunk p - hp_bytes_read_in_current_chunk p) = n"
    using assms(4) by (simp add: min_def)
  have "h l b" for l b using assms(1,2) by (simp add: quiet_def)
  moreover have "(if n > 1 then n - 1 else 0) = n - 1" by simp
  ultimately show ?thesis
    unfolding on_chunk_def n Let_def using assms(2,3) by (simp only: option.case if_True)
qed

lemma on_chunk_other:
  "hp_payload_handler p = None \<Longrightarrow> on_chunk c rest p ch =
     (if hp_bytes_read_in_current_chunk p < hp_size_of_current_chunk p \<and> length ch < hp_max_content_length p
      then C_next 0 (chunk_complete (p\<lparr>hp_bytes_read_in_current_chunk :=
             hp_bytes_read_in_current_chunk p + 1\<rparr>)) (ch @ [c])
      else C_next 0 (chunk_complete p) ch)"
  "\<not> hp_bytes_read_in_current_chunk p < hp_size_of_current_chunk p
   \<Longrightarrow> on_chunk c rest p ch = C_next 0 (chunk_complete p) ch"
  by (simp_all add: on_chunk_def)

lemma on_chunk_erase:
  assumes "quiet p" and "concat l = concat (hp_payload_log p)"
  shows "map_chunk_result erase (on_chunk c rest (p\<lparr>hp_payload_log := l\<rparr>) ch)
       = map_chunk_result erase (on_chunk c rest p ch)"
proof (cases "hp_payload_handler p = None \<or> \<not> hp_bytes_read_in_current_chunk p < hp_size_of_current_chunk p")
  case True
  with assms show ?thesis by (auto simp: on_chunk_other chunk_complete_def erase_def)
next
  case False
  then obtain h where h: "hp_payload_handler p = Some h" by auto
  have "quiet (p\<lparr>hp_payload_log := l\<rparr>)" using assms(1) by (simp add: quiet_def)
  note sides = on_chunk_quiet [OF this _ _ refl] on_chunk_quiet [OF assms(1) h _ refl]
  show ?thesis using False h assms(2) by (simp add: sides chunk_complete_def erase_def)
qed

lemma chunk_step_erase:
  assumes "quiet p" and "concat l = concat (hp_payload_log p)"
  shows "map_chunk_result erase (chunk_step c rest (p\<lparr>hp_payload_log := l\<rparr>) ch)
       = map_chunk_result erase (chunk_step c rest p ch)"
proof (cases "hp_chunk_state p = PARSE_CHUNK")
  case True
  then show ?thesis using on_chunk_erase [OF assms] by (simp add: chunk_step_def)
next
  case False
  with assms show ?thesis
    by (cases "hp_chunk_state p") (simp_all add: chunk_step_def chunk_case_defs erase_def Let_def)
qed

lemma quiet_frame: "chunk_frame p q \<Longrightarrow> quiet q = quiet p"
  by (simp add: chunk_frame_def quiet_def)

lemma chunk_step_quiet: "quiet p \<Longrightarrow> chunk_step c rest p ch = C_next k q ch' \<Longrightarrow> quiet q"
  using chunk_step_keeps [of p c rest ch] by (simp add: quiet_frame [of p q])

lemma run_chunks_erase:
  "quiet p \<Longrightarrow> erase p = erase q
   \<Longrightarrow> map_chunk_run erase (run_chunks p ch s) = map_chunk_run erase (run_chunks q ch s)"
proof (induction p ch s arbitrary: q rule: run_chunks.induct)
  case (2 p ch c cs)
  obtain l where l: "q = p\<lparr>hp_payload_log := l\<rparr>" "concat l = concat (hp_payload_log p)"
    using erase_eqD [OF 2(3)] by blast
  from chunk_step_erase [OF 2(2) l(2), of c cs ch] l(1)
  have step: "map_chunk_result erase (chunk_step c cs p ch) = map_chunk_result erase (chunk_step c cs q ch)"
    by simp
  with 2 show ?case
    by (cases "chunk_step c cs p ch"; cases "chunk_step c cs q ch") (auto dest: chunk_step_quiet)
qed simp

lemma on_chunk_more_input:
  assumes "hp_payload_handler p \<noteq> None
     \<Longrightarrow> hp_size_of_current_chunk p - hp_bytes_read_in_current_chunk p \<le> length (c # cs)" and "quiet p"
  shows "on_chunk c (cs @ ys) p ch = on_chunk c cs p ch"
proof (cases "hp_payload_handler p = None \<or> \<not> hp_bytes_read_in_current_chunk p < hp_size_of_current_chunk p")
  case True
  then show ?thesis by (auto simp: on_chunk_other)
next
  case False
  then obtain h where h: "hp_payload_handler p = Some h" by auto
  let ?todo = "hp_size_of_current_chunk p - hp_bytes_read_in_current_chunk p"
  have lt: "hp_bytes_read_in_current_chunk p < hp_size_of_current_chunk p" using False by simp
  have todo: "?todo \<le> length (c # cs)" using assms(1) h by simp
  then have "?todo = min (length (c # cs @ ys)) ?todo" "?todo = min (length (c # cs)) ?todo" by simp_all
  note eqs = this [THEN on_chunk_quiet [OF assms(2) h lt]]
  have "take ?todo (c # cs @ ys) = take ?todo (c # cs)"
    using todo by (metis append_Cons diff_is_0_eq take_append take0 append_Nil2)
  then show ?thesis unfolding eqs by simp
qed

lemma chunk_step_more_input:
  assumes "hp_chunk_state p = PARSE_CHUNK \<Longrightarrow> hp_payload_handler p \<noteq> None
     \<Longrightarrow> hp_size_of_current_chunk p - hp_bytes_read_in_current_chunk p \<le> length (c # cs)" and "quiet p"
  shows "chunk_step c (cs @ ys) p ch = chunk_step c cs p ch"
  using assms on_chunk_more_input by (cases "hp_chunk_state p") (auto simp: chunk_step_def)

fun append_chunk_run :: "byte_string \<Rightarrow> chunk_run \<Rightarrow> chunk_run" where
  "append_chunk_run ys (K_more p ch) = run_chunks p ch ys"
| "append_chunk_run ys (K_done r p ch) = K_done (r @ ys) p ch"
| "append_chunk_run ys (K_error e r p ch) = K_error e (r @ ys) p ch"
| "append_chunk_run ys (K_throw r p ch) = K_throw (r @ ys) p ch"

text \<open>The one case that depends on the split: a buffer that ends inside a chunk.\<close>

lemma run_chunks_split_chunk:
  assumes "quiet p" and st: "hp_chunk_state p = PARSE_CHUNK" and h: "hp_payload_handler p = Some h"
    and big: "length (c # cs) < hp_size_of_current_chunk p - hp_bytes_read_in_current_chunk p"
  shows "map_chunk_run erase (run_chunks p ch ((c # cs) @ ys))
       = map_chunk_run erase (append_chunk_run ys (run_chunks p ch (c # cs)))"
proof (cases ys)
  case Nil
  let ?r = "run_chunks p ch (c # cs)"
  show ?thesis using Nil by (cases ?r) simp_all
next
  case (Cons d ds)
  let ?n = "length (c # cs)"
  let ?todo = "hp_size_of_current_chunk p - hp_bytes_read_in_current_chunk p"
  define q where "q = p\<lparr>hp_payload_log := hp_payload_log p @ [c # cs],
      hp_bytes_read_in_current_chunk := hp_bytes_read_in_current_chunk p + ?n\<rparr>"
  have qq: "quiet q" "hp_payload_handler q = Some h"
    "hp_bytes_read_in_current_chunk q < hp_size_of_current_chunk q"
    using assms(1) h big by (simp_all add: q_def quiet_def)
  have lt: "hp_bytes_read_in_current_chunk p < hp_size_of_current_chunk p" using big by simp
  have first: "run_chunks p ch (c # cs) = K_more q ch"
    using st big
    by (simp add: chunk_step_def on_chunk_quiet [OF assms(1) h lt refl] chunk_complete_def q_def min_def)
  define m where "m = min (length ys) (?todo - ?n)"
  have m: "0 < m" "m \<le> length ys" using big Cons by (auto simp: m_def)
  define fin where "fin = (\<lambda>l. chunk_complete (p\<lparr>hp_payload_log := l,
      hp_bytes_read_in_current_chunk := hp_bytes_read_in_current_chunk p + ?n + m\<rparr>))"
  have mq: "m = min (length (d # ds)) (hp_size_of_current_chunk q - hp_bytes_read_in_current_chunk q)"
    by (simp add: m_def q_def Cons diff_diff_add)
  have "chunk_step d ds q ch
      = C_next (m - 1) (fin (hp_payload_log p @ [c # cs] @ [take m ys])) ch"
    using st on_chunk_quiet [OF qq mq]
    by (simp add: chunk_step_def q_def fin_def Cons)
  then have second: "run_chunks q ch ys
      = run_chunks (fin (hp_payload_log p @ [c # cs] @ [take m ys])) ch (drop (m - 1) ds)"
    by (simp add: Cons)
  have mp: "?n + m = min (length (c # cs @ ys)) ?todo"
    using big unfolding m_def by (simp only: list.size length_append)
  have "chunk_step c (cs @ ys) p ch
      = C_next (?n + m - 1) (fin (hp_payload_log p @ [(c # cs) @ take m ys])) ch"
    using st on_chunk_quiet [OF assms(1) h lt mp]
    by (simp add: chunk_step_def fin_def add.assoc)
  then have joint: "run_chunks p ch ((c # cs) @ ys)
      = run_chunks (fin (hp_payload_log p @ [(c # cs) @ take m ys])) ch (drop (m - 1) ds)"
    using m Cons by (cases m) simp_all
  have "erase (fin l) = erase (fin l')" if "concat l = concat l'" for l l'
    using that by (simp add: erase_def fin_def chunk_complete_def)
  moreover have "quiet (fin l)" for l
    using assms(1) h by (simp add: quiet_def fin_def chunk_complete_def)
  ultimately show ?thesis
    unfolding joint first append_chunk_run.simps second by (intro run_chunks_erase) simp_all
qed

lemma run_chunks_append:
  "quiet p \<Longrightarrow> map_chunk_run erase (run_chunks p ch (xs @ ys))
       = map_chunk_run erase (append_chunk_run ys (run_chunks p ch xs))"
proof (induction p ch xs rule: run_chunks.induct)
  case (2 p ch c cs)
  show ?case
  proof (cases "hp_chunk_state p = PARSE_CHUNK \<and> hp_payload_handler p \<noteq> None
      \<and> length (c # cs) < hp_size_of_current_chunk p - hp_bytes_read_in_current_chunk p")
    case True
    with 2(2) show ?thesis using run_chunks_split_chunk [of p _ c cs ch ys] by auto
  next
    case False
    then have "chunk_step c (cs @ ys) p ch = chunk_step c cs p ch"
      using 2(2) by (intro chunk_step_more_input) auto
    with 2 show ?thesis
      using chunk_step_extra [of c cs p ch]
      by (cases "chunk_step c cs p ch") (auto dest: chunk_step_quiet)
  qed
qed simp

section \<open>A chunked body\<close>

text \<open>The text of a chunk, its length in lower case hexadecimal digits as \<open>%lx\<close> prints it.\<close>

fun hex_string :: "nat \<Rightarrow> byte_string" where
  "hex_string n = (if n < 16 then [hex_char n] else hex_string (n div 16) @ [hex_char (n mod 16)])"

declare hex_string.simps [simp del]

definition chunk_text :: "byte_string \<Rightarrow> byte_string" where
  "chunk_text d = hex_string (length d) @ [CR, LF] @ d @ [CR, LF]"

definition chunked_text :: "byte_string list \<Rightarrow> byte_string" where
  "chunked_text ds = concat (map chunk_text ds) @ ''0'' @ [CR, LF, CR, LF]"

lemma hex_char_digit:
  assumes "n < 16"
  shows "is_hex_digit (char_value (hex_char n))" and "hex_digit_value (hex_char n) = n"
  using assms
  by (auto simp: hex_char_def is_hex_digit_def hex_digit_value_def char_value_char_of)

lemma hex_string_digits: "list_all (\<lambda>c. is_hex_digit (char_value c)) (hex_string n)"
proof (induction n rule: hex_string.induct)
  case (1 n)
  then show ?case by (subst hex_string.simps) (simp add: hex_char_digit)
qed

lemma hex_string_value: "digits_value 16 0 (map hex_digit_value (hex_string n)) = n"
proof (induction n rule: hex_string.induct)
  case (1 n)
  then show ?case
    by (subst hex_string.simps) (simp add: hex_char_digit digits_value_append)
qed

lemma hex_string_nonempty: "hex_string n \<noteq> []"
  by (subst hex_string.simps) simp

lemma strtol_hex_string: "n < 2 ^ 63 \<Longrightarrow> strtol_16 (hex_string n) = n"
  by (simp add: strtol_16_def hex_string_value)

lemma hex_digit_chars:
  assumes "is_hex_digit (char_value c)"
  shows "c \<noteq> CR" "c \<noteq> LF" "c \<noteq> SP" "c \<noteq> TAB" "c \<noteq> CHR '';''"
  using assms by (auto simp: is_hex_digit_def char_value_def)

lemma goto_chunk_first:
  "goto_chunk st (p\<lparr>hp_chunk_size_str := x\<rparr>) = (goto_chunk st p)\<lparr>hp_chunk_size_str := x\<rparr>"
  by simp

lemma run_size_digits:
  assumes "list_all (\<lambda>c. is_hex_digit (char_value c)) ds" and "hp_chunk_state p = PARSE_CHUNK_SIZE"
  shows "run_chunks p ch (ds @ rest) = run_chunks (p\<lparr>hp_chunk_size_str := hp_chunk_size_str p @ ds\<rparr>) ch rest"
  using assms
  by (induction ds arbitrary: p) (auto simp: chunk_step_def on_chunk_size_def)

lemma run_chunk_size:
  assumes "list_all (\<lambda>c. is_hex_digit (char_value c)) ds" "ds \<noteq> []"
    and "hp_chunk_state p = PARSE_CHUNK_SIZE_START"
  shows "run_chunks p ch (ds @ CR # LF # rest)
       = run_chunks (p\<lparr>hp_chunk_size_str := ds, hp_bytes_read_in_current_chunk := 0,
             hp_size_of_current_chunk := strtol_16 ds,
             hp_chunk_state := (if strtol_16 ds = 0 then PARSE_EXPECTING_FINAL_CR_OR_FOOTERS_AFTER_LAST_CHUNK
                                else PARSE_CHUNK)\<rparr>) ch rest"
proof -
  obtain c cs where c: "ds = c # cs" "is_hex_digit (char_value c)"
    "list_all (\<lambda>c. is_hex_digit (char_value c)) cs"
    using assms(1,2) by (cases ds) auto
  have "run_chunks p ch (ds @ CR # LF # rest)
      = run_chunks (p\<lparr>hp_chunk_size_str := [c], hp_chunk_state := PARSE_CHUNK_SIZE\<rparr>) ch (cs @ CR # LF # rest)"
    using c assms(3) by (simp add: chunk_step_def on_chunk_size_start_def)
  also have "\<dots> = run_chunks (p\<lparr>hp_chunk_size_str := ds, hp_chunk_state := PARSE_CHUNK_SIZE\<rparr>) ch (CR # LF # rest)"
    using c by (simp add: run_size_digits goto_chunk_first)
  finally show ?thesis
    by (simp add: chunk_step_def on_chunk_size_def is_hex_digit_def char_value_def
        on_lf_after_chunk_size_def Let_def)
qed

text \<open>What has been delivered so far: to the handler, or into the chunk cache.\<close>

definition delivered :: "http_parser \<Rightarrow> byte_string \<Rightarrow> byte_string" where
  "delivered p ch = (if hp_payload_handler p = None then ch else concat (hp_payload_log p))"

definition room_for :: "nat \<Rightarrow> http_parser \<Rightarrow> byte_string \<Rightarrow> bool" where
  "room_for n p ch \<longleftrightarrow> (hp_payload_handler p = None \<longrightarrow> length ch + n \<le> hp_max_content_length p)"

lemma run_cached_data:
  assumes "hp_payload_handler p = None" and "hp_chunk_state p = PARSE_CHUNK" and "d \<noteq> []"
    and "hp_bytes_read_in_current_chunk p + length d = hp_size_of_current_chunk p"
    and "length ch + length d \<le> hp_max_content_length p"
  shows "run_chunks p ch (d @ rest)
       = run_chunks (p\<lparr>hp_bytes_read_in_current_chunk := hp_size_of_current_chunk p,
                       hp_chunk_state := PARSE_EXPECTING_CR_AFTER_CHUNK\<rparr>) (ch @ d) rest"
  using assms
proof (induction d arbitrary: p ch)
  case (Cons c d)
  show ?case
  proof (cases "d = []")
    case True
    with Cons.prems show ?thesis by (simp add: chunk_step_def on_chunk_other chunk_complete_def)
  next
    case False
    let ?q = "p\<lparr>hp_bytes_read_in_current_chunk := hp_bytes_read_in_current_chunk p + 1\<rparr>"
    have "chunk_step c (d @ rest) p ch = C_next 0 ?q (ch @ [c])"
      using Cons.prems False by (cases d) (simp_all add: chunk_step_def on_chunk_other chunk_complete_def)
    with Cons.prems False show ?thesis using Cons.IH [of ?q "ch @ [c]"] by simp
  qed
qed simp

lemma run_handled_data:
  assumes "quiet p" and "hp_payload_handler p = Some h" and "hp_chunk_state p = PARSE_CHUNK" and "d \<noteq> []"
    and "hp_bytes_read_in_current_chunk p + length d = hp_size_of_current_chunk p"
  shows "run_chunks p ch (d @ rest)
       = run_chunks (p\<lparr>hp_payload_log := hp_payload_log p @ [d],
                       hp_bytes_read_in_current_chunk := hp_size_of_current_chunk p,
                       hp_chunk_state := PARSE_EXPECTING_CR_AFTER_CHUNK\<rparr>) ch rest"
proof -
  obtain c cs where d: "d = c # cs" using assms(4) by (cases d) auto
  have lt: "hp_bytes_read_in_current_chunk p < hp_size_of_current_chunk p" using assms(4,5) by (cases d) auto
  have n: "length d = min (length (c # cs @ rest)) (hp_size_of_current_chunk p - hp_bytes_read_in_current_chunk p)"
    using assms(5) d by simp
  show ?thesis
    using assms(3,5) d by (simp add: chunk_step_def on_chunk_quiet [OF assms(1,2) lt n] chunk_complete_def)
qed

text \<open>One chunk: its bytes are delivered, and the parser waits for the next chunk.\<close>

lemma run_chunk_text:
  assumes "quiet p" and "hp_chunk_state p = PARSE_CHUNK_SIZE_START" and "d \<noteq> []" "length d < 2 ^ 63"
    and "room_for (length d) p ch"
  shows "\<exists>q ch'. run_chunks p ch (chunk_text d @ rest) = run_chunks q ch' rest
       \<and> quiet q \<and> hp_chunk_state q = PARSE_CHUNK_SIZE_START \<and> hp_payload_handler q = hp_payload_handler p
       \<and> hp_max_content_length q = hp_max_content_length p
       \<and> delivered q ch' = delivered p ch @ d \<and> length ch' \<le> length ch + length d"
proof -
  let ?p1 = "p\<lparr>hp_chunk_size_str := hex_string (length d), hp_bytes_read_in_current_chunk := 0,
      hp_size_of_current_chunk := length d, hp_chunk_state := PARSE_CHUNK\<rparr>"
  have size: "run_chunks p ch (chunk_text d @ rest) = run_chunks ?p1 ch (d @ CR # LF # rest)"
    using assms(2-4)
    by (simp add: chunk_text_def run_chunk_size hex_string_digits hex_string_nonempty strtol_hex_string)
  let ?done = "\<lambda>q. goto_chunk PARSE_CHUNK_SIZE_START (q\<lparr>hp_bytes_read_in_current_chunk := length d\<rparr>)"
  have crlf: "run_chunks q ch' (CR # LF # rest) = run_chunks (goto_chunk PARSE_CHUNK_SIZE_START q) ch' rest"
    if "hp_chunk_state q = PARSE_EXPECTING_CR_AFTER_CHUNK" for q ch'
    using that by (simp add: chunk_step_def on_cr_after_chunk_def on_lf_after_chunk_def)
  show ?thesis
  proof (cases "hp_payload_handler p")
    case None
    have "run_chunks ?p1 ch (d @ CR # LF # rest) = run_chunks (?done ?p1) (ch @ d) rest"
      using assms None by (subst run_cached_data) (simp_all add: room_for_def crlf del: run_chunks.simps(2))
    then show ?thesis
      unfolding size
      by (intro exI [of _ "?done ?p1"] exI [of _ "ch @ d"])
         (use assms None in \<open>simp add: quiet_def delivered_def\<close>)
  next
    case (Some h)
    let ?q = "?done (?p1\<lparr>hp_payload_log := hp_payload_log p @ [d]\<rparr>)"
    have "quiet ?p1" using assms(1) by (simp add: quiet_def)
    then have "run_chunks ?p1 ch (d @ CR # LF # rest) = run_chunks ?q ch rest"
      using assms Some by (subst run_handled_data) (simp_all add: crlf del: run_chunks.simps(2))
    then show ?thesis
      unfolding size
      by (intro exI [of _ ?q] exI [of _ ch])
         (use assms Some in \<open>simp add: quiet_def delivered_def\<close>)
  qed
qed

lemma run_chunked_text:
  "quiet p \<Longrightarrow> hp_chunk_state p = PARSE_CHUNK_SIZE_START
   \<Longrightarrow> list_all (\<lambda>d. d \<noteq> [] \<and> length d < 2 ^ 63) ds \<Longrightarrow> room_for (length (concat ds)) p ch
   \<Longrightarrow> \<exists>q ch'. run_chunks p ch (chunked_text ds @ rest) = K_done rest q ch'
       \<and> hp_payload_handler q = hp_payload_handler p \<and> delivered q ch' = delivered p ch @ concat ds"
proof (induction ds arbitrary: p ch)
  case Nil
  let ?q = "p\<lparr>hp_chunk_size_str := ''0'', hp_bytes_read_in_current_chunk := 0,
      hp_size_of_current_chunk := 0, hp_chunk_state := PARSE_EXPECTING_FINAL_LF_AFTER_LAST_CHUNK\<rparr>"
  have "list_all (\<lambda>c. is_hex_digit (char_value c)) ''0''" "strtol_16 ''0'' = 0"
    by (simp_all add: is_hex_digit_def char_value_def strtol_16_def hex_digit_value_def)
  then have "run_chunks p ch (''0'' @ CR # LF # CR # LF # rest)
      = run_chunks (p\<lparr>hp_chunk_size_str := ''0'', hp_bytes_read_in_current_chunk := 0,
             hp_size_of_current_chunk := 0,
             hp_chunk_state := PARSE_EXPECTING_FINAL_CR_OR_FOOTERS_AFTER_LAST_CHUNK\<rparr>) ch (CR # LF # rest)"
    using Nil by (subst run_chunk_size) simp_all
  also have "\<dots> = K_done rest ?q ch"
    by (simp add: chunk_step_def on_final_cr_or_footers_def on_final_lf_def)
  finally have "run_chunks p ch (chunked_text [] @ rest) = K_done rest ?q ch"
    by (simp only: chunked_text_def list.map concat.simps append_Nil append_assoc append_Cons)
  then show ?case by (intro exI [of _ ?q] exI [of _ ch]) (simp add: delivered_def)
next
  case (Cons d ds)
  have "room_for (length d) p ch" using Cons.prems(4) by (auto simp: room_for_def)
  then obtain q ch' where q:
    "run_chunks p ch (chunk_text d @ chunked_text ds @ rest) = run_chunks q ch' (chunked_text ds @ rest)"
    "quiet q" "hp_chunk_state q = PARSE_CHUNK_SIZE_START" "hp_payload_handler q = hp_payload_handler p"
    "hp_max_content_length q = hp_max_content_length p"
    "delivered q ch' = delivered p ch @ d" "length ch' \<le> length ch + length d"
    using run_chunk_text [OF Cons.prems(1,2), of d ch "chunked_text ds @ rest"] Cons.prems(3) by auto
  have "room_for (length (concat ds)) q ch'"
    using Cons.prems(4) q by (auto simp: room_for_def)
  with Cons.IH [OF q(2,3), of ch'] Cons.prems(3)
  obtain r ch'' where "run_chunks q ch' (chunked_text ds @ rest) = K_done rest r ch''"
    "hp_payload_handler r = hp_payload_handler q" "delivered r ch'' = delivered q ch' @ concat ds"
    by auto
  moreover have "chunked_text (d # ds) @ rest = chunk_text d @ chunked_text ds @ rest"
    by (simp add: chunked_text_def)
  ultimately show ?case using q by (intro exI [of _ r] exI [of _ ch'']) simp
qed

section \<open>Properties\<close>

text \<open>
  C17: a body written in chunks (\<open>chunk_text\<close> for each block, then the final empty chunk) is read
  back by \<open>parse_chunks\<close>: the bytes of all blocks, in order, go to the chunk cache (or to the
  payload handler when there is one), and the bytes after the body stay in the buffer.
\<close>

theorem chunked_body_roundtrip:
  assumes "quiet p" and "hp_chunk_state p = PARSE_CHUNK_SIZE_START"
    and "list_all (\<lambda>d. d \<noteq> [] \<and> length d < 2 ^ 63) ds" and "room_for (length (concat ds)) p ch"
  shows "\<exists>p' ch'. parse_chunks (set_read_buffer (chunked_text ds @ rest) p) ch ec = (Some TTrue, ec, p', ch')
       \<and> hp_read p' = rest \<and> gcount p' = length (chunked_text ds)
       \<and> delivered p' ch' = delivered p ch @ concat ds"
proof -
  obtain q ch' where "run_chunks p ch (chunked_text ds @ rest) = K_done rest q ch'"
    "hp_payload_handler q = hp_payload_handler p" "delivered q ch' = delivered p ch @ concat ds"
    using run_chunked_text [OF assms, of rest] by blast
  then show ?thesis
    by (cases "hp_payload_handler p")
       (simp_all add: parse_chunks_run Let_def gcount_def delivered_def recount_def)
qed

theorem chunked_body_roundtrip_witness:
  "\<exists>p' ch'. parse_chunks (set_read_buffer (chunked_text [''Wiki'', ''pedia''] @ ''GET'') (new_http_parser 7 7 100)) [] None
         = (Some TTrue, None, p', ch') \<and> hp_read p' = ''GET'' \<and> delivered p' ch' = ''Wikipedia''"
proof -
  have "quiet (new_http_parser 7 7 100)" "hp_chunk_state (new_http_parser 7 7 100) = PARSE_CHUNK_SIZE_START"
    "list_all (\<lambda>d. d \<noteq> [] \<and> length d < 2 ^ 63) [''Wiki'', ''pedia'']"
    "room_for (length (concat [''Wiki'', ''pedia''])) (new_http_parser 7 7 100) []"
    by (simp_all add: quiet_def new_http_parser_def room_for_def)
  from chunked_body_roundtrip [OF this, of "''GET''" None]
  have "\<exists>p' ch'. parse_chunks (set_read_buffer (chunked_text [''Wiki'', ''pedia''] @ ''GET'')
        (new_http_parser 7 7 100)) [] None = (Some TTrue, None, p', ch')
      \<and> hp_read p' = ''GET'' \<and> delivered p' ch' = delivered (new_http_parser 7 7 100) [] @ ''Wikipedia''"
    by auto
  then show ?thesis by (simp add: delivered_def new_http_parser_def)
qed

text \<open>
  C19: \<open>parse_chunks\<close> does not depend on how the bytes arrive, provided the payload handler (if
  any) never throws: two calls on two buffers give the verdict, the error code, the remaining
  bytes, the chunk cache, the bytes delivered to the handler and the state of a single call on
  both, only the grouping of the handler's blocks and the byte counters of the last call differ.
\<close>

theorem parse_chunks_fragmentation:
  assumes "quiet p"
    and "parse_chunks (set_read_buffer xs p) ch ec = (Some Indeterminate, ec1, p1, ch1)"
    and "parse_chunks (set_read_buffer ys p1) ch1 ec1 = (rc, ec2, p2, ch2)"
  shows "\<exists>p'. parse_chunks (set_read_buffer (xs @ ys) p) ch ec = (rc, ec2, p', ch2)
       \<and> erase (recount [] 0 0 0 p') = erase (recount [] 0 0 0 p2)
       \<and> hp_read p' = hp_read p2"
proof -
  obtain a where a: "run_chunks p ch xs = K_more a ch1" "ec1 = ec"
    "p1 = recount [] (length xs) (hp_bytes_total_read p + length xs) (hp_bytes_content_read p + length xs) a"
    using assms(2) unfolding parse_chunks_run by (auto split: chunk_run.splits simp: Let_def)
  from run_chunks_append [OF assms(1), of ch xs ys] a(1)
  have joint: "map_chunk_run erase (run_chunks p ch (xs @ ys)) = map_chunk_run erase (run_chunks a ch1 ys)"
    by simp
  have er: "erase (recount r l t b x) = recount r l t b (erase x)" for r l t b x
    by (simp add: erase_def recount_def)
  have fr: "run_chunks p1 ch1 ys = map_chunk_run (recount [] (length xs) (hp_bytes_total_read p + length xs)
      (hp_bytes_content_read p + length xs)) (run_chunks a ch1 ys)"
    by (simp only: a(3) run_chunks_frame)
  from assms(3) joint show ?thesis
    unfolding parse_chunks_run fr
    by (cases "run_chunks a ch1 ys"; cases "run_chunks p ch (xs @ ys)")
       (auto simp: Let_def a(2) er)
qed

theorem parse_chunks_fragmentation_witness:
  "\<exists>p1 p2 p'. parse_chunks (set_read_buffer (''3'' @ [CR, LF] @ ''a'') (new_http_parser 7 7 9)) [] None
       = (Some Indeterminate, None, p1, ''a'')
     \<and> parse_chunks (set_read_buffer (''bc'' @ [CR]) p1) ''a'' None = (Some Indeterminate, None, p2, ''abc'')
     \<and> parse_chunks (set_read_buffer ((''3'' @ [CR, LF] @ ''a'') @ ''bc'' @ [CR]) (new_http_parser 7 7 9)) [] None
       = (Some Indeterminate, None, p', ''abc'')
     \<and> erase (recount [] 0 0 0 p') = erase (recount [] 0 0 0 p2)"
proof -
  have q: "quiet (new_http_parser 7 7 9)" by (simp add: quiet_def new_http_parser_def)
  have "\<exists>p1 p2. parse_chunks (set_read_buffer (''3'' @ [CR, LF] @ ''a'') (new_http_parser 7 7 9)) [] None
       = (Some Indeterminate, None, p1, ''a'')
     \<and> parse_chunks (set_read_buffer (''bc'' @ [CR]) p1) ''a'' None = (Some Indeterminate, None, p2, ''abc'')"
    by (simp add: parse_chunks_run Let_def new_http_parser_def chunk_step_def chunk_case_defs
        is_hex_digit_def char_value_def strtol_16_def hex_digit_value_def chunk_complete_def recount_def)
  then obtain p1 p2 where p12:
    "parse_chunks (set_read_buffer (''3'' @ [CR, LF] @ ''a'') (new_http_parser 7 7 9)) [] None
       = (Some Indeterminate, None, p1, ''a'')"
    "parse_chunks (set_read_buffer (''bc'' @ [CR]) p1) ''a'' None = (Some Indeterminate, None, p2, ''abc'')"
    by blast
  from parse_chunks_fragmentation [OF q p12] p12 show ?thesis by blast
qed

lemma run_chunks_full:
  "hp_payload_handler p = None \<Longrightarrow> hp_chunk_state p = PARSE_CHUNK
   \<Longrightarrow> hp_bytes_read_in_current_chunk p < hp_size_of_current_chunk p
   \<Longrightarrow> hp_max_content_length p \<le> length ch \<Longrightarrow> run_chunks p ch s = K_more p ch"
  by (induction s) (simp_all add: chunk_step_def on_chunk_other chunk_complete_def)

text \<open>
  C38: without a payload handler, a chunked body larger than \<open>m_max_content_length\<close> is never
  finished: once the chunk cache is full inside a chunk, \<open>parse_chunks\<close> swallows every further
  byte, whatever it is, and stays in the same chunk at the same position.
\<close>

theorem oversized_chunked_body_stuck:
  assumes "hp_payload_handler p = None" and "hp_chunk_state p = PARSE_CHUNK"
    and "hp_bytes_read_in_current_chunk p < hp_size_of_current_chunk p"
    and "hp_max_content_length p \<le> length ch"
  shows "\<exists>p'. parse_chunks (set_read_buffer s p) ch ec = (Some Indeterminate, ec, p', ch)
       \<and> eof p' \<and> hp_chunk_state p' = PARSE_CHUNK
       \<and> hp_bytes_read_in_current_chunk p' = hp_bytes_read_in_current_chunk p
       \<and> hp_size_of_current_chunk p' = hp_size_of_current_chunk p"
  using assms by (simp add: parse_chunks_run run_chunks_full Let_def eof_def recount_def)

theorem oversized_chunked_body_stuck_witness:
  "\<exists>p'. parse_chunks (set_read_buffer ([CR, LF] @ ''0'' @ [CR, LF, CR, LF])
        ((new_http_parser 3 1 1)\<lparr>hp_chunk_state := PARSE_CHUNK\<rparr>)) ''a'' None
      = (Some Indeterminate, None, p', ''a'') \<and> hp_chunk_state p' = PARSE_CHUNK"
proof -
  let ?p = "(new_http_parser 3 1 1)\<lparr>hp_chunk_state := PARSE_CHUNK\<rparr>"
  have "hp_payload_handler ?p = None" "hp_chunk_state ?p = PARSE_CHUNK"
    "hp_bytes_read_in_current_chunk ?p < hp_size_of_current_chunk ?p"
    "hp_max_content_length ?p \<le> length ''a''"
    by (simp_all add: new_http_parser_def)
  from oversized_chunked_body_stuck [OF this, of "[CR, LF] @ ''0'' @ [CR, LF, CR, LF]" None]
  show ?thesis by blast
qed

text \<open>The cache never outgrows the limit.\<close>

fun chunk_result_cache :: "chunk_result \<Rightarrow> byte_string" where
  "chunk_result_cache (C_next k p ch) = ch" | "chunk_result_cache (C_done b p ch) = ch"
| "chunk_result_cache (C_error e p ch) = ch" | "chunk_result_cache (C_throw p ch) = ch"

fun chunk_run_cache :: "chunk_run \<Rightarrow> byte_string" where
  "chunk_run_cache (K_more p ch) = ch" | "chunk_run_cache (K_done r p ch) = ch"
| "chunk_run_cache (K_error e r p ch) = ch" | "chunk_run_cache (K_throw r p ch) = ch"

lemma chunk_step_cache:
  "length ch \<le> hp_max_content_length p
   \<Longrightarrow> length (chunk_result_cache (chunk_step c rest p ch)) \<le> hp_max_content_length p"
  by (cases "hp_chunk_state p")
     (simp_all add: chunk_step_def chunk_case_defs Let_def split: option.splits)

lemma run_chunks_cache:
  "length ch \<le> hp_max_content_length p
   \<Longrightarrow> length (chunk_run_cache (run_chunks p ch s)) \<le> hp_max_content_length p"
proof (induction p ch s rule: run_chunks.induct)
  case (2 p ch c cs)
  from chunk_step_cache [OF 2(2), of c cs] chunk_step_keeps [of p c cs ch] 2
  show ?case by (cases "chunk_step c cs p ch") (auto simp: chunk_frame_def)
qed simp

end
