(* ===== verification/Http_Response_Writer.thy ===== *)
theory Http_Response_Writer
  imports Tcp_Connection Chunk_Run Message_Laws
begin

text \<open>
  \<open>http_response_writer.hpp\<close>: buffering of response content and the bytes a response puts on the
  connection, whole or in chunks.
\<close>

section \<open>Definitions\<close>

text \<open>
  \<open>content_buffers\<close> point to data kept by the application or in \<open>payload_cache\<close>; both are kept
  here by value. The connection is passed to the operations that use it.
\<close>

record http_response_writer =
  w_content_buffers :: "byte_string list"
  w_payload_cache :: "byte_string list"
  w_content_length :: nat
  w_client_supports_chunks :: bool
  w_sending_chunks :: bool
  w_sent_headers :: bool
  w_response :: http_response

definition supports_chunked_messages :: "bool \<Rightarrow> http_response_writer \<Rightarrow> http_response_writer" where
  "supports_chunked_messages b w = w\<lparr>w_client_supports_chunks := b\<rparr>"

definition new_response_writer :: "http_request \<Rightarrow> http_response_writer" where
  "new_response_writer req =
     (let resp = new_http_response req
      in supports_chunked_messages (m_chunks_supported resp)
           \<lparr>w_content_buffers = [], w_payload_cache = [], w_content_length = 0,
            w_client_supports_chunks = True, w_sending_chunks = False, w_sent_headers = False,
            w_response = resp\<rparr>)"

definition writer_clear :: "http_response_writer \<Rightarrow> http_response_writer" where
  "writer_clear w = w\<lparr>w_content_buffers := [], w_payload_cache := [], w_content_length := 0\<rparr>"

definition add_to_cache :: "byte_string \<Rightarrow> http_response_writer \<Rightarrow> byte_string \<times> http_response_writer" where
  "add_to_cache data w = (data, w\<lparr>w_payload_cache := w_payload_cache w @ [data]\<rparr>)"

definition writer_write :: "byte_string \<Rightarrow> http_response_writer \<Rightarrow> http_response_writer" where
  "writer_write data w =
     (if is_body_allowed (w_response w) \<and> length data > 0
      then (case add_to_cache data w of (buf, w1) \<Rightarrow>
              w1\<lparr>w_content_buffers := w_content_buffers w @ [buf],
                 w_content_length := w_content_length w + length data\<rparr>)
      else w)"

definition write_nocopy :: "byte_string \<Rightarrow> http_response_writer \<Rightarrow> http_response_writer" where
  "write_nocopy data w =
     (if is_body_allowed (w_response w) \<and> length data > 0
      then w\<lparr>w_content_buffers := w_content_buffers w @ [data],
             w_content_length := w_content_length w + length data\<rparr>
      else w)"

definition writer_prepare_buffers_for_send ::
  "sl_utils \<Rightarrow> bool \<Rightarrow> http_response_writer \<Rightarrow> byte_string list \<Rightarrow> byte_string list \<times> http_response_writer" where
  "writer_prepare_buffers_for_send E keep_alive w write_buffers =
     (let r1 = (if w_content_length w > 0
                then w_response w\<lparr>m_content_length := w_content_length w\<rparr> else w_response w)
      in case prepare_buffers_for_send E (response_update_first_line E) keep_alive
                (w_sending_chunks w) r1 write_buffers of
           (wb, r2) \<Rightarrow> (wb, w\<lparr>w_response := r2\<rparr>))"

text \<open>The part of \<open>prepare_write_buffers\<close> that adds the content.\<close>

definition append_content ::
  "http_response_writer \<Rightarrow> byte_string list \<Rightarrow> byte_string list \<times> http_response_writer" where
  "append_content w wb =
     (if w_content_length w > 0 then
        (if w_client_supports_chunks w \<and> w_sending_chunks w
         then (case add_to_cache (hex_string (w_content_length w)) w of (len_buf, w1) \<Rightarrow>
                 (wb @ [len_buf, STRING_CRLF] @ w_content_buffers w @ [STRING_CRLF], w1))
         else (wb @ w_content_buffers w, w))
      else (wb, w))"

definition append_final_chunk ::
  "bool \<Rightarrow> http_response_writer \<Rightarrow> byte_string list \<Rightarrow> byte_string list \<times> http_response_writer" where
  "append_final_chunk send_final_chunk w wb =
     (if send_final_chunk \<and> w_client_supports_chunks w \<and> w_sending_chunks w
      then (case add_to_cache ''0'' w of (buf, w1) \<Rightarrow> (wb @ [buf, STRING_CRLF, STRING_CRLF], w1))
      else (wb, w))"

definition prepare_write_buffers ::
  "sl_utils \<Rightarrow> bool \<Rightarrow> bool \<Rightarrow> http_response_writer \<Rightarrow> byte_string list \<times> http_response_writer" where
  "prepare_write_buffers E keep_alive send_final_chunk w =
     (case (if \<not> w_sent_headers w
            then map_prod id (\<lambda>w1. w1\<lparr>w_sent_headers := True\<rparr>)
                   (writer_prepare_buffers_for_send E keep_alive w [])
            else ([], w)) of
        (wb1, w1) \<Rightarrow>
          (case append_content w1 wb1 of (wb2, w2) \<Rightarrow> append_final_chunk send_final_chunk w2 wb2))"

definition send_more_data ::
  "sl_utils \<Rightarrow> bool \<Rightarrow> tcp_connection \<Rightarrow> http_response_writer \<Rightarrow> tcp_connection \<times> http_response_writer" where
  "send_more_data E send_final_chunk c w =
     (if is_open c
      then (case prepare_write_buffers E (get_keep_alive c) send_final_chunk w of
              (wb, w1) \<Rightarrow> (async_write wb c, w1))
      else (finish_conn c, w))"

definition writer_send :: "sl_utils \<Rightarrow> tcp_connection \<Rightarrow> http_response_writer \<Rightarrow> tcp_connection \<times> http_response_writer" where
  "writer_send E c w = send_more_data E False c w"

definition send_chunk :: "sl_utils \<Rightarrow> tcp_connection \<Rightarrow> http_response_writer \<Rightarrow> tcp_connection \<times> http_response_writer" where
  "send_chunk E c w =
     (let w1 = w\<lparr>w_sending_chunks := True\<rparr>;
          c1 = (if \<not> w_client_supports_chunks w1 then set_lifecycle Lifecycle_close c else c)
      in if is_open c1 then send_more_data E False c1 w1 else (finish_conn c1, w1))"

definition send_final_chunk :: "sl_utils \<Rightarrow> tcp_connection \<Rightarrow> http_response_writer \<Rightarrow> tcp_connection \<times> http_response_writer" where
  "send_final_chunk E c w = send_more_data E True c (w\<lparr>w_sending_chunks := True\<rparr>)"

text \<open>The completion of a write.\<close>

definition handle_write :: "tcp_connection \<Rightarrow> tcp_connection" where
  "handle_write c = finish_conn c"

section \<open>Invariant\<close>

definition writer_ok :: "http_response_writer \<Rightarrow> bool" where
  "writer_ok w \<longleftrightarrow> w_content_length w = length (concat (w_content_buffers w))"

lemma writer_ok_ops [simp]:
  "writer_ok (new_response_writer req)" "writer_ok (writer_clear w)"
  "writer_ok w \<Longrightarrow> writer_ok (writer_write data w)" "writer_ok w \<Longrightarrow> writer_ok (write_nocopy data w)"
  by (simp_all add: writer_ok_def new_response_writer_def supports_chunked_messages_def writer_clear_def
      writer_write_def add_to_cache_def write_nocopy_def Let_def)

text \<open>The head a writer sends.\<close>

definition response_head :: "sl_utils \<Rightarrow> bool \<Rightarrow> bool \<Rightarrow> http_response \<Rightarrow> byte_string" where
  "response_head E keep_alive using_chunks r =
     concat (fst (prepare_buffers_for_send E (response_update_first_line E) keep_alive using_chunks r []))"

abbreviation framed :: "http_response_writer \<Rightarrow> bool" where
  "framed w \<equiv> w_client_supports_chunks w \<and> w_sending_chunks w"

definition head_response :: "http_response_writer \<Rightarrow> http_response" where
  "head_response w = (if w_content_length w > 0
     then w_response w\<lparr>m_content_length := w_content_length w\<rparr> else w_response w)"

lemma concat_append_content:
  "concat (fst (append_content w wb)) = concat wb
     @ (if w_content_length w = 0 then []
        else if framed w then hex_string (w_content_length w) @ [CR, LF] @ concat (w_content_buffers w) @ [CR, LF]
        else concat (w_content_buffers w))"
  by (simp add: append_content_def add_to_cache_def STRING_CRLF_def)

lemma concat_append_final:
  "concat (fst (append_final_chunk b w wb)) = concat wb
     @ (if b \<and> framed w then ''0'' @ [CR, LF, CR, LF] else [])"
  by (simp add: append_final_chunk_def add_to_cache_def STRING_CRLF_def)

text \<open>What one call puts on the wire, and what becomes of the writer.\<close>

definition content_text :: "http_response_writer \<Rightarrow> byte_string" where
  "content_text w =
     (if w_content_length w = 0 then []
      else if framed w then hex_string (w_content_length w) @ [CR, LF] @ concat (w_content_buffers w) @ [CR, LF]
      else concat (w_content_buffers w))"

lemma prepare_write_buffers_bytes:
  "concat (fst (prepare_write_buffers E ka fin w)) =
     (if w_sent_headers w then [] else response_head E ka (w_sending_chunks w) (head_response w))
     @ content_text w @ (if fin \<and> framed w then ''0'' @ [CR, LF, CR, LF] else [])"
proof -
  obtain wb r where h: "prepare_buffers_for_send E (response_update_first_line E) ka (w_sending_chunks w)
      (head_response w) [] = (wb, r)" by (metis surj_pair)
  then have head: "response_head E ka (w_sending_chunks w) (head_response w) = concat wb"
    by (simp add: response_head_def)
  have keep: "framed (snd (append_content w' b)) = framed w'" for w' b
    by (simp add: append_content_def add_to_cache_def)
  show ?thesis
    by (cases "w_sent_headers w")
       (simp_all add: prepare_write_buffers_def writer_prepare_buffers_for_send_def split_beta h
          head_response_def [symmetric] Let_def head concat_append_content concat_append_final keep content_text_def)
qed

text \<open>What the stages leave of the writer: only the cache, the response and the flag change.\<close>

definition same_content :: "http_response_writer \<Rightarrow> http_response_writer \<Rightarrow> bool" where
  "same_content w w' \<longleftrightarrow>
     w_content_length w' = w_content_length w \<and> w_content_buffers w' = w_content_buffers w
     \<and> w_client_supports_chunks w' = w_client_supports_chunks w \<and> w_sending_chunks w' = w_sending_chunks w
     \<and> rs_request_method (w_response w') = rs_request_method (w_response w)"

lemma stages_keep:
  "same_content w (snd (append_content w wb))" "same_content w (snd (append_final_chunk b w wb))"
  "same_content w (snd (writer_prepare_buffers_for_send E ka w wb))"
  "w_sent_headers (snd (append_content w wb)) = w_sent_headers w"
  "w_sent_headers (snd (append_final_chunk b w wb)) = w_sent_headers w"
  "w_response (snd (append_content w wb)) = w_response w"
  "w_response (snd (append_final_chunk b w wb)) = w_response w"
  by (simp_all add: same_content_def append_content_def append_final_chunk_def add_to_cache_def
      writer_prepare_buffers_for_send_def Let_def split_beta prepare_buffers_for_send_def
      get_first_line_def append_cookie_headers_base_def prepare_headers_for_send_def change_header_def)

lemma same_content_trans: "same_content w v \<Longrightarrow> same_content v u \<Longrightarrow> same_content w u"
  by (simp add: same_content_def)

lemma prepare_write_buffers_keeps:
  "w_sent_headers (snd (prepare_write_buffers E ka fin w))
   \<and> same_content w (snd (prepare_write_buffers E ka fin w))"
proof -
  define h where "h = (if \<not> w_sent_headers w
            then map_prod id (\<lambda>w1. w1\<lparr>w_sent_headers := True\<rparr>)
                   (writer_prepare_buffers_for_send E ka w [])
            else ([], w))"
  have h: "same_content w (snd h)" "w_sent_headers (snd h)"
    using stages_keep(3) [of w E ka "[]"] by (simp_all add: h_def same_content_def)
  have "snd (prepare_write_buffers E ka fin w)
      = snd (append_final_chunk fin (snd (append_content (snd h) (fst h))) (fst (append_content (snd h) (fst h))))"
    unfolding prepare_write_buffers_def h_def [symmetric] by (simp add: split_beta)
  with h show ?thesis
    using stages_keep same_content_trans by metis
qed

lemma prepare_write_buffers_response:
  assumes "\<not> w_sent_headers w"
  shows "w_response (snd (prepare_write_buffers E ka fin w))
       = snd (prepare_buffers_for_send E (response_update_first_line E) ka (w_sending_chunks w) (head_response w) [])"
  using assms
  by (simp add: prepare_write_buffers_def writer_prepare_buffers_for_send_def split_beta Let_def
      head_response_def stages_keep)

section \<open>Properties\<close>

text \<open>
  C21: a response sent whole is framed correctly: the bytes written are the head followed by the
  content buffered by \<open>write\<close> and \<open>write_nocopy\<close>, and the head carries exactly one
  \<open>Content-Length\<close>, the number of content bytes that follow it.
\<close>

theorem whole_response_framing:
  assumes "sl_env E" and "writer_ok w" and "is_open c"
    and "\<not> w_sending_chunks w" "\<not> w_sent_headers w"
    and "m_content_length (w_response w) = 0" "\<not> m_do_not_send_content_length (w_response w)"
    and "writer_send E c w = (c', w')"
  shows "\<exists>head. sent_bytes c' = sent_bytes c @ head @ concat (w_content_buffers w)
       \<and> head = response_head E (get_keep_alive c) False (head_response w)
       \<and> dict_values E (m_headers (w_response w')) HEADER_CONTENT_LENGTH
           = {# to_string E (length (concat (w_content_buffers w))) #}"
proof -
  obtain wb w1 where p: "prepare_write_buffers E (get_keep_alive c) False w = (wb, w1)" by (metis surj_pair)
  with assms(3,8) have c': "c' = async_write wb c" "w' = w1"
    by (auto simp: writer_send_def send_more_data_def)
  have body: "content_text w = concat (w_content_buffers w)"
    using assms(2,4) by (simp add: content_text_def writer_ok_def)
  have bytes: "concat wb = response_head E (get_keep_alive c) False (head_response w) @ concat (w_content_buffers w)"
    using prepare_write_buffers_bytes [of E "get_keep_alive c" False w] p body assms(4,5) by simp
  have resp: "w_response w' = snd (prepare_buffers_for_send E (response_update_first_line E)
      (get_keep_alive c) False (head_response w) [])"
    using prepare_write_buffers_response [OF assms(5), of E "get_keep_alive c" False] p assms(4)
    by (simp add: c'(2))
  have "m_content_length (head_response w) = length (concat (w_content_buffers w))"
    "\<not> m_do_not_send_content_length (head_response w)"
    using assms(2,6,7) by (simp_all add: head_response_def writer_ok_def)
  then have "dict_values E (m_headers (w_response w')) HEADER_CONTENT_LENGTH
      = {# to_string E (length (concat (w_content_buffers w))) #}"
    unfolding resp prepare_buffers_headers
    by (simp add: prepared_content_length [OF assms(1)])
  then show ?thesis using bytes c'(1) by simp
qed

definition sample_writer :: http_response_writer where
  "sample_writer = writer_write ''hello'' (new_response_writer (new_http_request False))"

lemma sample_writer_eq:
  "w_content_buffers sample_writer = [''hello'']" "\<not> w_sending_chunks sample_writer"
  "\<not> w_sent_headers sample_writer" "m_content_length (w_response sample_writer) = 0"
  "\<not> m_do_not_send_content_length (w_response sample_writer)"
  "w_client_supports_chunks sample_writer" "is_body_allowed (w_response sample_writer)"
  by (simp_all add: sample_writer_def writer_write_def new_response_writer_def supports_chunked_messages_def
      add_to_cache_def new_http_response_def update_request_info_def new_http_request_def
      new_http_message_def http_message.defs is_body_allowed_def method_names Let_def)

theorem whole_response_framing_witness:
  "dict_values utils_ref (m_headers (w_response (snd (writer_send utils_ref
       ((new_tcp_connection False (Address_v4 0))\<lparr>tc_open := True\<rparr>) sample_writer)))) HEADER_CONTENT_LENGTH
   = {#''5''#}"
proof -
  have "writer_ok sample_writer" by (simp add: sample_writer_def)
  moreover have "is_open ((new_tcp_connection False (Address_v4 0))\<lparr>tc_open := True\<rparr>)"
    by (simp add: is_open_def)
  moreover have "length (concat (w_content_buffers sample_writer)) = 5" by (simp add: sample_writer_eq)
  moreover have "to_string utils_ref 5 = ''5''" by (simp add: dec_string.simps)
  ultimately show ?thesis
    using whole_response_framing [OF ref.sl_env_axioms _ _ sample_writer_eq(2-5) surjective_pairing,
        of "(new_tcp_connection False (Address_v4 0))\<lparr>tc_open := True\<rparr>"] by metis
qed

text \<open>A streamed response: one chunk per block, the writer cleared before each, then the end.\<close>

fun send_blocks ::
  "sl_utils \<Rightarrow> byte_string list \<Rightarrow> tcp_connection \<Rightarrow> http_response_writer \<Rightarrow> tcp_connection \<times> http_response_writer"
where
  "send_blocks E [] c w = send_final_chunk E c (writer_clear w)"
| "send_blocks E (d # ds) c w =
     (case send_chunk E c (writer_write d (writer_clear w)) of (c1, w1) \<Rightarrow> send_blocks E ds c1 w1)"

lemma write_to_cleared:
  assumes "is_body_allowed (w_response w)" "d \<noteq> []"
  shows "w_content_buffers (writer_write d (writer_clear w)) = [d]"
    "w_content_length (writer_write d (writer_clear w)) = length d"
    "w_response (writer_write d (writer_clear w)) = w_response w"
    "w_client_supports_chunks (writer_write d (writer_clear w)) = w_client_supports_chunks w"
    "w_sent_headers (writer_write d (writer_clear w)) = w_sent_headers w"
  using assms by (simp_all add: writer_write_def writer_clear_def add_to_cache_def)

text \<open>One block, with or without chunk framing.\<close>

lemma send_block:
  assumes "is_open c" "is_body_allowed (w_response w)" "d \<noteq> []"
    and "send_chunk E c (writer_write d (writer_clear w)) = (c1, w1)"
  shows "sent_bytes c1 = sent_bytes c
         @ (if w_sent_headers w then []
            else response_head E (get_keep_alive c \<and> w_client_supports_chunks w) True
                   (w_response w\<lparr>m_content_length := length d\<rparr>))
         @ (if w_client_supports_chunks w then chunk_text d else d)"
    and "is_open c1" "w_sent_headers w1" "w_client_supports_chunks w1 = w_client_supports_chunks w"
    and "is_body_allowed (w_response w1)"
    and "get_keep_alive c1 = (get_keep_alive c \<and> w_client_supports_chunks w)"
proof -
  let ?w = "(writer_write d (writer_clear w))\<lparr>w_sending_chunks := True\<rparr>"
  let ?c = "if w_client_supports_chunks w then c else set_lifecycle Lifecycle_close c"
  let ?ka = "get_keep_alive c \<and> w_client_supports_chunks w"
  note wc = write_to_cleared [OF assms(2,3)]
  have ka: "get_keep_alive ?c = ?ka" by simp
  obtain wb v where p: "prepare_write_buffers E ?ka False ?w = (wb, v)" by (metis surj_pair)
  have res: "c1 = async_write wb ?c" "w1 = v"
    using assms(1,4) p ka by (auto simp: send_chunk_def Let_def wc(4) send_more_data_def split: if_splits)
  have keeps: "w_sent_headers v" "same_content ?w v"
    using prepare_write_buffers_keeps [of E ?ka False ?w] p by simp_all
  have "concat wb = (if w_sent_headers w then [] else response_head E ?ka True (head_response ?w)) @ content_text ?w"
    using prepare_write_buffers_bytes [of E ?ka False ?w] p by (simp add: wc)
  moreover have "head_response ?w = w_response w\<lparr>m_content_length := length d\<rparr>"
    "content_text ?w = (if w_client_supports_chunks w then chunk_text d else d)"
    using assms(3) by (simp_all add: head_response_def content_text_def chunk_text_def wc)
  ultimately show "sent_bytes c1 = sent_bytes c
         @ (if w_sent_headers w then []
            else response_head E ?ka True (w_response w\<lparr>m_content_length := length d\<rparr>))
         @ (if w_client_supports_chunks w then chunk_text d else d)"
    by (simp add: res)
  show "is_open c1" using assms(1) by (simp add: res)
  show "w_sent_headers w1" "w_client_supports_chunks w1 = w_client_supports_chunks w"
    "is_body_allowed (w_response w1)"
    using keeps assms(2) by (simp_all add: res same_content_def wc is_body_allowed_def)
  show "get_keep_alive c1 = ?ka" by (simp add: res)
qed

lemma send_end:
  assumes "is_open c" and "send_final_chunk E c (writer_clear w) = (c1, w1)"
  shows "sent_bytes c1 = sent_bytes c
         @ (if w_sent_headers w then [] else response_head E (get_keep_alive c) True (w_response w))
         @ (if w_client_supports_chunks w then chunked_text [] else [])"
proof -
  let ?w = "(writer_clear w)\<lparr>w_sending_chunks := True\<rparr>"
  obtain wb v where p: "prepare_write_buffers E (get_keep_alive c) True ?w = (wb, v)" by (metis surj_pair)
  have "c1 = async_write wb c"
    using assms p by (auto simp: send_final_chunk_def send_more_data_def)
  moreover have "head_response ?w = w_response w" "content_text ?w = []" "w_sent_headers ?w = w_sent_headers w"
    by (simp_all add: head_response_def content_text_def writer_clear_def)
  ultimately show ?thesis
    using prepare_write_buffers_bytes [of E "get_keep_alive c" True ?w] p
    by (simp add: chunked_text_def writer_clear_def)
qed

text \<open>What follows the head of a streamed response.\<close>

definition streamed_body :: "bool \<Rightarrow> byte_string list \<Rightarrow> byte_string" where
  "streamed_body chunked ds = (if chunked then chunked_text ds else concat ds)"

lemma send_blocks_after_head:
  "is_open c \<Longrightarrow> is_body_allowed (w_response w) \<Longrightarrow> list_all (\<lambda>d. d \<noteq> []) ds \<Longrightarrow> w_sent_headers w
   \<Longrightarrow> sent_bytes (fst (send_blocks E ds c w)) = sent_bytes c @ streamed_body (w_client_supports_chunks w) ds"
proof (induction ds arbitrary: c w)
  case Nil
  obtain c1 w1 where "send_final_chunk E c (writer_clear w) = (c1, w1)" by (metis surj_pair)
  with send_end [OF Nil(1) this] Nil show ?case by (simp add: streamed_body_def)
next
  case (Cons d ds)
  obtain c1 w1 where s: "send_chunk E c (writer_write d (writer_clear w)) = (c1, w1)" by (metis surj_pair)
  have d: "d \<noteq> []" using Cons.prems by simp
  note b = send_block [OF Cons.prems(1,2) d s]
  have "sent_bytes (fst (send_blocks E ds c1 w1)) = sent_bytes c1 @ streamed_body (w_client_supports_chunks w1) ds"
    by (rule Cons.IH) (use b Cons.prems in simp_all)
  with s b Cons.prems(4) show ?case by (simp add: streamed_body_def chunked_text_def)
qed

text \<open>
  C22: a response streamed with \<open>send_chunk\<close> and \<open>send_final_chunk\<close> puts one head on the wire and
  after it, for a client that understands chunks, exactly the chunked encoding of the blocks,
  which \<open>parse_chunks\<close> reads back; for other clients the plain bytes, and then the connection is
  marked to be closed and announced as such.
\<close>

theorem streamed_response_framing:
  assumes "is_open c" and "is_body_allowed (w_response w)" and "list_all (\<lambda>d. d \<noteq> []) (d # ds)"
    and "\<not> w_sent_headers w" and "send_blocks E (d # ds) c w = (c', w')"
  shows "sent_bytes c' = sent_bytes c
       @ response_head E (get_keep_alive c \<and> w_client_supports_chunks w) True
           (w_response w\<lparr>m_content_length := length d\<rparr>)
       @ streamed_body (w_client_supports_chunks w) (d # ds)"
proof -
  obtain c1 w1 where s: "send_chunk E c (writer_write d (writer_clear w)) = (c1, w1)" by (metis surj_pair)
  have d: "d \<noteq> []" using assms(3) by simp
  note b = send_block [OF assms(1,2) d s]
  have "sent_bytes (fst (send_blocks E ds c1 w1)) = sent_bytes c1 @ streamed_body (w_client_supports_chunks w1) ds"
    by (rule send_blocks_after_head) (use b assms(3) in simp_all)
  moreover have "fst (send_blocks E ds c1 w1) = c'" using assms(5) s by simp
  ultimately show ?thesis using b assms(4) by (simp add: streamed_body_def chunked_text_def)
qed

theorem streamed_response_framing_witness:
  "\<exists>head. sent_bytes (fst (send_blocks utils_ref [''Wiki'', ''pedia'']
       ((new_tcp_connection False (Address_v4 0))\<lparr>tc_open := True\<rparr>) sample_writer))
     = head @ ''4'' @ [CR, LF] @ ''Wiki'' @ [CR, LF] @ ''5'' @ [CR, LF] @ ''pedia'' @ [CR, LF] @ ''0'' @ [CR, LF, CR, LF]"
proof -
  let ?c = "(new_tcp_connection False (Address_v4 0))\<lparr>tc_open := True\<rparr>"
  have "is_open ?c" "list_all (\<lambda>d. d \<noteq> []) [''Wiki'', ''pedia'']" "sent_bytes ?c = []"
    by (simp_all add: is_open_def sent_bytes_def new_tcp_connection_def save_read_pos_def)
  moreover have "streamed_body True [''Wiki'', ''pedia'']
      = ''4'' @ [CR, LF] @ ''Wiki'' @ [CR, LF] @ ''5'' @ [CR, LF] @ ''pedia'' @ [CR, LF] @ ''0'' @ [CR, LF, CR, LF]"
  proof -
    have "hex_string 4 = ''4''" "hex_string 5 = ''5''"
      by (simp_all add: hex_string.simps hex_char_def char_of_def bit_0)
    moreover have "length ''Wiki'' = 4" "length ''pedia'' = 5" by simp_all
    ultimately show ?thesis
      by (simp only: streamed_body_def chunked_text_def chunk_text_def list.map concat.simps append_assoc
          append_Nil append_Nil2 if_True)
  qed
  ultimately show ?thesis
    using streamed_response_framing [OF _ sample_writer_eq(7) _ sample_writer_eq(3) surjective_pairing,
        of ?c "''Wiki''" "[''pedia'']" utils_ref] sample_writer_eq(6) by auto
qed

end
