(* ===== verification/Message_Parser.thy ===== *)
theory Message_Parser
  imports Chunk_Run Multipart_Parser
begin

text \<open>
  The driver of \<open>http_parser\<close>: \<open>finish_header_parsing\<close>, \<open>consume_content\<close>,
  \<open>consume_content_as_next_chunk\<close>, \<open>compute_msg_status\<close>, \<open>finish\<close>, \<open>parse\<close>,
  \<open>check_premature_eof\<close> and \<open>skip_header_parsing\<close>.
\<close>

section \<open>After the headers\<close>

text \<open>
  \<open>finished_parsing_headers\<close> is virtual: its override (the server's, see \<open>Http_Server\<close>) may
  change the result code and the message, install a payload handler in the parser, act on the
  outside world \<open>'w\<close>, or throw. The base class does nothing.
\<close>

type_synonym 'w headers_hook =
  "'w \<Rightarrow> error_code \<Rightarrow> tribool \<Rightarrow> http_request
   \<Rightarrow> 'w \<times> (exn + tribool \<times> http_request \<times> payload_handler_type option)"

definition no_hook :: "'w headers_hook" where
  "no_hook w ec rc m = (w, Inr (rc, m, None))"

type_synonym parse_outcome = "exn + tribool \<times> error_code \<times> http_parser \<times> http_request"

text \<open>
  The decision on the body: the result code, parser and message handed to the hook, or
  \<open>None\<close> for an invalid \<open>Content-Length\<close>.
\<close>

definition body_decision ::
  "sl_utils \<Rightarrow> http_parser \<Rightarrow> http_request \<Rightarrow> (tribool \<times> http_parser \<times> http_request) option" where
  "body_decision E p m =
     (if m_is_chunked m then
        Some (if hp_parse_headers_only p then TTrue else Indeterminate,
              p\<lparr>hp_message_state := PARSE_CHUNKS\<rparr>, m)
      else if request_is_content_length_implied m then
        Some (TTrue, p\<lparr>hp_message_state := PARSE_END\<rparr>, m)
      else if has_header E m HEADER_CONTENT_LENGTH then
        (case update_content_length_using_header E m of
           None \<Rightarrow> None
         | Some m1 \<Rightarrow>
             Some (if m_content_length m1 = 0 then (TTrue, p\<lparr>hp_message_state := PARSE_END\<rparr>, m1)
              else
                (let p1 = p\<lparr>hp_message_state := PARSE_CONTENT,
                            hp_bytes_content_remaining := m_content_length m1\<rparr>;
                     m2 = (if hp_bytes_content_remaining p1 > hp_max_content_length p1
                           then m1\<lparr>m_content_length := hp_max_content_length p1\<rparr> else m1)
                 in if hp_parse_headers_only p1 then (TTrue, p1, m2)
                    else (Indeterminate, p1, create_content_buffer m2))))
      else Some (TTrue, p\<lparr>hp_message_state := PARSE_END\<rparr>, m))"

definition finish_header_parsing ::
  "sl_utils \<Rightarrow> 'w headers_hook \<Rightarrow> 'w \<Rightarrow> http_parser \<Rightarrow> http_request \<Rightarrow> error_code \<Rightarrow> 'w \<times> parse_outcome" where
  "finish_header_parsing E hook w p m ec =
     (let p1 = p\<lparr>hp_bytes_content_remaining := 0, hp_bytes_content_read := 0\<rparr>;
          m1 = update_message_with_header_data E p1
                 (update_transfer_encoding_using_header E (m\<lparr>m_content_length := 0\<rparr>))
      in case body_decision E p1 m1 of
           None \<Rightarrow> (w, Inr (TFalse, Some ERROR_INVALID_CONTENT_LENGTH, p1, m1))
         | Some (rc, p2, m2) \<Rightarrow>
             (case hook w ec rc m2 of
                (w', Inl e) \<Rightarrow> (w', Inl e)
              | (w', Inr (rc', m3, ph)) \<Rightarrow>
                  (w', Inr (rc', ec,
                     (case ph of None \<Rightarrow> p2 | Some h \<Rightarrow> set_payload_handler h p2), m3))))"

section \<open>Content\<close>

text \<open>
  \<open>consume_content\<close>: \<open>Inl\<close> is an access outside a buffer; \<open>Inr None\<close> as the result code is the
  exception of the payload handler.
\<close>

definition consume_content ::
  "http_parser \<Rightarrow> http_request \<Rightarrow> exn + (tribool option \<times> http_parser \<times> http_request)" where
  "consume_content p m =
     (let content_bytes_available = bytes_available p in
      if hp_bytes_content_remaining p = 0 then Inr (Some TTrue, p, m)
      else
        (let complete = (content_bytes_available \<ge> hp_bytes_content_remaining p);
             to_read = (if complete then hp_bytes_content_remaining p else content_bytes_available);
             p1 = p\<lparr>hp_bytes_content_remaining := hp_bytes_content_remaining p - to_read\<rparr>;
             block = take to_read (hp_read p);
             p2 = p1\<lparr>hp_read := drop to_read (hp_read p),
                     hp_bytes_content_read := hp_bytes_content_read p + to_read,
                     hp_bytes_total_read := hp_bytes_total_read p + to_read,
                     hp_bytes_last_read := to_read\<rparr>;
             rc = (if complete then TTrue else Indeterminate)
         in case hp_payload_handler p of
              Some h \<Rightarrow>
                (if h (hp_payload_log p) block
                 then Inr (Some rc, p2\<lparr>hp_payload_log := hp_payload_log p @ [block]\<rparr>, m)
                 else Inr (None, p1\<lparr>hp_payload_log := hp_payload_log p @ [block]\<rparr>, m))
            | None \<Rightarrow>
                (if hp_bytes_content_read p < hp_max_content_length p
                 then map_sum id (\<lambda>m'. (Some rc, p2, m'))
                        (write_content (hp_bytes_content_read p)
                           (if hp_bytes_content_read p + to_read > hp_max_content_length p
                            then take (hp_max_content_length p - hp_bytes_content_read p) block
                            else block) m)
                 else Inr (Some rc, p2, m))))"

definition consume_content_as_next_chunk ::
  "http_parser \<Rightarrow> byte_string \<Rightarrow> bool \<times> http_parser \<times> byte_string" where
  "consume_content_as_next_chunk p chunks =
     (if bytes_available p = 0 then (True, p\<lparr>hp_bytes_last_read := 0\<rparr>, chunks)
      else
        (let n = length (hp_read p);
             p1 = p\<lparr>hp_bytes_last_read := n\<rparr>;
             p2 = p1\<lparr>hp_read := [], hp_bytes_total_read := hp_bytes_total_read p + n,
                     hp_bytes_content_read := hp_bytes_content_read p + n\<rparr>
         in case hp_payload_handler p of
              Some h \<Rightarrow>
                (if h (hp_payload_log p) (hp_read p)
                 then (True, p2\<lparr>hp_payload_log := hp_payload_log p @ [hp_read p]\<rparr>, chunks)
                 else (False, p1\<lparr>hp_payload_log := hp_payload_log p @ [hp_read p]\<rparr>, chunks))
            | None \<Rightarrow>
                (True, p2, chunks @ take (hp_max_content_length p - length chunks) (hp_read p))))"

section \<open>The end of a message\<close>

definition compute_msg_status :: "http_request \<Rightarrow> bool \<Rightarrow> http_request" where
  "compute_msg_status m msg_parsed_ok =
     m\<lparr>m_status :=
         (if m_has_missing_packets m
          then (if m_has_data_after_missing m then STATUS_PARTIAL else STATUS_TRUNCATED)
          else (if msg_parsed_ok then STATUS_OK else STATUS_TRUNCATED))\<rparr>"

text \<open>The second half of \<open>finish\<close>: form data in the content.\<close>

definition parse_form_content :: "sl_utils \<Rightarrow> http_request \<Rightarrow> exn + http_request" where
  "parse_form_content E m =
     (let content_type_header = get_header E m HEADER_CONTENT_TYPE in
      if is_prefix_of CONTENT_TYPE_URLENCODED content_type_header then
        (case read_mem (cb_ptr (m_content_buf m)) (m_content_length m) of
           Inl e \<Rightarrow> Inl e
         | Inr bs \<Rightarrow> Inr (m\<lparr>rq_query_params := snd (parse_url_encoded E (rq_query_params m) bs)\<rparr>))
      else if is_prefix_of CONTENT_TYPE_MULTIPART_FORM_DATA content_type_header then
        (case read_mem (cb_ptr (m_content_buf m)) (m_content_length m) of
           Inl e \<Rightarrow> Inl e
         | Inr bs \<Rightarrow>
             map_sum id (\<lambda>r. m\<lparr>rq_query_params := snd r\<rparr>)
               (parse_multipart_form_data E (rq_query_params m) content_type_header bs))
      else Inr m)"

text \<open>The first half: the \<open>switch\<close>; \<open>None\<close> is the early return of \<open>PARSE_START\<close>.\<close>

definition finish_state ::
  "sl_utils \<Rightarrow> http_parser \<Rightarrow> http_request \<Rightarrow> (exn + http_request) option" where
  "finish_state E p m =
     (case hp_message_state p of
        PARSE_START \<Rightarrow> None
      | PARSE_END \<Rightarrow> Some (Inr (m\<lparr>m_is_valid := True\<rparr>))
      | PARSE_CONTENT \<Rightarrow>
          (let m1 = m\<lparr>m_is_valid := False\<rparr>
           in Some (Inr (if hp_bytes_content_read p < hp_max_content_length p
                         then m1\<lparr>m_content_length := hp_bytes_content_read p\<rparr> else m1)))
      | PARSE_CHUNKS \<Rightarrow>
          (let m1 = m\<lparr>m_is_valid := (hp_chunk_state p = PARSE_CHUNK_SIZE_START)\<rparr>
           in Some (if hp_payload_handler p = None then concatenate_chunks m1 else Inr m1))
      | PARSE_CONTENT_NO_LENGTH \<Rightarrow>
          (let m1 = m\<lparr>m_is_valid := True\<rparr>
           in Some (if hp_payload_handler p = None then concatenate_chunks m1 else Inr m1))
      | _ \<Rightarrow>
          Some (Inr (create_content_buffer
            ((update_message_with_header_data E p (m\<lparr>m_is_valid := False\<rparr>))
               \<lparr>m_content_length := 0\<rparr>))))"

definition finish :: "sl_utils \<Rightarrow> http_parser \<Rightarrow> http_request \<Rightarrow> exn + http_request" where
  "finish E p m =
     (case finish_state E p m of
        None \<Rightarrow> Inr (create_content_buffer (m\<lparr>m_is_valid := False, m_content_length := 0\<rparr>))
      | Some (Inl e) \<Rightarrow> Inl e
      | Some (Inr m1) \<Rightarrow>
          (let m2 = compute_msg_status m1 (m_is_valid m1)
           in if hp_payload_handler p = None \<and> \<not> hp_parse_headers_only p
              then parse_form_content E m2 else Inr m2))"

section \<open>The driver loop\<close>

text \<open>One pass of the \<open>do\<close> loop; the number is what it adds to \<open>total_bytes_parsed\<close>.\<close>

type_synonym pass_outcome = "exn + tribool \<times> nat \<times> error_code \<times> http_parser \<times> http_request"

definition headers_pass ::
  "sl_utils \<Rightarrow> 'w headers_hook \<Rightarrow> 'w \<Rightarrow> http_parser \<Rightarrow> http_request \<Rightarrow> error_code \<Rightarrow> 'w \<times> pass_outcome" where
  "headers_pass E hook w p m ec =
     (case parse_headers p m ec of
        (rc, ec1, p1, m1) \<Rightarrow>
          (let n = hp_bytes_last_read p1 in
           if rc = TTrue \<and> hp_message_state p1 = PARSE_HEADERS
           then map_prod id (map_sum id (\<lambda>(rc', ec', p', m'). (rc', n, ec', p', m')))
                  (finish_header_parsing E hook w p1 m1 ec1)
           else (w, Inr (rc, n, ec1, p1, m1))))"

definition chunks_pass :: "http_parser \<Rightarrow> http_request \<Rightarrow> error_code \<Rightarrow> pass_outcome" where
  "chunks_pass p m ec =
     (case parse_chunks p (m_chunk_cache m) ec of
        (None, ec1, p1, chunks) \<Rightarrow> Inr (TFalse, 0, ec1, p1, m\<lparr>m_chunk_cache := chunks\<rparr>)
      | (Some rc, ec1, p1, chunks) \<Rightarrow>
          (let m1 = m\<lparr>m_chunk_cache := chunks\<rparr>; n = hp_bytes_last_read p1
           in if rc = TTrue \<and> hp_payload_handler p1 = None
              then map_sum id
                     (\<lambda>m2. (if hp_message_state p1 = PARSE_FOOTERS then Indeterminate else TTrue,
                            n, ec1, p1, m2))
                     (concatenate_chunks m1)
              else Inr (rc, n, ec1, p1, m1)))"

definition content_pass :: "http_parser \<Rightarrow> http_request \<Rightarrow> error_code \<Rightarrow> pass_outcome" where
  "content_pass p m ec =
     map_sum id
       (\<lambda>(rc, p1, m1). case rc of
            None \<Rightarrow> (TFalse, 0, ec, p1, m1)
          | Some rc' \<Rightarrow> (rc', hp_bytes_last_read p1, ec, p1, m1))
       (consume_content p m)"

definition no_length_pass :: "http_parser \<Rightarrow> http_request \<Rightarrow> error_code \<Rightarrow> pass_outcome" where
  "no_length_pass p m ec =
     (case consume_content_as_next_chunk p (m_chunk_cache m) of
        (ok, p1, chunks) \<Rightarrow>
          Inr (if ok then Indeterminate else TFalse, if ok then hp_bytes_last_read p1 else 0, ec, p1,
               m\<lparr>m_chunk_cache := chunks\<rparr>))"

definition parse_pass ::
  "sl_utils \<Rightarrow> 'w headers_hook \<Rightarrow> 'w \<Rightarrow> http_parser \<Rightarrow> http_request \<Rightarrow> error_code \<Rightarrow> 'w \<times> pass_outcome" where
  "parse_pass E hook w p m ec =
     (case hp_message_state p of
        PARSE_START \<Rightarrow> headers_pass E hook w (p\<lparr>hp_message_state := PARSE_HEADERS\<rparr>) m ec
      | PARSE_HEADERS \<Rightarrow> headers_pass E hook w p m ec
      | PARSE_FOOTERS \<Rightarrow> headers_pass E hook w p m ec
      | PARSE_CHUNKS \<Rightarrow> (w, chunks_pass p m ec)
      | PARSE_CONTENT \<Rightarrow> (w, content_pass p m ec)
      | PARSE_CONTENT_NO_LENGTH \<Rightarrow> (w, no_length_pass p m ec)
      | PARSE_END \<Rightarrow> (w, Inr (TTrue, 0, ec, p, m)))"

section \<open>What the passes keep\<close>

text \<open>The header loop keeps the members of the other phases.\<close>

definition head_frame :: "http_parser \<Rightarrow> http_parser \<Rightarrow> bool" where
  "head_frame p q \<longleftrightarrow>
     hp_message_state q = hp_message_state p \<and> hp_chunk_state q = hp_chunk_state p
     \<and> hp_payload_handler q = hp_payload_handler p \<and> hp_payload_log q = hp_payload_log p
     \<and> hp_size_of_current_chunk q = hp_size_of_current_chunk p
     \<and> hp_bytes_read_in_current_chunk q = hp_bytes_read_in_current_chunk p
     \<and> hp_bytes_content_remaining q = hp_bytes_content_remaining p
     \<and> hp_bytes_content_read q = hp_bytes_content_read p
     \<and> hp_max_content_length q = hp_max_content_length p
     \<and> hp_parse_headers_only q = hp_parse_headers_only p
     \<and> hp_save_raw_headers q = hp_save_raw_headers p"

text \<open>The header loop changes of the message only the version, the first line and the headers.\<close>

definition head_message_frame :: "http_request \<Rightarrow> http_request \<Rightarrow> bool" where
  "head_message_frame m n \<longleftrightarrow>
     m_content_buf n = m_content_buf m \<and> m_content_length n = m_content_length m
     \<and> m_chunk_cache n = m_chunk_cache m \<and> m_is_chunked n = m_is_chunked m
     \<and> rq_query_params n = rq_query_params m \<and> m_has_missing_packets n = m_has_missing_packets m
     \<and> m_has_data_after_missing n = m_has_data_after_missing m"

fun header_result_frame :: "http_parser \<Rightarrow> http_request \<Rightarrow> header_result \<Rightarrow> bool" where
  "header_result_frame p m (H_next q n) = (head_frame p q \<and> head_message_frame m n)"
| "header_result_frame p m (H_done b q n) = (head_frame p q \<and> head_message_frame m n)"
| "header_result_frame p m (H_error e q n) = (head_frame p q \<and> head_message_frame m n)"

fun header_run_frame :: "http_parser \<Rightarrow> http_request \<Rightarrow> header_run \<Rightarrow> bool" where
  "header_run_frame p m (R_more q n) = (head_frame p q \<and> head_message_frame m n)"
| "header_run_frame p m (R_done r q n) = (head_frame p q \<and> head_message_frame m n)"
| "header_run_frame p m (R_error e r q n) = (head_frame p q \<and> head_message_frame m n)"

lemma head_frame_refl [simp]: "head_frame p p" "head_message_frame m m"
  by (simp_all add: head_frame_def head_message_frame_def)

lemma header_step_keeps: "header_result_frame p m (header_step c p m)"
  by (cases "hp_headers_state p")
     (simp_all add: header_step_def header_case_defs head_frame_def head_message_frame_def
        begin_header_name_def add_header_def set_version_0_0_def set_version_major_def
        set_version_minor_def clear_first_line_def)

lemma save_raw_keeps: "head_frame (save_raw c p) q = head_frame p q"
  by (simp add: save_raw_def head_frame_def)

lemma head_frame_trans:
  "head_frame p q \<Longrightarrow> head_frame q r \<Longrightarrow> head_frame p r"
  "head_message_frame m n \<Longrightarrow> head_message_frame n k \<Longrightarrow> head_message_frame m k"
  by (simp_all add: head_frame_def head_message_frame_def)

lemma run_headers_keeps: "header_run_frame p m (run_headers p m s)"
proof (induction p m s rule: run_headers.induct)
  case (2 p m c cs)
  have "header_result_frame p m (header_step c (save_raw c p) m)"
    using header_step_keeps [of "save_raw c p" m c]
    by (cases "header_step c (save_raw c p) m") (simp_all add: save_raw_keeps)
  with 2 show ?case
    by (cases "header_step c (save_raw c p) m"; cases "run_headers p m cs")
       (auto elim!: header_run_frame.elims intro: head_frame_trans)
qed simp

lemma parse_headers_keeps:
  assumes "parse_headers p m ec = (rc, ec', p', m')"
  shows "head_frame p p'" "head_message_frame m m'"
    and "rc = Indeterminate \<Longrightarrow> hp_read p' = []" and "suffix (hp_read p') (hp_read p)"
proof -
  have p: "p = set_read_buffer (hp_read p) p" by (simp add: set_read_buffer_def)
  have eq: "parse_headers (set_read_buffer (hp_read p) p) m ec = (rc, ec', p', m')"
    using assms p by simp
  have fr: "head_frame p (reposition r l t q) = head_frame p q" for r l t q
    by (simp add: head_frame_def reposition_def)
  from eq run_headers_keeps [of p m "hp_read p"]
  show "head_frame p p'" "head_message_frame m m'"
    unfolding parse_headers_run by (auto split: header_run.splits simp: fr Let_def)
  from eq show "rc = Indeterminate \<Longrightarrow> hp_read p' = []"
    unfolding parse_headers_run by (auto split: header_run.splits simp: Let_def)
  from eq show "suffix (hp_read p') (hp_read p)"
    unfolding parse_headers_run
    by (auto split: header_run.splits simp: Let_def
        dest: run_headers_done_suffix run_headers_error_suffix)
qed

lemma parse_chunks_keeps:
  assumes "parse_chunks p ch ec = (rc, ec', p', ch')"
  shows "chunk_frame p p'" and "rc = Some Indeterminate \<Longrightarrow> hp_read p' = []"
    and "hp_message_state p' = hp_message_state p
         \<or> rc = Some TTrue \<and> hp_message_state p' = PARSE_FOOTERS \<and> hp_headers_state p' = PARSE_HEADER_START"
    and "length ch \<le> hp_max_content_length p \<Longrightarrow> length ch' \<le> hp_max_content_length p"
    and "hp_headers_state p' = hp_headers_state p \<or> hp_headers_state p' = PARSE_HEADER_START"
proof -
  have "p = set_read_buffer (hp_read p) p" by (simp add: set_read_buffer_def)
  then have eq: "parse_chunks (set_read_buffer (hp_read p) p) ch ec = (rc, ec', p', ch')"
    using assms by simp
  have fr: "chunk_frame p (recount r l t b q) = chunk_frame p q"
    "hp_message_state (recount r l t b q) = hp_message_state q"
    "hp_headers_state (recount r l t b q) = hp_headers_state q" for r l t b q
    by (simp_all add: chunk_frame_def recount_def)
  note unfold = eq [unfolded parse_chunks_run Let_def]
  note keeps = run_chunks_keeps [of p ch "hp_read p"]
  from unfold keeps show "chunk_frame p p'"
    by (auto split: chunk_run.splits simp: fr)
  from unfold show "rc = Some Indeterminate \<Longrightarrow> hp_read p' = []"
    by (auto split: chunk_run.splits)
  from unfold keeps show "hp_message_state p' = hp_message_state p
      \<or> rc = Some TTrue \<and> hp_message_state p' = PARSE_FOOTERS \<and> hp_headers_state p' = PARSE_HEADER_START"
    by (auto split: chunk_run.splits simp: fr)
  from unfold run_chunks_cache [of ch p "hp_read p"]
  show "length ch \<le> hp_max_content_length p \<Longrightarrow> length ch' \<le> hp_max_content_length p"
    by (auto split: chunk_run.splits)
  from unfold keeps show "hp_headers_state p' = hp_headers_state p \<or> hp_headers_state p' = PARSE_HEADER_START"
    by (auto split: chunk_run.splits simp: fr)
qed

section \<open>Termination of the driver loop\<close>

text \<open>A pass that leaves the result open either empties the buffer or enters a later phase.\<close>

fun phase_rank :: "message_parse_state_type \<Rightarrow> nat" where
  "phase_rank PARSE_START = 4"
| "phase_rank PARSE_HEADERS = 3"
| "phase_rank PARSE_CHUNKS = 2"
| "phase_rank PARSE_CONTENT = 2"
| "phase_rank PARSE_CONTENT_NO_LENGTH = 2"
| "phase_rank PARSE_FOOTERS = 1"
| "phase_rank PARSE_END = 0"

lemma body_decision_rank:
  "body_decision E p m = Some (rc, p', m') \<Longrightarrow> phase_rank (hp_message_state p') < 3"
  by (auto simp: body_decision_def Let_def split: if_splits option.splits)

lemma finish_header_rank:
  "finish_header_parsing E hook w p m ec = (w', Inr (Indeterminate, ec', p', m'))
   \<Longrightarrow> phase_rank (hp_message_state p') < 3"
  by (auto simp: finish_header_parsing_def Let_def set_payload_handler_def
      split: option.splits prod.splits sum.splits dest!: body_decision_rank)

lemma headers_pass_rank:
  assumes "headers_pass E hook w p m ec = (w', Inr (Indeterminate, n, ec', p', m'))"
    and "\<not> eof p'"
  shows "hp_message_state p = PARSE_HEADERS \<and> phase_rank (hp_message_state p') < 3"
proof -
  obtain rc ec1 p1 m1 where h: "parse_headers p m ec = (rc, ec1, p1, m1)" by (metis surj_pair)
  note keeps = parse_headers_keeps [OF h]
  show ?thesis
  proof (cases "rc = TTrue \<and> hp_message_state p1 = PARSE_HEADERS")
    case True
    with assms h keeps(1) show ?thesis
      by (auto simp: headers_pass_def head_frame_def map_prod_def map_sum_def
          split: prod.splits sum.splits dest!: finish_header_rank)
  next
    case False
    with assms h keeps(3) show ?thesis by (auto simp: headers_pass_def eof_def)
  qed
qed

lemma chunks_pass_rank:
  assumes "chunks_pass p m ec = Inr (Indeterminate, n, ec', p', m')" and "\<not> eof p'"
  shows "hp_message_state p' = PARSE_FOOTERS"
proof -
  obtain rc ec1 p1 ch where h: "parse_chunks p (m_chunk_cache m) ec = (rc, ec1, p1, ch)" by (metis surj_pair)
  from assms h parse_chunks_keeps(2) [OF h] show ?thesis
    by (auto simp: chunks_pass_def eof_def map_sum_def Let_def split: option.splits if_splits sum.splits)
qed

lemma content_pass_rank:
  "content_pass p m ec = Inr (Indeterminate, n, ec', p', m') \<Longrightarrow> eof p'"
  by (auto simp: content_pass_def consume_content_def eof_def bytes_available_def Let_def map_sum_def
      split: option.splits if_splits sum.splits)

lemma no_length_pass_rank:
  "no_length_pass p m ec = Inr (Indeterminate, n, ec', p', m') \<Longrightarrow> eof p'"
  by (auto simp: no_length_pass_def consume_content_as_next_chunk_def eof_def bytes_available_def Let_def
      split: option.splits if_splits)

lemma parse_pass_rank:
  assumes "parse_pass E hook w p m ec = (w', Inr (Indeterminate, n, ec', p', m'))" and "\<not> eof p'"
  shows "phase_rank (hp_message_state p') < phase_rank (hp_message_state p)"
  using assms
  by (cases "hp_message_state p")
     (auto simp: parse_pass_def dest: headers_pass_rank chunks_pass_rank content_pass_rank no_length_pass_rank)

function parse_loop ::
  "sl_utils \<Rightarrow> 'w headers_hook \<Rightarrow> 'w \<Rightarrow> nat \<Rightarrow> http_parser \<Rightarrow> http_request \<Rightarrow> error_code \<Rightarrow> 'w \<times> pass_outcome"
where
  "parse_loop E hook w parsed p m ec =
     (case parse_pass E hook w p m ec of
        (w', Inl e) \<Rightarrow> (w', Inl e)
      | (w', Inr (rc, n, ec', p', m')) \<Rightarrow>
          if rc = Indeterminate \<and> \<not> eof p'
          then parse_loop E hook w' (parsed + n) p' m' ec'
          else (w', Inr (rc, parsed + n, ec', p', m')))"
  by pat_completeness auto
termination
  by (relation "measure (\<lambda>(E, hook, w, parsed, p, m, ec). phase_rank (hp_message_state p))")
     (auto dest!: sym [of _ "parse_pass _ _ _ _ _ _"] dest: parse_pass_rank)

declare parse_loop.simps [simp del]

text \<open>\<open>parse\<close>: the code after the loop sets the final state and the aggregated counter.\<close>

definition parse_end ::
  "sl_utils \<Rightarrow> tribool \<times> nat \<times> error_code \<times> http_parser \<times> http_request \<Rightarrow> parse_outcome" where
  "parse_end E r =
     (case r of (rc, n, ec, p, m) \<Rightarrow>
        (case rc of
           TTrue \<Rightarrow>
             (let p1 = p\<lparr>hp_message_state := PARSE_END\<rparr>
              in map_sum id (\<lambda>m1. (rc, ec, p1\<lparr>hp_bytes_last_read := n\<rparr>, m1)) (finish E p1 m))
         | TFalse \<Rightarrow> Inr (rc, ec, p\<lparr>hp_bytes_last_read := n\<rparr>, compute_msg_status m False)
         | Indeterminate \<Rightarrow> Inr (rc, ec, p\<lparr>hp_bytes_last_read := n\<rparr>, m)))"

definition parse ::
  "sl_utils \<Rightarrow> 'w headers_hook \<Rightarrow> 'w \<Rightarrow> http_parser \<Rightarrow> http_request \<Rightarrow> error_code \<Rightarrow> 'w \<times> parse_outcome" where
  "parse E hook w p m ec =
     (let m1 = (if m_has_missing_packets m then m\<lparr>m_has_data_after_missing := True\<rparr> else m)
      in case parse_loop E hook w 0 p m1 ec of
           (w', Inl e) \<Rightarrow> (w', Inl e)
         | (w', Inr r) \<Rightarrow> (w', parse_end E r))"

definition check_premature_eof ::
  "sl_utils \<Rightarrow> http_parser \<Rightarrow> http_request \<Rightarrow> exn + (bool \<times> http_parser \<times> http_request)" where
  "check_premature_eof E p m =
     (if hp_message_state p \<noteq> PARSE_CONTENT_NO_LENGTH then Inr (True, p, m)
      else
        (let p1 = p\<lparr>hp_message_state := PARSE_END\<rparr>
         in case concatenate_chunks m of
              Inl e \<Rightarrow> Inl e
            | Inr m1 \<Rightarrow> map_sum id (\<lambda>m2. (False, p1, m2)) (finish E p1 m1)))"

definition skip_header_parsing ::
  "sl_utils \<Rightarrow> 'w headers_hook \<Rightarrow> 'w \<Rightarrow> http_parser \<Rightarrow> http_request \<Rightarrow> 'w \<times> parse_outcome" where
  "skip_header_parsing E hook w p m = finish_header_parsing E hook w p m None"

end
