(* ===== verification/Parser_Safety.thy ===== *)
theory Parser_Safety
  imports Message_Parser
begin

text \<open>
  Safety of \<open>http_parser::parse\<close>: an invariant of parser and message that every call keeps,
  under which no access leaves the content buffer, the limits hold, and the phase that reads to
  the end of the connection is never entered.
\<close>

section \<open>The contract of \<open>finished_parsing_headers\<close>\<close>

text \<open>
  What the parser relies on when it calls the virtual function: the override may finish the
  message but does not reopen it, leaves the content members of the message and the
  well-formedness of the headers alone, and does not itself write outside a buffer.
\<close>

locale headers_contract =
  fixes hook :: "'w headers_hook"
  assumes hook_rc: "hook w ec rc m = (w', Inr (rc', m', ph)) \<Longrightarrow> rc' = rc \<or> rc' = TTrue"
    and hook_content: "hook w ec rc m = (w', Inr (rc', m', ph)) \<Longrightarrow>
      m_content_buf m' = m_content_buf m \<and> m_content_length m' = m_content_length m
      \<and> m_chunk_cache m' = m_chunk_cache m"
    and hook_headers: "hook w ec rc m = (w', Inr (rc', m', ph)) \<Longrightarrow>
      list_all header_ok (m_headers m) \<Longrightarrow> list_all header_ok (m_headers m')"
    and hook_safe: "hook w ec rc m = (w', Inl e) \<Longrightarrow> e \<noteq> Memory_fault"

interpretation base_hook: headers_contract no_hook
  by unfold_locales (auto simp: no_hook_def)

section \<open>The invariant\<close>

definition content_inv :: "http_parser \<Rightarrow> http_request \<Rightarrow> bool" where
  "content_inv p m \<longleftrightarrow>
     cb_ptr (m_content_buf m) \<noteq> []
     \<and> (hp_payload_handler p = None \<and> \<not> hp_parse_headers_only p
        \<longrightarrow> m_content_length m < length (cb_ptr (m_content_buf m)))
     \<and> (hp_payload_handler p = None \<and> hp_message_state p = PARSE_CONTENT
        \<longrightarrow> length (cb_ptr (m_content_buf m)) = m_content_length m + 1
          \<and> m_content_length m
              = min (hp_bytes_content_read p + hp_bytes_content_remaining p) (hp_max_content_length p))
     \<and> length (m_chunk_cache m) \<le> hp_max_content_length p \<and> hp_max_content_length p < SIZE_MAX"

definition parser_inv :: "http_parser \<Rightarrow> http_request \<Rightarrow> bool" where
  "parser_inv p m \<longleftrightarrow>
     header_inv p m \<and> content_inv p m \<and> hp_message_state p \<noteq> PARSE_CONTENT_NO_LENGTH"

text \<open>After a pass that finishes the message, \<open>parse\<close> sets the state to \<open>PARSE_END\<close>.\<close>

definition settle :: "tribool \<Rightarrow> http_parser \<Rightarrow> http_parser" where
  "settle rc p = (if rc = TTrue then p\<lparr>hp_message_state := PARSE_END\<rparr> else p)"

fun pass_inv :: "pass_outcome \<Rightarrow> bool" where
  "pass_inv (Inl e) = (e \<noteq> Memory_fault)"
| "pass_inv (Inr (rc, n, ec, p, m)) = parser_inv (settle rc p) m"

lemma header_inv_keep [simp]:
  "header_inv (p\<lparr>hp_message_state := s\<rparr>) m = header_inv p m"
  "header_inv (p\<lparr>hp_bytes_content_read := a\<rparr>) m = header_inv p m"
  "header_inv (p\<lparr>hp_bytes_content_remaining := b\<rparr>) m = header_inv p m"
  "header_inv (p\<lparr>hp_bytes_total_read := b\<rparr>) m = header_inv p m"
  "header_inv (p\<lparr>hp_payload_log := l\<rparr>) m = header_inv p m"
  "header_inv (p\<lparr>hp_payload_handler := h\<rparr>) m = header_inv p m"
  "header_inv (settle rc p) m = header_inv p m"
  by (simp_all add: header_inv_def settle_def)

lemma header_inv_message: "m_headers m' = m_headers m \<Longrightarrow> header_inv p m' = header_inv p m"
  by (simp add: header_inv_def)

lemma parser_inv_new: "mx < SIZE_MAX \<Longrightarrow> parser_inv (new_http_parser g1 g2 mx) (new_http_request g)"
  using header_inv_new [of g1 g2 mx g]
  by (simp add: parser_inv_def content_inv_def new_http_parser_def new_http_request_def
      new_http_message_def http_message.defs content_buffer_clear_def)

section \<open>Buffers\<close>

lemma write_content_fits:
  assumes "off + length bs \<le> length (cb_ptr (m_content_buf m))"
  shows "\<exists>q. write_content off bs m = Inr (m\<lparr>m_content_buf := (m_content_buf m)\<lparr>cb_ptr := q\<rparr>\<rparr>)
       \<and> length q = length (cb_ptr (m_content_buf m))"
  using assms by (auto simp: write_content_def memcpy_at_def)

text \<open>The message after \<open>concatenate_chunks\<close>, the bytes of the new buffer left open.\<close>

definition with_content :: "nat \<Rightarrow> byte_string \<Rightarrow> http_request \<Rightarrow> http_request" where
  "with_content n q m = m\<lparr>m_content_length := n, m_content_buf := \<lparr>cb_len = n, cb_ptr = q\<rparr>\<rparr>"

lemma with_content_sel [simp]:
  "m_content_length (with_content n q m) = n" "cb_ptr (m_content_buf (with_content n q m)) = q"
  "m_headers (with_content n q m) = m_headers m" "m_chunk_cache (with_content n q m) = m_chunk_cache m"
  by (simp_all add: with_content_def)

lemma concatenate_chunks_fits:
  "length (m_chunk_cache m) < SIZE_MAX \<Longrightarrow> \<exists>q. concatenate_chunks m = Inr (with_content (length (m_chunk_cache m)) q m)
     \<and> length q = length (m_chunk_cache m) + 1"
  by (auto simp: concatenate_chunks_def create_content_buffer_def resize_fits write_content_def
      memcpy_at_def Let_def with_content_def)

section \<open>The phases\<close>

text \<open>
  \<open>consume_content\<close> in terms of the number \<open>n\<close> of bytes it takes: what becomes of the parser,
  and of the message when the bytes are stored.
\<close>

definition content_taken :: "nat \<Rightarrow> http_parser \<Rightarrow> http_parser" where
  "content_taken n p = p\<lparr>hp_bytes_content_remaining := hp_bytes_content_remaining p - n,
     hp_read := drop n (hp_read p), hp_bytes_content_read := hp_bytes_content_read p + n,
     hp_bytes_total_read := hp_bytes_total_read p + n, hp_bytes_last_read := n\<rparr>"

definition content_wanted :: "http_parser \<Rightarrow> nat" where
  "content_wanted p = min (bytes_available p) (hp_bytes_content_remaining p)"

abbreviation content_rc :: "http_parser \<Rightarrow> tribool" where
  "content_rc p \<equiv> if bytes_available p \<ge> hp_bytes_content_remaining p then TTrue else Indeterminate"

lemma content_wanted_if:
  "(if bytes_available p \<ge> hp_bytes_content_remaining p then hp_bytes_content_remaining p
    else bytes_available p) = content_wanted p"
  by (simp add: content_wanted_def min_def)

lemma consume_handled:
  assumes "hp_bytes_content_remaining p \<noteq> 0" and "hp_payload_handler p = Some h"
  shows "consume_content p m =
    (let n = content_wanted p; log = hp_payload_log p @ [take n (hp_read p)] in
     if h (hp_payload_log p) (take n (hp_read p))
     then Inr (Some (content_rc p), (content_taken n p)\<lparr>hp_payload_log := log\<rparr>, m)
     else Inr (None, p\<lparr>hp_bytes_content_remaining := hp_bytes_content_remaining p - n,
                        hp_payload_log := log\<rparr>, m))"
  using assms unfolding consume_content_def Let_def content_wanted_if
  by (simp add: content_taken_def)

lemma consume_stored:
  assumes "hp_bytes_content_remaining p \<noteq> 0" and "hp_payload_handler p = None"
    and "hp_bytes_content_read p < hp_max_content_length p"
  shows "consume_content p m =
    map_sum id (\<lambda>m'. (Some (content_rc p), content_taken (content_wanted p) p, m'))
      (write_content (hp_bytes_content_read p)
         (take (hp_max_content_length p - hp_bytes_content_read p) (take (content_wanted p) (hp_read p))) m)"
proof -
  have "(if hp_bytes_content_read p + n > hp_max_content_length p
         then take (hp_max_content_length p - hp_bytes_content_read p) (take n (hp_read p))
         else take n (hp_read p))
      = take (hp_max_content_length p - hp_bytes_content_read p) (take n (hp_read p))" for n
    using assms(3) by (simp add: min.absorb2)
  then show ?thesis
    using assms unfolding consume_content_def Let_def content_wanted_if
    by (simp add: content_taken_def)
qed

lemma consume_dropped:
  assumes "hp_bytes_content_remaining p \<noteq> 0" and "hp_payload_handler p = None"
    and "\<not> hp_bytes_content_read p < hp_max_content_length p"
  shows "consume_content p m = Inr (Some (content_rc p), content_taken (content_wanted p) p, m)"
  using assms unfolding consume_content_def Let_def content_wanted_if
  by (simp add: content_taken_def)

lemma consume_none_left: "hp_bytes_content_remaining p = 0 \<Longrightarrow> consume_content p m = Inr (Some TTrue, p, m)"
  by (simp add: consume_content_def)

lemma settle_sel [simp]:
  "hp_payload_handler (settle rc p) = hp_payload_handler p"
  "hp_parse_headers_only (settle rc p) = hp_parse_headers_only p"
  "hp_max_content_length (settle rc p) = hp_max_content_length p"
  "hp_bytes_content_read (settle rc p) = hp_bytes_content_read p"
  "hp_bytes_content_remaining (settle rc p) = hp_bytes_content_remaining p"
  "hp_message_state (settle rc p) = (if rc = TTrue then PARSE_END else hp_message_state p)"
  by (simp_all add: settle_def)

lemma content_taken_sel [simp]:
  "hp_payload_handler (content_taken n p) = hp_payload_handler p"
  "hp_parse_headers_only (content_taken n p) = hp_parse_headers_only p"
  "hp_max_content_length (content_taken n p) = hp_max_content_length p"
  "hp_bytes_content_read (content_taken n p) = hp_bytes_content_read p + n"
  "hp_bytes_content_remaining (content_taken n p) = hp_bytes_content_remaining p - n"
  "hp_message_state (content_taken n p) = hp_message_state p"
  "header_inv (content_taken n p) m = header_inv p m"
  by (simp_all add: content_taken_def header_inv_def)

lemma content_taken_inv:
  assumes "parser_inv p m" and "hp_message_state p = PARSE_CONTENT" and "n \<le> hp_bytes_content_remaining p"
    and "length q = length (cb_ptr (m_content_buf m))"
  shows "parser_inv (settle rc (content_taken n p)) (m\<lparr>m_content_buf := (m_content_buf m)\<lparr>cb_ptr := q\<rparr>\<rparr>)"
proof -
  have "q \<noteq> []" using assms(1,4) by (cases q) (auto simp: parser_inv_def content_inv_def)
  with assms show ?thesis
    by (simp add: parser_inv_def content_inv_def header_inv_message [of "m\<lparr>m_content_buf := _\<rparr>" m])
qed

lemma content_pass_inv:
  assumes "parser_inv p m" and "hp_message_state p = PARSE_CONTENT"
  shows "pass_inv (content_pass p m ec)"
proof -
  let ?n = "content_wanted p"
  have n: "?n \<le> hp_bytes_content_remaining p" by (simp add: content_wanted_def)
  have keep: "m\<lparr>m_content_buf := (m_content_buf m)\<lparr>cb_ptr := cb_ptr (m_content_buf m)\<rparr>\<rparr> = m" by simp
  note taken = content_taken_inv [OF assms n]
  consider (none) "hp_bytes_content_remaining p = 0"
    | (handled) h where "hp_bytes_content_remaining p \<noteq> 0" "hp_payload_handler p = Some h"
    | (stored) "hp_bytes_content_remaining p \<noteq> 0" "hp_payload_handler p = None"
        "hp_bytes_content_read p < hp_max_content_length p"
    | (dropped) "hp_bytes_content_remaining p \<noteq> 0" "hp_payload_handler p = None"
        "\<not> hp_bytes_content_read p < hp_max_content_length p"
    by (cases "hp_payload_handler p") auto
  then show ?thesis
  proof cases
    case none
    with assms show ?thesis
      by (simp add: content_pass_def consume_none_left parser_inv_def content_inv_def)
  next
    case handled
    with assms show ?thesis
      by (simp add: content_pass_def consume_handled Let_def parser_inv_def content_inv_def settle_def)
  next
    case stored
    let ?bs = "take (hp_max_content_length p - hp_bytes_content_read p) (take ?n (hp_read p))"
    have "hp_bytes_content_read p + length ?bs \<le> length (cb_ptr (m_content_buf m))"
      using stored assms n by (simp add: parser_inv_def content_inv_def)
    from write_content_fits [OF this] taken show ?thesis
      by (auto simp: content_pass_def consume_stored [OF stored])
  next
    case dropped
    then show ?thesis using taken [OF refl] by (simp add: content_pass_def consume_dropped keep)
  qed
qed

lemma parser_inv_outside_content:
  assumes "header_inv p m" "hp_message_state p \<noteq> PARSE_CONTENT" "hp_message_state p \<noteq> PARSE_CONTENT_NO_LENGTH"
    and "hp_payload_handler p = None \<Longrightarrow> \<not> hp_parse_headers_only p
         \<Longrightarrow> m_content_length m < length (cb_ptr (m_content_buf m))"
    and "length (m_chunk_cache m) \<le> hp_max_content_length p" "hp_max_content_length p < SIZE_MAX"
    and "cb_ptr (m_content_buf m) \<noteq> []"
  shows "parser_inv p m"
  using assms by (simp add: parser_inv_def content_inv_def)

lemma parser_inv_no_length: "parser_inv p m \<Longrightarrow> hp_message_state p \<noteq> PARSE_CONTENT_NO_LENGTH"
  by (simp add: parser_inv_def)

text \<open>The chunk loop keeps the invariant of the parsed data; before footers it resets the state.\<close>

lemma parse_chunks_header_inv:
  assumes "parse_chunks p ch ec = (rc, ec', p', ch')" and "header_inv p m"
  shows "header_inv p' m"
proof -
  have same: "hp_headers_state p' = hp_headers_state p \<or> hp_headers_state p' = PARSE_HEADER_START"
    using parse_chunks_keeps(5) [OF assms(1)] .
  have fields: "hp_method p' = hp_method p" "hp_resource p' = hp_resource p"
    "hp_query_string p' = hp_query_string p" "hp_header_name p' = hp_header_name p"
    "hp_header_value p' = hp_header_value p"
    using parse_chunks_keeps(1) [OF assms(1)] by (simp_all add: chunk_frame_def)
  from same show ?thesis
  proof
    assume "hp_headers_state p' = hp_headers_state p"
    with assms(2) show ?thesis by (simp add: header_inv_def fields)
  next
    assume "hp_headers_state p' = PARSE_HEADER_START"
    with assms(2) show ?thesis by (simp add: header_inv_def fields status_state_def)
  qed
qed

lemma chunks_pass_inv:
  assumes "parser_inv p m" and "hp_message_state p = PARSE_CHUNKS"
  shows "pass_inv (chunks_pass p m ec)"
proof -
  obtain rc ec1 p1 ch where h: "parse_chunks p (m_chunk_cache m) ec = (rc, ec1, p1, ch)"
    by (metis surj_pair)
  note keeps = parse_chunks_keeps [OF h]
  have st: "hp_message_state p1 \<noteq> PARSE_CONTENT" "hp_message_state p1 \<noteq> PARSE_CONTENT_NO_LENGTH"
    using keeps(3) assms(2) by auto
  have fields: "hp_payload_handler p1 = hp_payload_handler p" "hp_max_content_length p1 = hp_max_content_length p"
    "hp_parse_headers_only p1 = hp_parse_headers_only p"
    using keeps(1) by (simp_all add: chunk_frame_def)
  have ch: "length ch \<le> hp_max_content_length p" "hp_max_content_length p < SIZE_MAX"
    using keeps(4) assms by (simp_all add: parser_inv_def content_inv_def)
  let ?m1 = "m\<lparr>m_chunk_cache := ch\<rparr>"
  have cache: "m_chunk_cache ?m1 = ch" by simp
  obtain q where q: "concatenate_chunks ?m1 = Inr (with_content (length ch) q ?m1)" "length q = length ch + 1"
    using concatenate_chunks_fits [of ?m1] ch unfolding cache by fastforce
  have hi: "header_inv p1 m'" if "m_headers m' = m_headers m" for m'
    using header_inv_message [OF that] parse_chunks_header_inv [OF h, of m] assms(1)
    by (simp add: parser_inv_def)
  have inv: "parser_inv (settle r p1) ?m1" for r
    by (rule parser_inv_outside_content)
       (use st assms ch in \<open>simp_all add: fields hi parser_inv_def content_inv_def\<close>)
  have inv': "parser_inv (settle r p1) (with_content (length ch) q ?m1)" for r
    by (rule parser_inv_outside_content) (use st ch q(2) in \<open>auto simp: fields hi\<close>)
  show ?thesis
  proof (cases rc)
    case None
    with inv [of TFalse] h show ?thesis by (simp add: chunks_pass_def)
  next
    case (Some r)
    show ?thesis
    proof (cases "r = TTrue \<and> hp_payload_handler p1 = None")
      case True
      with Some h q(1) inv' show ?thesis by (simp add: chunks_pass_def Let_def)
    next
      case False
      with Some h inv show ?thesis by (auto simp: chunks_pass_def Let_def)
    qed
  qed
qed

text \<open>What \<open>finish_header_parsing\<close> hands to the hook.\<close>

lemma update_message_keeps:
  "m_content_buf (update_message_with_header_data E p m) = m_content_buf m"
  "m_content_length (update_message_with_header_data E p m) = m_content_length m"
  "m_chunk_cache (update_message_with_header_data E p m) = m_chunk_cache m"
  "m_headers (update_message_with_header_data E p m) = m_headers m"
  by (simp_all add: update_message_with_header_data_def Let_def set_method_def set_resource_def
      set_query_string_def clear_first_line_def)

lemma update_transfer_keeps:
  "m_content_buf (update_transfer_encoding_using_header E m) = m_content_buf m"
  "m_content_length (update_transfer_encoding_using_header E m) = m_content_length m"
  "m_chunk_cache (update_transfer_encoding_using_header E m) = m_chunk_cache m"
  "m_headers (update_transfer_encoding_using_header E m) = m_headers m"
  by (simp_all add: update_transfer_encoding_using_header_def split: option.splits)

lemma update_length_keeps:
  "update_content_length_using_header E m = Some m' \<Longrightarrow> \<exists>n. m' = m\<lparr>m_content_length := n\<rparr>"
  by (auto simp: update_content_length_using_header_def Let_def split: option.splits)

text \<open>With a length header, the decision depends on the length and on the options of the parser.\<close>

lemma body_decision_length:
  assumes "body_decision E p m = Some d" and "\<not> m_is_chunked m" "has_header E m HEADER_CONTENT_LENGTH"
  obtains n where "d = (if n = 0 then (TTrue, p\<lparr>hp_message_state := PARSE_END\<rparr>, m\<lparr>m_content_length := n\<rparr>)
        else if hp_parse_headers_only p
        then (TTrue, p\<lparr>hp_message_state := PARSE_CONTENT, hp_bytes_content_remaining := n\<rparr>,
              m\<lparr>m_content_length := min n (hp_max_content_length p)\<rparr>)
        else (Indeterminate, p\<lparr>hp_message_state := PARSE_CONTENT, hp_bytes_content_remaining := n\<rparr>,
              m\<lparr>m_content_length := min n (hp_max_content_length p),
                m_content_buf := resize (min n (hp_max_content_length p))\<rparr>))"
proof -
  obtain n where n: "update_content_length_using_header E m = Some (m\<lparr>m_content_length := n\<rparr>)"
    using assms update_length_keeps
    by (fastforce simp: body_decision_def request_is_content_length_implied_def split: option.splits)
  show thesis
    using assms n
    by (intro that [of n], cases "n = 0"; cases "hp_parse_headers_only p")
       (auto simp: body_decision_def request_is_content_length_implied_def Let_def create_content_buffer_def min_def)
qed

lemma body_decision_inv:
  assumes "body_decision E p m = Some (rc, p', m')"
    and "header_inv p m" "m_content_length m = 0" "cb_ptr (m_content_buf m) \<noteq> []"
    "length (m_chunk_cache m) \<le> hp_max_content_length p" "hp_max_content_length p < SIZE_MAX" "hp_bytes_content_read p = 0"
  shows "parser_inv (settle rc p') m'"
proof -
  have chunked: ?thesis if "m_is_chunked m"
    using assms that
    by (intro parser_inv_outside_content) (auto simp: body_decision_def)
  have ended: ?thesis if "p' = p\<lparr>hp_message_state := PARSE_END\<rparr>" "m' = m"
    using assms that by (intro parser_inv_outside_content) (auto)
  show ?thesis
  proof (cases "m_is_chunked m \<or> \<not> has_header E m HEADER_CONTENT_LENGTH")
    case True
    then show ?thesis
    proof (cases "m_is_chunked m")
      case False
      with True assms(1) show ?thesis
        by (intro ended) (auto simp: body_decision_def request_is_content_length_implied_def)
    qed (rule chunked)
  next
    case False
    then obtain n where dec: "(rc, p', m') = (if n = 0 then (TTrue, p\<lparr>hp_message_state := PARSE_END\<rparr>, m\<lparr>m_content_length := n\<rparr>)
        else if hp_parse_headers_only p
        then (TTrue, p\<lparr>hp_message_state := PARSE_CONTENT, hp_bytes_content_remaining := n\<rparr>,
              m\<lparr>m_content_length := min n (hp_max_content_length p)\<rparr>)
        else (Indeterminate, p\<lparr>hp_message_state := PARSE_CONTENT, hp_bytes_content_remaining := n\<rparr>,
              m\<lparr>m_content_length := min n (hp_max_content_length p),
                m_content_buf := resize (min n (hp_max_content_length p))\<rparr>))"
      using body_decision_length [OF assms(1)] by blast
    have hi: "header_inv p (m\<lparr>m_content_length := k, m_content_buf := b\<rparr>)"
      "header_inv p (m\<lparr>m_content_length := k\<rparr>)" for k b
      using header_inv_message [of "m\<lparr>m_content_length := k, m_content_buf := b\<rparr>" m p]
        header_inv_message [of "m\<lparr>m_content_length := k\<rparr>" m p] assms(2) by simp_all
    show ?thesis
    proof (cases "n = 0 \<or> hp_parse_headers_only p")
      case True
      with dec assms(3-7) hi show ?thesis
        by (intro parser_inv_outside_content) (auto split: if_splits)
    next
      case False
      with dec assms(3-7) hi show ?thesis
        by (simp add: parser_inv_def content_inv_def resize_fits settle_def)
    qed
  qed
qed

context headers_contract
begin

text \<open>The hook keeps the invariant, whether or not a payload handler comes with it.\<close>

lemma hook_keeps_inv:
  assumes "parser_inv (settle rc p2) m2" and "hook w ec rc m2 = (w', Inr (rc', m3, ph))"
  shows "parser_inv (settle rc' (case ph of None \<Rightarrow> p2 | Some h \<Rightarrow> set_payload_handler h p2)) m3"
proof -
  have "list_all header_ok (m_headers m2)" using assms(1) by (simp add: parser_inv_def header_inv_def)
  then have h3: "header_inv q m3" if "header_inv q m2" for q
    using that hook_headers [OF assms(2)] by (simp add: header_inv_def)
  have inv: "parser_inv (settle rc' p2) m3"
    using assms(1) hook_rc [OF assms(2)] hook_content [OF assms(2)] h3
    by (auto simp: parser_inv_def content_inv_def)
  then have "parser_inv (settle rc' (set_payload_handler h p2)) m3" for h
    by (auto simp: parser_inv_def content_inv_def set_payload_handler_def settle_def split: if_splits)
  with inv show ?thesis by (simp split: option.split)
qed

lemma finish_header_inv:
  assumes "parser_inv p m" and "hp_message_state p = PARSE_HEADERS"
  shows "case snd (finish_header_parsing E hook w p m ec) of
      Inl e \<Rightarrow> e \<noteq> Memory_fault
    | Inr (rc, ec', p', m') \<Rightarrow> parser_inv (settle rc p') m'"
proof -
  let ?p1 = "p\<lparr>hp_bytes_content_remaining := 0, hp_bytes_content_read := 0\<rparr>"
  let ?m1 = "update_message_with_header_data E ?p1
      (update_transfer_encoding_using_header E (m\<lparr>m_content_length := 0\<rparr>))"
  have m1: "m_content_length ?m1 = 0" "cb_ptr (m_content_buf ?m1) \<noteq> []"
    "length (m_chunk_cache ?m1) \<le> hp_max_content_length ?p1" "hp_max_content_length ?p1 < SIZE_MAX"
    "hp_bytes_content_read ?p1 = 0" "m_headers ?m1 = m_headers m"
    using assms by (simp_all add: update_message_keeps update_transfer_keeps parser_inv_def content_inv_def)
  have hi: "header_inv ?p1 ?m1"
    using header_inv_message [OF m1(6)] assms(1) by (simp add: parser_inv_def)
  show ?thesis
  proof (cases "body_decision E ?p1 ?m1")
    case None
    have "parser_inv ?p1 ?m1"
      by (rule parser_inv_outside_content) (use assms(2) hi m1 in simp_all)
    with None show ?thesis by (simp add: finish_header_parsing_def settle_def Let_def)
  next
    case (Some d)
    obtain rc p2 m2 where d: "d = (rc, p2, m2)" by (metis surj_pair)
    have inv: "parser_inv (settle rc p2) m2"
      using body_decision_inv [OF Some [unfolded d] hi m1(1-5)] .
    obtain w' r where hk: "hook w ec rc m2 = (w', r)" by (metis surj_pair)
    show ?thesis
    proof (cases r)
      case (Inl e)
      with Some d hk hook_safe show ?thesis by (simp add: finish_header_parsing_def Let_def)
    next
      case (Inr t)
      obtain rc' m3 ph where t: "t = (rc', m3, ph)" by (metis surj_pair)
      from hook_keeps_inv [OF inv hk [unfolded Inr t]] Some d hk Inr t show ?thesis
        by (simp add: finish_header_parsing_def Let_def)
    qed
  qed
qed

lemma headers_pass_inv:
  assumes "parser_inv p m" and "hp_message_state p \<in> {PARSE_HEADERS, PARSE_FOOTERS}"
  shows "pass_inv (snd (headers_pass E hook w p m ec))"
proof -
  obtain rc ec1 p1 m1 where h: "parse_headers p m ec = (rc, ec1, p1, m1)" by (metis surj_pair)
  note keeps = parse_headers_keeps [OF h]
  have hi: "header_inv p1 m1" using parse_headers_inv [OF _ h] assms(1) by (simp add: parser_inv_def)
  have st: "hp_message_state p1 = hp_message_state p" using keeps(1) by (simp add: head_frame_def)
  have inv: "parser_inv (settle r p1) m1" for r
    by (rule parser_inv_outside_content)
       (use assms keeps(1,2) hi in \<open>auto simp: head_frame_def head_message_frame_def parser_inv_def content_inv_def\<close>)
  show ?thesis
  proof (cases "rc = TTrue \<and> hp_message_state p1 = PARSE_HEADERS")
    case True
    have "parser_inv p1 m1" using inv [of TFalse] by (simp add: settle_def)
    note fin = finish_header_inv [OF this conjunct2 [OF True], of E w ec1]
    obtain w' r where r: "finish_header_parsing E hook w p1 m1 ec1 = (w', r)" by (metis surj_pair)
    with fin True h show ?thesis
      by (cases r) (auto simp: headers_pass_def Let_def split: prod.splits)
  next
    case False
    with h inv show ?thesis by (auto simp: headers_pass_def)
  qed
qed

lemma parse_pass_inv:
  assumes "parser_inv p m"
  shows "pass_inv (snd (parse_pass E hook w p m ec))"
proof (cases "hp_message_state p")
  case PARSE_START
  have "parser_inv (p\<lparr>hp_message_state := PARSE_HEADERS\<rparr>) m"
    by (rule parser_inv_outside_content) (use assms in \<open>auto simp: parser_inv_def content_inv_def\<close>)
  then show ?thesis using headers_pass_inv PARSE_START by (simp add: parse_pass_def)
next
  case PARSE_END
  with assms have "parser_inv (settle TTrue p) m" by (simp add: parser_inv_def content_inv_def)
  with PARSE_END show ?thesis by (simp add: parse_pass_def)
qed (use assms in \<open>auto simp: parse_pass_def headers_pass_inv chunks_pass_inv content_pass_inv
      dest: parser_inv_no_length\<close>)

lemma parse_loop_inv:
  "parser_inv p m \<Longrightarrow> pass_inv (snd (parse_loop E hook w k p m ec))"
proof (induction "phase_rank (hp_message_state p)" arbitrary: w k p m ec rule: less_induct)
  case less
  obtain w' r where r: "parse_pass E hook w p m ec = (w', r)" by (metis surj_pair)
  with parse_pass_inv [OF less.prems, of E w ec] have inv: "pass_inv r" by simp
  show ?case
  proof (cases r)
    case (Inl e)
    with r inv show ?thesis by (subst parse_loop.simps) simp
  next
    case (Inr t)
    obtain rc n ec' p' m' where t: "t = (rc, n, ec', p', m')" by (metis surj_pair)
    show ?thesis
    proof (cases "rc = Indeterminate \<and> \<not> eof p'")
      case True
      with r Inr t have "phase_rank (hp_message_state p') < phase_rank (hp_message_state p)"
        using parse_pass_rank [of E hook w p m ec w' n ec' p' m'] by simp
      moreover have "parser_inv p' m'" using inv Inr t True by (simp add: settle_def)
      ultimately have "pass_inv (snd (parse_loop E hook w' (k + n) p' m' ec'))" by (rule less.hyps)
      with r Inr t True show ?thesis by (subst parse_loop.simps) simp
    next
      case False
      with r inv Inr t show ?thesis by (subst parse_loop.simps) auto
    qed
  qed
qed

end

section \<open>The end of a message\<close>

lemma parser_inv_same_message:
  assumes "parser_inv p m" and "m_headers m' = m_headers m" "m_content_buf m' = m_content_buf m"
    "m_content_length m' = m_content_length m" "m_chunk_cache m' = m_chunk_cache m"
  shows "parser_inv p m'"
  using assms(1) header_inv_message [OF assms(2), of p] assms(3-5)
  by (simp add: parser_inv_def content_inv_def)

lemma parse_form_content_inv:
  assumes "parser_inv p m" and "hp_payload_handler p = None" "\<not> hp_parse_headers_only p"
  shows "case parse_form_content E m of Inl e \<Rightarrow> e \<noteq> Memory_fault | Inr m' \<Rightarrow> parser_inv p m'"
proof -
  have fits: "read_mem (cb_ptr (m_content_buf m)) (m_content_length m)
      = Inr (take (m_content_length m) (cb_ptr (m_content_buf m)))"
    using assms by (simp add: read_mem_def parser_inv_def content_inv_def)
  have q: "parser_inv p (m\<lparr>rq_query_params := d\<rparr>)" for d
    by (rule parser_inv_same_message [OF assms(1)]) simp_all
  show ?thesis
    using q assms(1) multipart_safe
    by (auto simp: parse_form_content_def fits Let_def split: sum.splits)
      (auto simp: map_sum_def multipart_safe split: sum.splits)
qed

lemma finish_inv:
  assumes "parser_inv p m" and "hp_message_state p = PARSE_END"
  shows "case finish E p m of Inl e \<Rightarrow> e \<noteq> Memory_fault | Inr m' \<Rightarrow> parser_inv p m'"
proof -
  let ?m = "compute_msg_status (m\<lparr>m_is_valid := True\<rparr>) True"
  have inv: "parser_inv p ?m"
    by (rule parser_inv_same_message [OF assms(1)]) (simp_all add: compute_msg_status_def)
  have "finish E p m = (if hp_payload_handler p = None \<and> \<not> hp_parse_headers_only p
      then parse_form_content E ?m else Inr ?m)"
    using assms(2) by (simp add: finish_def finish_state_def Let_def compute_msg_status_def)
  with parse_form_content_inv [OF inv] inv show ?thesis by simp
qed

section \<open>Properties\<close>

lemma parse_end_inv:
  assumes "pass_inv (Inr (rc, n, ec, p, m))"
  shows "case parse_end E (rc, n, ec, p, m) of
      Inl e \<Rightarrow> e \<noteq> Memory_fault | Inr (rc', ec', p', m') \<Rightarrow> parser_inv p' m'"
proof -
  have inv: "parser_inv (settle rc p) m" using assms by simp
  have count: "parser_inv (q\<lparr>hp_bytes_last_read := k\<rparr>) m' = parser_inv q m'" for q k m'
    by (simp add: parser_inv_def content_inv_def)
  show ?thesis
  proof (cases rc)
    case TTrue
    with inv finish_inv [of "p\<lparr>hp_message_state := PARSE_END\<rparr>" m E] show ?thesis
      by (auto simp: parse_end_def settle_def Let_def count split: sum.splits)
  next
    case TFalse
    with inv have "parser_inv p m" by (simp add: settle_def)
    then have "parser_inv p (compute_msg_status m False)"
      by (rule parser_inv_same_message) (simp_all add: compute_msg_status_def)
    with TFalse show ?thesis by (simp add: parse_end_def count)
  next
    case Indeterminate
    with inv show ?thesis by (simp add: parse_end_def settle_def count)
  qed
qed

context headers_contract
begin

lemma parse_inv:
  assumes "parser_inv p m" and "parse E hook w p m ec = (w', r)"
  shows "case r of Inl e \<Rightarrow> e \<noteq> Memory_fault | Inr (rc, ec', p', m') \<Rightarrow> parser_inv p' m'"
proof -
  let ?m = "if m_has_missing_packets m then m\<lparr>m_has_data_after_missing := True\<rparr> else m"
  have "parser_inv p ?m"
    by (rule parser_inv_same_message [OF assms(1)]) simp_all
  then have inv: "pass_inv (snd (parse_loop E hook w 0 p ?m ec))"
    by (rule parse_loop_inv)
  obtain w1 o1 where l: "parse_loop E hook w 0 p ?m ec = (w1, o1)" by (metis surj_pair)
  show ?thesis
  proof (cases o1)
    case (Inl e)
    with assms(2) inv l show ?thesis by (auto simp: parse_def Let_def)
  next
    case (Inr t)
    obtain rc n ec1 p1 m1 where t: "t = (rc, n, ec1, p1, m1)" by (metis surj_pair)
    with inv l Inr have "pass_inv (Inr (rc, n, ec1, p1, m1))" by simp
    from parse_end_inv [OF this, of E] assms(2) l Inr t show ?thesis by (auto simp: parse_def Let_def)
  qed
qed

end

text \<open>
  The limit has to be below \<open>SIZE_MAX\<close>. With \<open>SIZE_MAX\<close> as the limit, a \<open>Content-Length\<close> of as much is
  taken as it is, the size of the buffer wraps to 0, and the first byte of content is written past it.
\<close>

lemma content_limit_overflow:
  assumes "hp_max_content_length p = SIZE_MAX" and "hp_payload_handler p = None" "\<not> hp_parse_headers_only p"
    and "hp_bytes_content_read p = 0" "hp_read p \<noteq> []"
    and "\<not> m_is_chunked m" and "dict_find E (m_headers m) HEADER_CONTENT_LENGTH = Some kv"
    and "parse_uint64 E (snd kv) = Some len" "unat len = SIZE_MAX"
  shows "\<exists>p' m'. body_decision E p m = Some (Indeterminate, p', m') \<and> content_pass p' m' ec = Inl Memory_fault"
proof -
  let ?p = "p\<lparr>hp_message_state := PARSE_CONTENT, hp_bytes_content_remaining := SIZE_MAX\<rparr>"
  let ?m = "m\<lparr>m_content_length := SIZE_MAX, m_content_buf := resize SIZE_MAX\<rparr>"
  have size: "0 < SIZE_MAX" by (simp add: SIZE_MAX_def)
  have "body_decision E p m = Some (Indeterminate, ?p, ?m)"
    using assms size
    by (simp add: body_decision_def request_is_content_length_implied_def has_header_def update_content_length_using_header_def
        create_content_buffer_def Let_def)
  moreover have "consume_content ?p ?m = Inl Memory_fault"
    using assms size
    by (subst consume_stored) (auto simp: write_content_def memcpy_at_def resize_wraps content_wanted_def bytes_available_def eof_def)
  ultimately show ?thesis by (auto simp: content_pass_def)
qed

text \<open>
  C5: \<open>parse\<close> is memory safe and keeps its invariant, for every content limit below \<open>SIZE_MAX\<close>. From a
  state that satisfies \<open>parser_inv\<close> (a new parser with such a limit and a new request do), with any hook that fulfils its contract and any
  bytes in the buffer, no access leaves the content buffer, and the state after the call
  satisfies \<open>parser_inv\<close> again: header data well-formed and within limits, content length
  within the buffer, chunk cache within \<open>m_max_content_length\<close>, that limit unchanged below \<open>SIZE_MAX\<close>
  (so that the size of no content buffer wraps), and never in the state
  \<open>PARSE_CONTENT_NO_LENGTH\<close>.
\<close>

theorem parse_keeps_invariant:
  assumes "headers_contract hook" and "parser_inv p m" and "parse E hook w p m ec = (w', r)"
  shows "case r of Inl e \<Rightarrow> e \<noteq> Memory_fault | Inr (rc, ec', p', m') \<Rightarrow> parser_inv p' m'"
  using headers_contract.parse_inv [OF assms] .

theorem parse_keeps_invariant_witness:
  "case snd (parse utils_ref no_hook () (set_read_buffer ''GET'' (new_http_parser 0 0 100)) (new_http_request False) None) of
     Inl e \<Rightarrow> e \<noteq> Memory_fault | Inr (rc, ec', p', m') \<Rightarrow> parser_inv p' m'"
proof -
  have "parser_inv (set_read_buffer ''GET'' (new_http_parser 0 0 100)) (new_http_request False)"
    using parser_inv_new [of 100 0 0 False]
    by (simp add: SIZE_MAX_def parser_inv_def content_inv_def set_read_buffer_def)
  from parse_keeps_invariant [OF base_hook.headers_contract_axioms this surjective_pairing]
  show ?thesis .
qed

end
