(* ===== verification/Http_Server.thy ===== *)
theory Http_Server
  imports Http_Response_Writer Parser_Safety
begin

text \<open>
  \<open>http_server\<close>: registration of handlers, the choice of a handler for a request, the default
  handlers, the hook called when the headers are parsed, the treatment of a finished request, and
  the registry of WebSocket connections.
\<close>

section \<open>Handlers\<close>

text \<open>
  Handlers are application code. A request handler gets the request and the writer; what it
  does before it returns (or throws) is a function of these and of the connection. A payload
  handler creator returns a handler or throws an exception with a text. WebSocket handlers are
  only stored and passed on: a type parameter.
\<close>

type_synonym request_handler_type =
  "http_request \<Rightarrow> http_response_writer \<Rightarrow> tcp_connection \<Rightarrow> exn option \<times> tcp_connection"

type_synonym payload_handler_creator_type = "http_request \<Rightarrow> string + payload_handler_type"

record 'ws http_server =
  hs_read_timeout :: "32 word"
  hs_get_handlers :: "byte_string \<rightharpoonup> request_handler_type"
  hs_post_handlers :: "byte_string \<rightharpoonup> request_handler_type"
  hs_put_handlers :: "byte_string \<rightharpoonup> request_handler_type"
  hs_delete_handlers :: "byte_string \<rightharpoonup> request_handler_type"
  hs_options_handlers :: "byte_string \<rightharpoonup> request_handler_type"
  hs_bad_request_handler :: request_handler_type
  hs_not_found_handler :: request_handler_type
  hs_get_payloads :: "byte_string \<rightharpoonup> payload_handler_creator_type"
  hs_post_payloads :: "byte_string \<rightharpoonup> payload_handler_creator_type"
  hs_put_payloads :: "byte_string \<rightharpoonup> payload_handler_creator_type"
  hs_delete_payloads :: "byte_string \<rightharpoonup> payload_handler_creator_type"
  hs_options_payloads :: "byte_string \<rightharpoonup> payload_handler_creator_type"
  hs_wsopen_handlers :: "byte_string \<rightharpoonup> 'ws"
  hs_wsmessage_handlers :: "byte_string \<rightharpoonup> 'ws"
  hs_wsclose_handlers :: "byte_string \<rightharpoonup> 'ws"

definition strip_trailing_slash :: "byte_string \<Rightarrow> byte_string" where
  "strip_trailing_slash str =
     (if str \<noteq> [] \<and> str ! (length str - 1) = CHR ''/'' then take (length str - 1) str else str)"

definition invalid_method :: "byte_string \<Rightarrow> exn" where
  "invalid_method meth = Pion_exception (''Invalid HTTP method: ['' @ meth @ '']'')"

definition choose_map_by_method ::
  "byte_string \<Rightarrow> 'm \<Rightarrow> 'm \<Rightarrow> 'm \<Rightarrow> 'm \<Rightarrow> 'm \<Rightarrow> exn + 'm" where
  "choose_map_by_method meth get_map post_map put_map delete_map options_map =
     (if meth = REQUEST_METHOD_GET \<or> meth = REQUEST_METHOD_HEAD then Inr get_map
      else if meth = REQUEST_METHOD_POST then Inr post_map
      else if meth = REQUEST_METHOD_PUT then Inr put_map
      else if meth = REQUEST_METHOD_DELETE then Inr delete_map
      else if meth = REQUEST_METHOD_OPTIONS then Inr options_map
      else Inl (invalid_method meth))"

text \<open>\<open>std::string::find_last_of\<close> for one character.\<close>

fun find_last_of :: "char \<Rightarrow> byte_string \<Rightarrow> nat option" where
  "find_last_of c [] = None"
| "find_last_of c (x # xs) =
     (case find_last_of c xs of
        Some k \<Rightarrow> Some (Suc k)
      | None \<Rightarrow> if x = c then Some 0 else None)"

lemma find_last_of_bound: "find_last_of c s = Some k \<Longrightarrow> k < length s"
  by (induction s arbitrary: k) (auto split: option.splits if_splits)

text \<open>The loop of \<open>find_submatch\<close>: the path, then what precedes its last slash, and so on.\<close>

function find_submatch :: "(byte_string \<rightharpoonup> 'v) \<Rightarrow> byte_string \<Rightarrow> (byte_string \<times> 'v) option" where
  "find_submatch m st =
     (case m st of
        Some v \<Rightarrow> Some (st, v)
      | None \<Rightarrow>
          (case find_last_of (CHR ''/'') st of
             None \<Rightarrow> None
           | Some slash_ind \<Rightarrow> find_submatch m (take slash_ind st)))"
  by pat_completeness auto
termination
  by (relation "measure (\<lambda>(m, st). length st)") (auto dest: find_last_of_bound)

declare find_submatch.simps [simp del]

section \<open>Registration\<close>

text \<open>\<open>emplace\<close> into a map: no change and an exception when the key is taken.\<close>

definition duplicate_path :: "string \<Rightarrow> byte_string \<Rightarrow> string \<Rightarrow> byte_string \<Rightarrow> exn" where
  "duplicate_path what path kind name =
     Pion_exception (''Invalid duplicate '' @ what @ '' path: ['' @ path @ ''], '' @ kind @ '': ['' @ name @ '']'')"

definition emplace :: "exn \<Rightarrow> byte_string \<Rightarrow> 'v \<Rightarrow> (byte_string \<rightharpoonup> 'v) \<Rightarrow> exn + (byte_string \<rightharpoonup> 'v)" where
  "emplace dup k v m = (case m k of Some _ \<Rightarrow> Inl dup | None \<Rightarrow> Inr (m(k \<mapsto> v)))"

definition add_handler ::
  "byte_string \<Rightarrow> byte_string \<Rightarrow> request_handler_type \<Rightarrow> 'ws http_server \<Rightarrow> exn + 'ws http_server" where
  "add_handler meth resource h s =
     (let clean = strip_trailing_slash resource;
          dup = duplicate_path ''handler'' clean ''method'' meth
      in if meth = REQUEST_METHOD_GET \<or> meth = REQUEST_METHOD_HEAD
         then map_sum id (\<lambda>m. s\<lparr>hs_get_handlers := m\<rparr>) (emplace dup clean h (hs_get_handlers s))
         else if meth = REQUEST_METHOD_POST
         then map_sum id (\<lambda>m. s\<lparr>hs_post_handlers := m\<rparr>) (emplace dup clean h (hs_post_handlers s))
         else if meth = REQUEST_METHOD_PUT
         then map_sum id (\<lambda>m. s\<lparr>hs_put_handlers := m\<rparr>) (emplace dup clean h (hs_put_handlers s))
         else if meth = REQUEST_METHOD_DELETE
         then map_sum id (\<lambda>m. s\<lparr>hs_delete_handlers := m\<rparr>) (emplace dup clean h (hs_delete_handlers s))
         else if meth = REQUEST_METHOD_OPTIONS
         then map_sum id (\<lambda>m. s\<lparr>hs_options_handlers := m\<rparr>) (emplace dup clean h (hs_options_handlers s))
         else Inl (invalid_method meth))"

definition add_payload_handler ::
  "byte_string \<Rightarrow> byte_string \<Rightarrow> payload_handler_creator_type \<Rightarrow> 'ws http_server \<Rightarrow> exn + 'ws http_server" where
  "add_payload_handler meth resource h s =
     (let clean = strip_trailing_slash resource;
          dup = duplicate_path ''payload'' clean ''method'' meth
      in if meth = REQUEST_METHOD_GET \<or> meth = REQUEST_METHOD_HEAD
         then map_sum id (\<lambda>m. s\<lparr>hs_get_payloads := m\<rparr>) (emplace dup clean h (hs_get_payloads s))
         else if meth = REQUEST_METHOD_POST
         then map_sum id (\<lambda>m. s\<lparr>hs_post_payloads := m\<rparr>) (emplace dup clean h (hs_post_payloads s))
         else if meth = REQUEST_METHOD_PUT
         then map_sum id (\<lambda>m. s\<lparr>hs_put_payloads := m\<rparr>) (emplace dup clean h (hs_put_payloads s))
         else if meth = REQUEST_METHOD_DELETE
         then map_sum id (\<lambda>m. s\<lparr>hs_delete_payloads := m\<rparr>) (emplace dup clean h (hs_delete_payloads s))
         else if meth = REQUEST_METHOD_OPTIONS
         then map_sum id (\<lambda>m. s\<lparr>hs_options_payloads := m\<rparr>) (emplace dup clean h (hs_options_payloads s))
         else Inl (invalid_method meth))"

text \<open>A reference to one of the tables: its value, and the server with a new value stored there.\<close>

definition choose_ws_map ::
  "byte_string \<Rightarrow> 'ws http_server \<Rightarrow> exn + (byte_string \<rightharpoonup> 'ws) \<times> ((byte_string \<rightharpoonup> 'ws) \<Rightarrow> 'ws http_server)" where
  "choose_ws_map event s =
     (if event = ''WSOPEN'' then Inr (hs_wsopen_handlers s, \<lambda>m. s\<lparr>hs_wsopen_handlers := m\<rparr>)
      else if event = ''WSMESSAGE'' then Inr (hs_wsmessage_handlers s, \<lambda>m. s\<lparr>hs_wsmessage_handlers := m\<rparr>)
      else if event = ''WSCLOSE'' then Inr (hs_wsclose_handlers s, \<lambda>m. s\<lparr>hs_wsclose_handlers := m\<rparr>)
      else Inl (Pion_exception (''Invalid WebSocket event: ['' @ event @ '']'')))"

text \<open>
  \<open>clean_resource\<close> is moved into the map before the test for duplicates, so what the text of the
  exception shows of it is unspecified: an argument.
\<close>

definition add_websocket_handler ::
  "byte_string \<Rightarrow> byte_string \<Rightarrow> byte_string \<Rightarrow> 'ws \<Rightarrow> 'ws http_server \<Rightarrow> exn + 'ws http_server" where
  "add_websocket_handler moved_from event resource h s =
     (case choose_ws_map event s of
        Inl e \<Rightarrow> Inl e
      | Inr (m, store) \<Rightarrow>
          (let clean = strip_trailing_slash resource;
               dup = duplicate_path ''WebSocket'' moved_from ''event'' event
           in map_sum id store (emplace dup clean h m)))"

definition set_bad_request_handler :: "request_handler_type \<Rightarrow> 'ws http_server \<Rightarrow> 'ws http_server" where
  "set_bad_request_handler h s = s\<lparr>hs_bad_request_handler := h\<rparr>"

definition set_not_found_handler :: "request_handler_type \<Rightarrow> 'ws http_server \<Rightarrow> 'ws http_server" where
  "set_not_found_handler h s = s\<lparr>hs_not_found_handler := h\<rparr>"

section \<open>Default handlers\<close>

abbreviation quoted :: "string \<Rightarrow> string" where
  "quoted s \<equiv> DQUOTE # s @ [DQUOTE]"

definition BAD_REQUEST_MSG :: byte_string where
  "BAD_REQUEST_MSG =
     ''{'' @ [LF] @ ''    '' @ quoted ''code'' @ '': 400,'' @ [LF]
     @ ''    '' @ quoted ''message'' @ '': '' @ quoted ''Bad Request'' @ '','' @ [LF]
     @ ''    '' @ quoted ''description'' @ '': ''
     @ quoted ''Your browser sent a request that this server could not understand.'' @ [LF] @ ''}''"

definition NOT_FOUND_MSG_START :: byte_string where
  "NOT_FOUND_MSG_START =
     ''{'' @ [LF] @ ''    '' @ quoted ''code'' @ '': 404,'' @ [LF]
     @ ''    '' @ quoted ''message'' @ '': '' @ quoted ''Not Found'' @ '','' @ [LF]
     @ ''    '' @ quoted ''description'' @ '': '' @ [DQUOTE] @ ''The requested URL: [''"

definition NOT_FOUND_MSG_FINISH :: byte_string where
  "NOT_FOUND_MSG_FINISH = ''] was not found on this server.'' @ [DQUOTE] @ [LF] @ ''}''"

definition set_response_status :: "32 word \<Rightarrow> byte_string \<Rightarrow> http_response_writer \<Rightarrow> http_response_writer" where
  "set_response_status code msg w =
     w\<lparr>w_response := set_status_message msg (set_status_code code (w_response w))\<rparr>"

definition handle_bad_request :: "sl_utils \<Rightarrow> request_handler_type" where
  "handle_bad_request E req w c =
     (let w1 = set_response_status RESPONSE_CODE_BAD_REQUEST RESPONSE_MESSAGE_BAD_REQUEST w
      in (None, fst (writer_send E c (write_nocopy BAD_REQUEST_MSG w1))))"

definition handle_not_found_request :: "sl_utils \<Rightarrow> request_handler_type" where
  "handle_not_found_request E req w c =
     (let w1 = set_response_status RESPONSE_CODE_NOT_FOUND RESPONSE_MESSAGE_NOT_FOUND w;
          res = map (\<lambda>ch. if ch = DQUOTE then SQUOTE else ch) (rq_resource req);
          w2 = write_nocopy NOT_FOUND_MSG_FINISH (writer_write res (write_nocopy NOT_FOUND_MSG_START w1))
      in (None, fst (writer_send E c w2)))"

definition handle_root_options :: "sl_utils \<Rightarrow> request_handler_type" where
  "handle_root_options E req w c =
     (let w1 = w\<lparr>w_response := change_header E ''Allow'' ''HEAD, GET, POST, PUT, DELETE, OPTIONS'' (w_response w)\<rparr>
      in (None, fst (writer_send E c w1)))"

definition new_http_server :: "sl_utils \<Rightarrow> 32 word \<Rightarrow> 'ws http_server" where
  "new_http_server E read_timeout =
     \<lparr>hs_read_timeout = read_timeout,
      hs_get_handlers = Map.empty, hs_post_handlers = Map.empty, hs_put_handlers = Map.empty,
      hs_delete_handlers = Map.empty, hs_options_handlers = Map.empty,
      hs_bad_request_handler = handle_bad_request E, hs_not_found_handler = handle_not_found_request E,
      hs_get_payloads = Map.empty, hs_post_payloads = Map.empty, hs_put_payloads = Map.empty,
      hs_delete_payloads = Map.empty, hs_options_payloads = Map.empty,
      hs_wsopen_handlers = Map.empty, hs_wsmessage_handlers = Map.empty, hs_wsclose_handlers = Map.empty\<rparr>"

section \<open>When the headers are parsed\<close>

definition choose_payloads ::
  "byte_string \<Rightarrow> 'ws http_server \<Rightarrow> exn + (byte_string \<rightharpoonup> payload_handler_creator_type)" where
  "choose_payloads meth s =
     choose_map_by_method meth (hs_get_payloads s) (hs_post_payloads s) (hs_put_payloads s)
       (hs_delete_payloads s) (hs_options_payloads s)"

text \<open>
  The test \<open>ec || !rc\<close> leaves the function for an error code or a result that is \<open>false\<close>; for
  an indeterminate result \<open>!rc\<close> is indeterminate and counts as false.
\<close>

definition handle_request_after_headers_parsed ::
  "sl_utils \<Rightarrow> 'ws http_server \<Rightarrow> tcp_connection headers_hook" where
  "handle_request_after_headers_parsed E s c ec rc m =
     (if ec \<noteq> None \<or> rc = TFalse then (c, Inr (rc, m, None))
      else
        (let c1 = (if iequals E ''100-continue'' (get_header E m ''Expect'')
                   then async_write [RESPONSE_FULLMESSAGE_100_CONTINUE] c else c)
         in case choose_payloads (rq_method m) s of
              Inl e \<Rightarrow> (c1, Inl e)
            | Inr payloads \<Rightarrow>
                (case find_submatch payloads (strip_trailing_slash (rq_resource m)) of
                   Some (_, creator) \<Rightarrow>
                     (case creator m of
                        Inl e \<Rightarrow> (c1, Inl (Pion_exception e))
                      | Inr ha \<Rightarrow>
                          (case request_set_payload_handler ha m of
                             (m1, installed) \<Rightarrow> (c1, Inr (rc, m1, installed))))
                 | None \<Rightarrow> (c1, Inr (TTrue, m, None)))))"

section \<open>A finished request\<close>

text \<open>
  The error code passed to \<open>handle_request\<close>: none, one of the parser's category, or one of
  another category (a read error).
\<close>

datatype any_error = EC_none | EC_parser error_value_t | EC_system

definition is_websocket_upgrade :: "sl_utils \<Rightarrow> http_request \<Rightarrow> bool" where
  "is_websocket_upgrade E req \<longleftrightarrow>
     has_header_value E req ''Upgrade'' ''websocket''
     \<and> has_header_value E req ''Sec-WebSocket-Version'' ''13''
     \<and> has_header_value E req ''Connection'' ''Upgrade''
     \<and> get_header E req ''Host'' \<noteq> []
     \<and> 24 = length (get_header E req ''Sec-WebSocket-Key'')"

text \<open>
  The WebSocket handlers of a path; a missing one is replaced by \<open>websocket::receive\<close> (open and
  message) or by a no-op (close), here the first two arguments.
\<close>

definition find_ws_handlers ::
  "'ws \<Rightarrow> 'ws \<Rightarrow> byte_string \<Rightarrow> 'ws http_server \<Rightarrow> bool \<times> 'ws \<times> 'ws \<times> 'ws" where
  "find_ws_handlers receive_fun noop_fun path s =
     (let it_open = hs_wsopen_handlers s path; it_message = hs_wsmessage_handlers s path;
          it_close = hs_wsclose_handlers s path
      in (it_open \<noteq> None \<or> it_message \<noteq> None \<or> it_close \<noteq> None,
          (case it_open of Some h \<Rightarrow> h | None \<Rightarrow> receive_fun),
          (case it_message of Some h \<Rightarrow> h | None \<Rightarrow> receive_fun),
          (case it_close of Some h \<Rightarrow> h | None \<Rightarrow> noop_fun)))"

text \<open>
  What \<open>handle_request\<close> comes to: the connection after the synchronous part, an exception that
  leaves the function, or a WebSocket started with its handlers, path and id.
\<close>

datatype 'ws request_outcome =
    Handled tcp_connection
  | Threw exn tcp_connection
  | Upgraded byte_string byte_string "'ws \<times> 'ws \<times> 'ws" http_request tcp_connection

definition call_handler :: "exn option \<times> tcp_connection \<Rightarrow> 'ws request_outcome" where
  "call_handler r = (case r of (None, c) \<Rightarrow> Handled c | (Some e, c) \<Rightarrow> Threw e c)"

text \<open>Exceptions of an application handler are caught and logged.\<close>

definition call_app_handler :: "exn option \<times> tcp_connection \<Rightarrow> 'ws request_outcome" where
  "call_app_handler r = Handled (snd r)"

definition choose_handlers ::
  "byte_string \<Rightarrow> 'ws http_server \<Rightarrow> exn + (byte_string \<rightharpoonup> request_handler_type)" where
  "choose_handlers meth s =
     choose_map_by_method meth (hs_get_handlers s) (hs_post_handlers s) (hs_put_handlers s)
       (hs_delete_handlers s) (hs_options_handlers s)"

definition handle_http_request ::
  "sl_utils \<Rightarrow> 'ws http_server \<Rightarrow> http_request \<Rightarrow> tcp_connection \<Rightarrow> 'ws request_outcome" where
  "handle_http_request E s req c =
     (let path = strip_trailing_slash (rq_resource req);
          writer = new_response_writer req
      in if rq_method req = REQUEST_METHOD_OPTIONS \<and> (path = ''*'' \<or> path = ''/*'')
         then call_handler (handle_root_options E req writer c)
         else
           (case choose_handlers (rq_method req) s of
              Inl e \<Rightarrow> Threw e c
            | Inr handlers \<Rightarrow>
                (case find_submatch handlers path of
                   Some (_, handler) \<Rightarrow> call_app_handler (handler req writer c)
                 | None \<Rightarrow> call_handler (hs_not_found_handler s req writer c))))"

definition handle_request ::
  "sl_utils \<Rightarrow> 'ws \<Rightarrow> 'ws \<Rightarrow> 'ws http_server \<Rightarrow> http_request \<Rightarrow> tcp_connection \<Rightarrow> any_error \<Rightarrow> 'ws request_outcome" where
  "handle_request E receive_fun noop_fun s req c ec =
     (if ec \<noteq> EC_none \<or> \<not> m_is_valid req then
        (let c1 = set_lifecycle Lifecycle_close c in
         case ec of
           EC_parser _ \<Rightarrow>
             if is_open c1
             then call_handler (hs_bad_request_handler s req (new_response_writer req) c1)
             else Handled (finish_conn c1)
         | _ \<Rightarrow> Handled (finish_conn c1))
      else if is_websocket_upgrade E req then
        (case find_ws_handlers receive_fun noop_fun (rq_resource req) s of
           (found, handlers) \<Rightarrow>
             if found
             then Upgraded (rq_resource req) (get_header E req ''Sec-WebSocket-Key'') handlers req c
             else call_handler (hs_not_found_handler s req (new_response_writer req) c))
      else handle_http_request E s req c)"

section \<open>The registry of WebSocket connections\<close>

text \<open>
  An entry: path, id, and the connection of the weak pointer (\<open>None\<close> when it has expired). The
  multimap keeps entries of equal path in insertion order.
\<close>

type_synonym 'c ws_registry = "(byte_string \<times> byte_string \<times> 'c option) list"

definition register_ws_conn :: "byte_string \<Rightarrow> byte_string \<Rightarrow> 'c \<Rightarrow> 'c ws_registry \<Rightarrow> 'c ws_registry" where
  "register_ws_conn path ident c reg =
     filter (\<lambda>e. snd (snd e) \<noteq> None) reg @ [(path, ident, Some c)]"

text \<open>
  The loop of \<open>find_ws_conns\<close> over the entries of one path. An entry whose id is not wanted is
  neither erased nor stepped over: the loop looks at it again. \<open>None\<close> is non-termination.
\<close>

partial_function (option) find_ws_conns_loop ::
  "byte_string list \<Rightarrow> 'c list \<Rightarrow> 'c ws_registry \<Rightarrow> 'c ws_registry \<Rightarrow> ('c list \<times> 'c ws_registry) option"
where
  [code]: "find_ws_conns_loop dest_ids vec kept todo =
     (case todo of
        [] \<Rightarrow> Some (vec, kept)
      | e # es \<Rightarrow>
          if dest_ids = [] \<or> fst (snd e) \<in> set dest_ids then
            (case snd (snd e) of
               Some c \<Rightarrow> find_ws_conns_loop dest_ids (vec @ [c]) (kept @ [e]) es
             | None \<Rightarrow> find_ws_conns_loop dest_ids vec kept es)
          else find_ws_conns_loop dest_ids vec kept (e # es))"

definition find_ws_conns ::
  "byte_string \<Rightarrow> byte_string list \<Rightarrow> 'c ws_registry \<Rightarrow> ('c list \<times> 'c ws_registry) option" where
  "find_ws_conns path dest_ids reg =
     map_option (\<lambda>(vec, kept). (vec, filter (\<lambda>e. fst e \<noteq> path) reg @ kept))
       (find_ws_conns_loop dest_ids [] [] (filter (\<lambda>e. fst e = path) reg))"

section \<open>Routing\<close>

text \<open>A path and the paths above it: what precedes one of its slashes.\<close>

definition ancestor :: "byte_string \<Rightarrow> byte_string \<Rightarrow> bool" where
  "ancestor q p \<longleftrightarrow> p = q \<or> take (Suc (length q)) p = q @ ''/''"

lemma ancestor_iff: "ancestor q p \<longleftrightarrow> p = q \<or> (\<exists>r. p = q @ CHR ''/'' # r)"
proof -
  have "\<exists>r. p = q @ CHR ''/'' # r" if "take (Suc (length q)) p = q @ ''/''"
    using append_take_drop_id [of "Suc (length q)" p] that by (metis append.assoc append_Cons append_Nil)
  then show ?thesis by (auto simp: ancestor_def)
qed

lemma find_last_of_None: "find_last_of c s = None \<longleftrightarrow> c \<notin> set s"
  by (induction s) (auto split: option.splits)

lemma find_last_of_Some:
  "find_last_of c s = Some k \<Longrightarrow> \<exists>r. s = take k s @ c # r \<and> c \<notin> set r"
proof (induction s arbitrary: k)
  case (Cons x xs)
  then show ?case
    by (cases "find_last_of c xs") (auto simp: find_last_of_None split: if_splits)
qed simp

text \<open>The proper ancestors of a path are the ancestors of what precedes its last slash.\<close>

lemma ancestor_step:
  assumes "find_last_of (CHR ''/'') p = Some k"
  shows "ancestor q p \<longleftrightarrow> q = p \<or> ancestor q (take k p)"
proof -
  obtain r where r: "p = take k p @ CHR ''/'' # r" "CHR ''/'' \<notin> set r"
    using find_last_of_Some [OF assms] by blast
  define t where "t = take k p"
  have p: "p = t @ CHR ''/'' # r" using r(1) by (simp add: t_def)
  have "q = t \<or> (\<exists>u. t = q @ CHR ''/'' # u)" if "p = q @ CHR ''/'' # v" for v
    using that p r(2) by (auto simp: append_eq_append_conv2 append_eq_Cons_conv Cons_eq_append_conv)
  then show ?thesis using p unfolding ancestor_iff t_def [symmetric] by auto
qed

lemma ancestor_root: "find_last_of (CHR ''/'') p = None \<Longrightarrow> ancestor q p \<longleftrightarrow> q = p"
  by (auto simp: ancestor_iff find_last_of_None)

lemma ancestor_length: "ancestor q p \<Longrightarrow> length q \<le> length p \<and> (length q = length p \<longrightarrow> q = p)"
  by (auto simp: ancestor_iff)

lemma find_submatch_None: "find_submatch m p = None \<longleftrightarrow> (\<forall>q. ancestor q p \<longrightarrow> m q = None)"
proof (induction m p rule: find_submatch.induct)
  case (1 m st)
  show ?case
  proof (cases "m st")
    case None
    then show ?thesis
    proof (cases "find_last_of (CHR ''/'') st")
      case None
      with \<open>m st = None\<close> show ?thesis
        by (subst find_submatch.simps) (simp add: ancestor_root)
    next
      case (Some k)
      with 1 [OF None Some] None show ?thesis
        by (subst find_submatch.simps) (auto simp: ancestor_step [OF Some])
    qed
  next
    case (Some v)
    then show ?thesis by (subst find_submatch.simps) (auto simp: ancestor_iff)
  qed
qed

lemma find_submatch_Some:
  "find_submatch m p = Some (q, v) \<Longrightarrow>
     m q = Some v \<and> ancestor q p \<and> (\<forall>q'. ancestor q' p \<and> m q' \<noteq> None \<longrightarrow> length q' \<le> length q)"
proof (induction m p rule: find_submatch.induct)
  case (1 m st)
  show ?case
  proof (cases "m st")
    case None
    with 1(2) obtain k where k: "find_last_of (CHR ''/'') st = Some k"
      and f: "find_submatch m (take k st) = Some (q, v)"
      by (subst (asm) find_submatch.simps) (auto split: option.splits)
    from 1(1) [OF None k f] None show ?thesis by (auto simp: ancestor_step [OF k])
  next
    case (Some w)
    with 1(2) have "q = st" "v = w" by (subst (asm) find_submatch.simps, simp)+
    with Some show ?thesis by (auto simp: ancestor_iff dest: ancestor_length)
  qed
qed

lemma ancestor_unique: "ancestor q p \<Longrightarrow> ancestor q' p \<Longrightarrow> length q = length q' \<Longrightarrow> q = q'"
  by (auto simp: ancestor_iff append_eq_append_conv)

lemma find_submatch_eq_Some:
  "find_submatch m p = Some (q, v) \<longleftrightarrow>
     m q = Some v \<and> ancestor q p \<and> (\<forall>q'. ancestor q' p \<and> m q' \<noteq> None \<longrightarrow> length q' \<le> length q)"
    (is "?l \<longleftrightarrow> ?r")
proof
  assume r: ?r
  then obtain q' v' where f: "find_submatch m p = Some (q', v')"
    using find_submatch_None [of m p] by fastforce
  with find_submatch_Some [OF f] r have "length q' = length q"
    by (metis le_antisym option.discI)
  with ancestor_unique find_submatch_Some [OF f] r have "q' = q" by blast
  with find_submatch_Some [OF f] f r show ?l by simp
qed (rule find_submatch_Some)

lemma find_submatch_cong:
  assumes "\<And>q. ancestor q p \<Longrightarrow> m q = m' q"
  shows "find_submatch m p = find_submatch m' p"
proof -
  have "find_submatch m p = None \<longleftrightarrow> find_submatch m' p = None"
    unfolding find_submatch_None using assms by metis
  moreover have "find_submatch m p = Some (q, v) \<longleftrightarrow> find_submatch m' p = Some (q, v)" for q v
    unfolding find_submatch_eq_Some using assms by (metis (lifting))
  ultimately show ?thesis by (metis option.exhaust surj_pair)
qed

text \<open>A new entry is found by the paths below it for which there is no longer one.\<close>

lemma find_submatch_update:
  assumes "m k = None"
  shows "find_submatch (m(k \<mapsto> v)) p =
     (if ancestor k p \<and> (\<forall>q. ancestor q p \<and> m q \<noteq> None \<longrightarrow> length q \<le> length k)
      then Some (k, v) else find_submatch m p)"
proof (cases "ancestor k p \<and> (\<forall>q. ancestor q p \<and> m q \<noteq> None \<longrightarrow> length q \<le> length k)")
  case True
  then show ?thesis by (simp add: find_submatch_eq_Some)
next
  case False
  show ?thesis
  proof (cases "ancestor k p")
    case True
    with False obtain q v' where q: "find_submatch m p = Some (q, v')"
      using find_submatch_None [of m p] by fastforce
    with False True find_submatch_Some [OF q] have "length k < length q" by fastforce
    with find_submatch_Some [OF q] have "find_submatch (m(k \<mapsto> v)) p = Some (q, v')"
      by (auto simp: find_submatch_eq_Some)
    with False q show ?thesis by auto
  qed (auto intro: find_submatch_cong)
qed

section \<open>Registration and lookup\<close>

text \<open>\<open>GET\<close> and \<open>HEAD\<close> share their maps; any other method has its own or none.\<close>

definition same_table :: "byte_string \<Rightarrow> byte_string \<Rightarrow> bool" where
  "same_table m1 m2 \<longleftrightarrow> m1 = m2 \<or> {m1, m2} \<subseteq> {REQUEST_METHOD_GET, REQUEST_METHOD_HEAD}"

lemma choose_map_same_table:
  assumes "same_table a b"
  shows "choose_map_by_method a g p q d r = choose_map_by_method b g p q d r"
proof (cases "a = b")
  case False
  with assms have "a = REQUEST_METHOD_GET \<or> a = REQUEST_METHOD_HEAD" "b = REQUEST_METHOD_GET \<or> b = REQUEST_METHOD_HEAD"
    by (simp_all add: same_table_def)
  then show ?thesis unfolding choose_map_by_method_def by simp
qed simp

text \<open>
  What request handlers and payload handlers have in common: a table per method, and an
  operation that adds an entry to one table under the path without its trailing slash.
\<close>

locale handler_registry =
  fixes tbl :: "byte_string \<Rightarrow> 's \<Rightarrow> exn + (byte_string \<rightharpoonup> 'h)"
    and add :: "byte_string \<Rightarrow> byte_string \<Rightarrow> 'h \<Rightarrow> 's \<Rightarrow> exn + 's"
  assumes add_no_table: "tbl meth s = Inl e \<Longrightarrow> add meth res h s = Inl e"
    and add_taken: "tbl meth s = Inr t \<Longrightarrow> t (strip_trailing_slash res) \<noteq> None \<Longrightarrow> \<exists>e. add meth res h s = Inl e"
    and add_free: "tbl meth s = Inr t \<Longrightarrow> t (strip_trailing_slash res) = None \<Longrightarrow> \<exists>s'. add meth res h s = Inr s'"
    and tbl_same: "same_table meth meth' \<Longrightarrow> tbl meth s = tbl meth' s"
    and tbl_add: "add meth res h s = Inr s' \<Longrightarrow>
      tbl meth' s' = (if same_table meth' meth
        then map_sum id (\<lambda>t. t(strip_trailing_slash res \<mapsto> h)) (tbl meth' s) else tbl meth' s)"
begin

definition lookup :: "byte_string \<Rightarrow> byte_string \<Rightarrow> 's \<Rightarrow> exn + (byte_string \<times> 'h) option" where
  "lookup meth path s = map_sum id (\<lambda>t. find_submatch t path) (tbl meth s)"

lemma add_iff:
  "(\<exists>s'. add meth res h s = Inr s') \<longleftrightarrow> (\<exists>t. tbl meth s = Inr t \<and> t (strip_trailing_slash res) = None)"
proof (cases "tbl meth s")
  case (Inl e)
  then show ?thesis by (simp add: add_no_table)
next
  case (Inr t)
  then show ?thesis
    using add_taken [OF Inr, of res h] add_free [OF Inr, of res h] by fastforce
qed

lemma lookup_add:
  assumes "add meth res h s = Inr s'"
  shows "lookup meth' path s' =
     (if same_table meth' meth \<and> ancestor (strip_trailing_slash res) path
         \<and> (\<forall>t q. tbl meth' s = Inr t \<and> ancestor q path \<and> t q \<noteq> None \<longrightarrow> length q \<le> length (strip_trailing_slash res))
      then Inr (Some (strip_trailing_slash res, h)) else lookup meth' path s)"
proof (cases "same_table meth' meth")
  case True
  have "\<exists>t. tbl meth s = Inr t \<and> t (strip_trailing_slash res) = None"
    using add_iff [of meth res h s] assms by blast
  then obtain t where "tbl meth' s = Inr t" "t (strip_trailing_slash res) = None"
    using tbl_same [OF True] by auto
  then show ?thesis
    using tbl_add [OF assms, of meth'] True by (auto simp: lookup_def find_submatch_update)
qed (use tbl_add [OF assms, of meth'] in \<open>simp add: lookup_def\<close>)

end

lemma map_sum_emplace:
  "map_sum id f (emplace dup k v m) = Inr s' \<longleftrightarrow> m k = None \<and> s' = f (m(k \<mapsto> v))"
  "map_sum id f (emplace dup k v m) = Inl e \<longleftrightarrow> m k \<noteq> None \<and> e = dup"
  by (auto simp: emplace_def split: option.splits)

interpretation request_handlers: handler_registry choose_handlers add_handler
proof unfold_locales
  fix meth res h and s :: "'a http_server" and t e
  show "choose_handlers meth s = Inl e \<Longrightarrow> add_handler meth res h s = Inl e"
    by (auto simp: choose_handlers_def choose_map_by_method_def add_handler_def Let_def split: if_splits)
  show "choose_handlers meth s = Inr t \<Longrightarrow> t (strip_trailing_slash res) \<noteq> None \<Longrightarrow> \<exists>e. add_handler meth res h s = Inl e"
    by (auto simp: choose_handlers_def choose_map_by_method_def add_handler_def Let_def map_sum_emplace split: if_splits)
  show "choose_handlers meth s = Inr t \<Longrightarrow> t (strip_trailing_slash res) = None \<Longrightarrow> \<exists>s'. add_handler meth res h s = Inr s'"
    by (auto simp: choose_handlers_def choose_map_by_method_def add_handler_def Let_def map_sum_emplace split: if_splits)
next
  fix meth meth' res h and s s' :: "'a http_server"
  show "same_table meth meth' \<Longrightarrow> choose_handlers meth s = choose_handlers meth' s"
    unfolding choose_handlers_def by (rule choose_map_same_table)
  show "add_handler meth res h s = Inr s' \<Longrightarrow> choose_handlers meth' s' = (if same_table meth' meth
        then map_sum id (\<lambda>t. t(strip_trailing_slash res \<mapsto> h)) (choose_handlers meth' s) else choose_handlers meth' s)"
    by (auto simp: choose_handlers_def choose_map_by_method_def add_handler_def Let_def map_sum_emplace
        same_table_def method_names split: if_splits)
qed

interpretation payload_handlers: handler_registry choose_payloads add_payload_handler
proof unfold_locales
  fix meth res h and s :: "'a http_server" and t e
  show "choose_payloads meth s = Inl e \<Longrightarrow> add_payload_handler meth res h s = Inl e"
    by (auto simp: choose_payloads_def choose_map_by_method_def add_payload_handler_def Let_def split: if_splits)
  show "choose_payloads meth s = Inr t \<Longrightarrow> t (strip_trailing_slash res) \<noteq> None \<Longrightarrow> \<exists>e. add_payload_handler meth res h s = Inl e"
    by (auto simp: choose_payloads_def choose_map_by_method_def add_payload_handler_def Let_def map_sum_emplace split: if_splits)
  show "choose_payloads meth s = Inr t \<Longrightarrow> t (strip_trailing_slash res) = None \<Longrightarrow> \<exists>s'. add_payload_handler meth res h s = Inr s'"
    by (auto simp: choose_payloads_def choose_map_by_method_def add_payload_handler_def Let_def map_sum_emplace split: if_splits)
next
  fix meth meth' res h and s s' :: "'a http_server"
  show "same_table meth meth' \<Longrightarrow> choose_payloads meth s = choose_payloads meth' s"
    unfolding choose_payloads_def by (rule choose_map_same_table)
  show "add_payload_handler meth res h s = Inr s' \<Longrightarrow> choose_payloads meth' s' = (if same_table meth' meth
        then map_sum id (\<lambda>t. t(strip_trailing_slash res \<mapsto> h)) (choose_payloads meth' s) else choose_payloads meth' s)"
    by (auto simp: choose_payloads_def choose_map_by_method_def add_payload_handler_def Let_def map_sum_emplace
        same_table_def method_names split: if_splits)
qed

section \<open>The hook fulfils its contract\<close>

interpretation server_hook: headers_contract "handle_request_after_headers_parsed E s" for E s
proof unfold_locales
  fix w ec rc m w' rc' m' ph
  assume "handle_request_after_headers_parsed E s w ec rc m = (w', Inr (rc', m', ph))"
  then have "(rc' = rc \<or> rc' = TTrue) \<and> m_content_buf m' = m_content_buf m \<and> m_content_length m' = m_content_length m
      \<and> m_chunk_cache m' = m_chunk_cache m \<and> m_headers m' = m_headers m"
    by (auto simp: handle_request_after_headers_parsed_def Let_def request_set_payload_handler_def
        split: if_splits sum.splits option.splits)
  then show "rc' = rc \<or> rc' = TTrue"
    "m_content_buf m' = m_content_buf m \<and> m_content_length m' = m_content_length m \<and> m_chunk_cache m' = m_chunk_cache m"
    "list_all header_ok (m_headers m) \<Longrightarrow> list_all header_ok (m_headers m')"
    by simp_all
next
  fix w ec rc m w' e
  assume "handle_request_after_headers_parsed E s w ec rc m = (w', Inl e)"
  then show "e \<noteq> Memory_fault"
    by (auto simp: handle_request_after_headers_parsed_def Let_def choose_payloads_def choose_map_by_method_def
        invalid_method_def split: if_splits sum.splits option.splits prod.splits)
qed

section \<open>WebSocket connections\<close>

lemma find_ws_conns_loop_wanted:
  "find_ws_conns_loop ids vec kept todo = Some r \<Longrightarrow> \<forall>e\<in>set todo. ids = [] \<or> fst (snd e) \<in> set ids"
proof (induction rule: find_ws_conns_loop.raw_induct [rotated, consumes 1, case_names step])
  case (step loop ids vec kept todo r)
  note ih = step(1)
  show ?case
  proof (cases todo)
    case (Cons e es)
    show ?thesis
    proof (cases "ids = [] \<or> fst (snd e) \<in> set ids")
      case True
      then obtain vec' kept' where "loop ids vec' kept' es = Some r"
        using step(2) Cons by (cases "snd (snd e)") auto
      from ih [OF this] True Cons show ?thesis by auto
    next
      case False
      then have "loop ids vec kept (e # es) = Some r" using step(2) Cons by auto
      from ih [OF this] Cons show ?thesis by simp
    qed
  qed simp
qed

lemma find_ws_conns_loop_eq:
  assumes "\<forall>e\<in>set todo. ids = [] \<or> fst (snd e) \<in> set ids"
  shows "find_ws_conns_loop ids vec kept todo
    = Some (vec @ List.map_filter (\<lambda>e. snd (snd e)) todo, kept @ filter (\<lambda>e. snd (snd e) \<noteq> None) todo)"
  using assms
proof (induction todo arbitrary: vec kept)
  case Nil
  show ?case by (subst find_ws_conns_loop.simps) simp
next
  case (Cons e todo)
  then show ?case
    by (subst find_ws_conns_loop.simps) (auto split: option.splits)
qed

text \<open>
  A WebSocket handler is found under the path it was registered for, without its trailing slash;
  the resource of a request is not stripped before the lookup, so a request for the path with the
  slash does not find it.
\<close>

lemma websocket_handler_found:
  assumes "add_websocket_handler mv event res h s = Inr s'"
  shows "fst (find_ws_handlers rf nf (strip_trailing_slash res) s')"
  using assms
  by (auto simp: add_websocket_handler_def choose_ws_map_def find_ws_handlers_def map_sum_emplace Let_def split: if_splits)

lemma websocket_handler_not_found:
  fixes s' :: "'ws http_server"
  assumes "add_websocket_handler mv event (path @ ''/'') h (new_http_server E t) = Inr s'"
  shows "\<not> fst (find_ws_handlers rf nf (path @ ''/'') s')"
  using assms
  by (auto simp: add_websocket_handler_def choose_ws_map_def find_ws_handlers_def map_sum_emplace new_http_server_def
      strip_trailing_slash_def Let_def split: if_splits)

section \<open>Answers to bad requests\<close>

lemma response_head_first_line:
  assumes "m_first_line r = []"
  shows "\<exists>rest. response_head E ka ch r = response_update_first_line E r @ [CR, LF] @ rest"
proof -
  let ?m = "prepare_headers_for_send E ka ch r"
  have same: "m_first_line ?m = []" "response_update_first_line E ?m = response_update_first_line E r"
    using assms by (simp_all add: prepare_headers_for_send_def change_header_def Let_def
        response_update_first_line_def get_version_string_def)
  then show ?thesis
    by (simp add: response_head_def prepare_buffers_for_send_def get_first_line_def append_cookie_headers_base_def
        append_headers_def Let_def STRING_CRLF_def)
qed

text \<open>A default handler sends its body whole, after a head with its status.\<close>

lemma send_with_status:
  assumes "is_open c" and "m_first_line (w_response w) = []" and "writer_ok w"
    and "\<not> w_sending_chunks w" "\<not> w_sent_headers w"
  shows "\<exists>rest. sent_bytes (fst (writer_send E c w))
      = sent_bytes c @ response_update_first_line E (w_response w) @ [CR, LF] @ rest @ concat (w_content_buffers w)"
proof -
  have same: "response_update_first_line E (head_response w) = response_update_first_line E (w_response w)"
    "m_first_line (head_response w) = []"
    using assms(2) by (simp_all add: head_response_def response_update_first_line_def get_version_string_def)
  obtain rest where "response_head E (get_keep_alive c) False (head_response w)
      = response_update_first_line E (w_response w) @ [CR, LF] @ rest"
    using response_head_first_line [OF same(2)] same(1) by metis
  moreover have "content_text w = concat (w_content_buffers w)"
    using assms(3,4) by (simp add: content_text_def writer_ok_def)
  ultimately show ?thesis
    using prepare_write_buffers_bytes [of E "get_keep_alive c" False w] assms(1,4,5)
    by (simp add: writer_send_def send_more_data_def split_beta)
qed

section \<open>Properties\<close>

text \<open>
  C13: dispatch of a request. A valid request that is not a WebSocket upgrade goes to the handler
  registered, in the table of its method, under the longest path that is the request's path
  (without trailing slash) or precedes one of its slashes; without such a path the not-found
  handler gets it; and for a method without a table an exception leaves \<open>handle_request\<close> and
  nothing is sent.
\<close>

theorem request_dispatch:
  fixes s :: "'ws http_server"
  assumes "m_is_valid req" and "\<not> is_websocket_upgrade E req"
    and "path = strip_trailing_slash (rq_resource req)"
    and "\<not> (rq_method req = REQUEST_METHOD_OPTIONS \<and> path \<in> {''*'', ''/*''})"
  shows "case choose_handlers (rq_method req) s of
      Inl e \<Rightarrow> e = invalid_method (rq_method req)
        \<and> handle_request E rf nf s req c EC_none = Threw (invalid_method (rq_method req)) c
    | Inr handlers \<Rightarrow>
        (\<forall>q h. handlers q = Some h \<and> ancestor q path
           \<and> (\<forall>q'. ancestor q' path \<and> handlers q' \<noteq> None \<longrightarrow> length q' \<le> length q)
           \<longrightarrow> handle_request E rf nf s req c EC_none = Handled (snd (h req (new_response_writer req) c)))
        \<and> ((\<forall>q. ancestor q path \<longrightarrow> handlers q = None)
           \<longrightarrow> handle_request E rf nf s req c EC_none
               = call_handler (hs_not_found_handler s req (new_response_writer req) c))"
proof -
  have hr: "handle_request E rf nf s req c EC_none = handle_http_request E s req c"
    using assms(1,2) by (simp add: handle_request_def)
  show ?thesis
  proof (cases "choose_handlers (rq_method req) s")
    case (Inl e)
    then have "e = invalid_method (rq_method req)"
      by (auto simp: choose_handlers_def choose_map_by_method_def split: if_splits)
    with Inl hr assms(3,4) show ?thesis by (auto simp: handle_http_request_def Let_def)
  next
    case (Inr handlers)
    then have eq: "handle_http_request E s req c = (case find_submatch handlers path of
        Some (_, handler) \<Rightarrow> call_app_handler (handler req (new_response_writer req) c)
      | None \<Rightarrow> call_handler (hs_not_found_handler s req (new_response_writer req) c))"
      using assms(3,4) by (auto simp: handle_http_request_def Let_def)
    have found: "handle_http_request E s req c = Handled (snd (h req (new_response_writer req) c))"
      if "handlers q = Some h \<and> ancestor q path
        \<and> (\<forall>q'. ancestor q' path \<and> handlers q' \<noteq> None \<longrightarrow> length q' \<le> length q)" for q h
    proof -
      from that have "find_submatch handlers path = Some (q, h)" unfolding find_submatch_eq_Some .
      then show ?thesis by (simp add: eq call_app_handler_def)
    qed
    have "handle_http_request E s req c = call_handler (hs_not_found_handler s req (new_response_writer req) c)"
      if "\<forall>q. ancestor q path \<longrightarrow> handlers q = None"
      using that find_submatch_None [of handlers path] by (simp add: eq)
    with found show ?thesis unfolding Inr hr sum.case by blast
  qed
qed

definition plain_request :: "byte_string \<Rightarrow> byte_string \<Rightarrow> http_request" where
  "plain_request meth res =
     (new_http_request False)\<lparr>rq_method := meth, rq_resource := res, m_is_valid := True\<rparr>"

definition closing_handler :: request_handler_type where
  "closing_handler req w c = (None, finish_conn c)"

definition sample_server :: "unit http_server" where
  "sample_server =
     (new_http_server utils_ref 1000)\<lparr>hs_get_handlers := [''/a'' \<mapsto> closing_handler]\<rparr>"

lemma plain_request_plain [simp]:
  "\<not> is_websocket_upgrade utils_ref (plain_request meth res)" "m_is_valid (plain_request meth res)"
  "rq_resource (plain_request meth res) = res" "rq_method (plain_request meth res) = meth"
  by (simp_all add: is_websocket_upgrade_def has_header_value_def plain_request_def new_http_request_def
      new_http_message_def http_message.defs get_header_def get_value_def
      equal_range_def dict_find_def)

lemma sample_path: "strip_trailing_slash ''/a/b/'' = ''/a/b''"
  by (simp add: strip_trailing_slash_def)

lemma sample_handlers [simp]:
  "choose_handlers REQUEST_METHOD_GET sample_server = Inr [''/a'' \<mapsto> closing_handler]"
  by (simp add: choose_handlers_def choose_map_by_method_def sample_server_def)

definition sample_conn :: tcp_connection where
  "sample_conn = (new_tcp_connection False (Address_v4 0))\<lparr>tc_open := True\<rparr>"

lemma dispatch_found:
  assumes "m_is_valid req" and "\<not> is_websocket_upgrade E req"
    and "\<not> (rq_method req = REQUEST_METHOD_OPTIONS \<and> strip_trailing_slash (rq_resource req) \<in> {''*'', ''/*''})"
    and "map_sum id (\<lambda>t. find_submatch t (strip_trailing_slash (rq_resource req))) (choose_handlers (rq_method req) s)
      = Inr (Some (q, h))"
  shows "handle_request E rf nf s req c EC_none = Handled (snd (h req (new_response_writer req) c))"
  using assms
  by (cases "choose_handlers (rq_method req) s")
     (auto simp: handle_request_def handle_http_request_def call_app_handler_def Let_def)

theorem request_dispatch_witness:
  "handle_request utils_ref () () sample_server (plain_request REQUEST_METHOD_GET ''/a/b/'') sample_conn EC_none
     = Handled (finish_conn sample_conn)"
proof -
  let ?r = "plain_request REQUEST_METHOD_GET ''/a/b/''"
  have anc: "ancestor ''/a'' ''/a/b''" by (simp add: ancestor_def)
  have "\<forall>q h. [''/a'' \<mapsto> closing_handler] q = Some h \<and> ancestor q ''/a/b''
      \<and> (\<forall>q'. ancestor q' ''/a/b'' \<and> [''/a'' \<mapsto> closing_handler] q' \<noteq> None \<longrightarrow> length q' \<le> length q)
      \<longrightarrow> handle_request utils_ref () () sample_server ?r sample_conn EC_none
          = Handled (snd (h ?r (new_response_writer ?r) sample_conn))"
    using request_dispatch [where req = ?r and E = utils_ref and path = "''/a/b''" and s = sample_server
        and rf = "()" and nf = "()" and c = sample_conn] by (simp add: sample_path)
  from this [rule_format, of "''/a''" closing_handler] anc show ?thesis
    by (simp add: closing_handler_def)
qed

text \<open>
  C14: registration of a request handler. It succeeds exactly when the method has a table and
  the path without trailing slash is free there; then a request of the same table (\<open>GET\<close> and
  \<open>HEAD\<close> share one) whose path has the new path as ancestor, and no longer one registered
  before, is dispatched to the new handler; what other requests find does not change.
\<close>

theorem handler_registration:
  fixes s :: "'ws http_server"
  shows "((\<exists>s'. add_handler meth res h s = Inr s') \<longleftrightarrow>
       (\<exists>t. choose_handlers meth s = Inr t \<and> t (strip_trailing_slash res) = None))
    \<and> (add_handler meth res h s = Inr s' \<longrightarrow>
        map_sum id (\<lambda>t. find_submatch t path) (choose_handlers meth' s') =
        (if same_table meth' meth \<and> ancestor (strip_trailing_slash res) path
            \<and> (\<forall>t q. choose_handlers meth' s = Inr t \<and> ancestor q path \<and> t q \<noteq> None
                 \<longrightarrow> length q \<le> length (strip_trailing_slash res))
         then Inr (Some (strip_trailing_slash res, h))
         else map_sum id (\<lambda>t. find_submatch t path) (choose_handlers meth' s)))"
  using request_handlers.add_iff [of meth res h s]
    request_handlers.lookup_add [of meth res h s s' meth' path, unfolded request_handlers.lookup_def] by blast

theorem handler_registration_witness:
  "map_sum id (\<lambda>t. find_submatch t ''/a/b'') (choose_handlers REQUEST_METHOD_HEAD
      ((new_http_server utils_ref 1000 :: unit http_server)\<lparr>hs_get_handlers := [''/a'' \<mapsto> closing_handler]\<rparr>))
   = Inr (Some (''/a'', closing_handler))"
proof -
  have add: "add_handler REQUEST_METHOD_GET ''/a/'' closing_handler (new_http_server utils_ref 1000 :: unit http_server)
      = Inr ((new_http_server utils_ref 1000)\<lparr>hs_get_handlers := [''/a'' \<mapsto> closing_handler]\<rparr>)"
    by (simp add: add_handler_def emplace_def new_http_server_def strip_trailing_slash_def)
  have head: "choose_handlers REQUEST_METHOD_HEAD (new_http_server utils_ref 1000 :: unit http_server) = Inr Map.empty"
    by (simp add: choose_handlers_def choose_map_by_method_def new_http_server_def)
  have side: "same_table REQUEST_METHOD_HEAD REQUEST_METHOD_GET" "strip_trailing_slash ''/a/'' = ''/a''"
    "ancestor ''/a'' ''/a/b''"
    by (simp_all add: same_table_def strip_trailing_slash_def ancestor_def)
  from handler_registration [THEN conjunct2, rule_format, OF add, of "''/a/b''" REQUEST_METHOD_HEAD]
  show ?thesis by (simp add: side head)
qed

text \<open>Registration of a payload handler follows the same laws.\<close>

lemma payload_handler_registration:
  fixes s :: "'ws http_server"
  shows "((\<exists>s'. add_payload_handler meth res h s = Inr s') \<longleftrightarrow>
       (\<exists>t. choose_payloads meth s = Inr t \<and> t (strip_trailing_slash res) = None))
    \<and> (add_payload_handler meth res h s = Inr s' \<longrightarrow>
        map_sum id (\<lambda>t. find_submatch t path) (choose_payloads meth' s') =
        (if same_table meth' meth \<and> ancestor (strip_trailing_slash res) path
            \<and> (\<forall>t q. choose_payloads meth' s = Inr t \<and> ancestor q path \<and> t q \<noteq> None
                 \<longrightarrow> length q \<le> length (strip_trailing_slash res))
         then Inr (Some (strip_trailing_slash res, h))
         else map_sum id (\<lambda>t. find_submatch t path) (choose_payloads meth' s)))"
  using payload_handlers.add_iff [of meth res h s]
    payload_handlers.lookup_add [of meth res h s s' meth' path, unfolded payload_handlers.lookup_def] by blast

text \<open>
  C26: what happens to an invalid request. A parser error on an open connection is answered,
  unless the application has set a handler of its own, with status 400 and the body
  \<open>BAD_REQUEST_MSG\<close> (no body when the method read was \<open>HEAD\<close>); any other error, a closed
  connection, or a request marked invalid without an error finishes the connection without
  sending anything. In all cases the connection is not kept alive.
\<close>

theorem invalid_request_answer:
  fixes s :: "'ws http_server"
  assumes "hs_bad_request_handler s = handle_bad_request E"
    and "ec \<noteq> EC_none \<or> \<not> m_is_valid req"
  shows "\<exists>c'. handle_request E rf nf s req c ec = Handled c' \<and> \<not> get_keep_alive c'
    \<and> (if is_open c \<and> (\<exists>ev. ec = EC_parser ev)
       then \<exists>rest. sent_bytes c' = sent_bytes c @ get_version_string E (new_http_response req) @ '' ''
              @ to_string E 400 @ '' Bad Request'' @ [CR, LF] @ rest
              @ (if rq_method req = REQUEST_METHOD_HEAD then [] else BAD_REQUEST_MSG)
       else c' = finish_conn (set_lifecycle Lifecycle_close c))"
proof (cases "is_open c \<and> (\<exists>ev. ec = EC_parser ev)")
  case True
  let ?c = "set_lifecycle Lifecycle_close c"
  let ?w1 = "set_response_status RESPONSE_CODE_BAD_REQUEST RESPONSE_MESSAGE_BAD_REQUEST (new_response_writer req)"
  let ?w = "write_nocopy BAD_REQUEST_MSG ?w1"
  let ?c' = "fst (writer_send E ?c ?w)"
  have hr: "handle_request E rf nf s req c ec = Handled ?c'"
    using True assms by (auto simp: handle_request_def handle_bad_request_def call_handler_def Let_def)
  have w1: "w_content_buffers ?w1 = []" "w_content_length ?w1 = 0" "\<not> w_sending_chunks ?w1" "\<not> w_sent_headers ?w1"
    "rs_request_method (w_response ?w1) = rq_method req" "m_first_line (w_response ?w1) = []"
    "response_update_first_line E (w_response ?w1)
       = get_version_string E (new_http_response req) @ '' '' @ to_string E 400 @ '' Bad Request''"
    by (simp_all add: set_response_status_def new_response_writer_def supports_chunked_messages_def Let_def
        set_status_message_def set_status_code_def clear_first_line_def response_update_first_line_def
        get_version_string_def RESPONSE_CODE_BAD_REQUEST_def RESPONSE_MESSAGE_BAD_REQUEST_def
        new_http_response_def update_request_info_def set_version_minor_def set_version_major_def)
  have w: "w_content_buffers ?w = (if rq_method req = REQUEST_METHOD_HEAD then [] else [BAD_REQUEST_MSG])"
    "w_response ?w = w_response ?w1" "\<not> w_sending_chunks ?w" "\<not> w_sent_headers ?w" "writer_ok ?w"
    using w1 by (auto simp: write_nocopy_def is_body_allowed_def BAD_REQUEST_MSG_def writer_ok_def)
  obtain rest where "sent_bytes ?c' = sent_bytes ?c @ response_update_first_line E (w_response ?w) @ [CR, LF] @ rest
      @ concat (w_content_buffers ?w)"
    using send_with_status [of ?c ?w E] True w w1(6) by auto
  moreover have "\<not> get_keep_alive ?c'"
    using True by (simp add: writer_send_def send_more_data_def split_beta)
  ultimately show ?thesis using True hr w w1(7) by auto
next
  case False
  then have "handle_request E rf nf s req c ec = Handled (finish_conn (set_lifecycle Lifecycle_close c))"
    using assms(2) by (cases ec) (auto simp: handle_request_def Let_def)
  moreover have "\<not> get_keep_alive (finish_conn (set_lifecycle Lifecycle_close c))" by (simp add: conn_defs)
  ultimately show ?thesis using False by auto
qed

theorem invalid_request_answer_witness:
  "\<exists>c'. handle_request utils_ref () () sample_server (new_http_request False) sample_conn (EC_parser ERROR_URI_CHAR)
      = Handled c' \<and> \<not> get_keep_alive c'"
proof -
  have "hs_bad_request_handler sample_server = handle_bad_request utils_ref"
    by (simp add: sample_server_def new_http_server_def)
  from invalid_request_answer [OF this, of "EC_parser ERROR_URI_CHAR" "new_http_request False" "()" "()" sample_conn]
  show ?thesis by auto
qed

text \<open>
  The connections \<open>broadcast_websocket\<close> sends to. When every connection registered under
  the path is wanted, \<open>find_ws_conns\<close> returns those still alive, in order, and forgets the dead
  ones; but when some entry of the path has an id that is not in a non-empty set of wanted ids,
  the loop never ends.
\<close>

lemma find_ws_conns_eq:
  "find_ws_conns path ids reg =
     (if ids \<noteq> [] \<and> (\<exists>e\<in>set reg. fst e = path \<and> fst (snd e) \<notin> set ids) then None
      else Some (List.map_filter (\<lambda>e. snd (snd e)) (filter (\<lambda>e. fst e = path) reg),
                 filter (\<lambda>e. fst e \<noteq> path) reg
                 @ filter (\<lambda>e. snd (snd e) \<noteq> None) (filter (\<lambda>e. fst e = path) reg)))"
proof (cases "ids \<noteq> [] \<and> (\<exists>e\<in>set reg. fst e = path \<and> fst (snd e) \<notin> set ids)")
  case True
  then have "\<not> (\<forall>e\<in>set (filter (\<lambda>e. fst e = path) reg). ids = [] \<or> fst (snd e) \<in> set ids)" by fastforce
  then have "find_ws_conns_loop ids [] [] (filter (\<lambda>e. fst e = path) reg) = None"
    using find_ws_conns_loop_wanted by (metis option.exhaust)
  with True show ?thesis by (simp add: find_ws_conns_def)
next
  case False
  then have "\<forall>e\<in>set (filter (\<lambda>e. fst e = path) reg). ids = [] \<or> fst (snd e) \<in> set ids" by auto
  from find_ws_conns_loop_eq [OF this, of "[]" "[]"] False show ?thesis
    unfolding find_ws_conns_def by simp
qed

end
