(* ===== verification/Http_Request_Reader.thy ===== *)
theory Http_Request_Reader
  imports Http_Server
begin

text \<open>
  \<open>http_request_reader\<close>: reads from the connection, feeds the parser, decides on the life of
  the connection and hands the request to the server. Completions of reads and of the timer are
  calls of \<open>on_read\<close> and \<open>on_timeout\<close>.
\<close>

section \<open>Definitions\<close>

record http_request_reader =
  rd_parser :: http_parser
  rd_request :: http_request
  rd_read_timeout_millis :: "32 word"

text \<open>
  The base is constructed by \<open>http_parser(true)\<close>; the parameter of that constructor is a size,
  so the limit is 1. The other arguments are the members left uninitialised.
\<close>

definition new_http_request_reader ::
  "nat \<Rightarrow> nat \<Rightarrow> bool \<Rightarrow> 32 word \<Rightarrow> tcp_connection \<Rightarrow> http_request_reader" where
  "new_http_request_reader garbage1 garbage2 garbage3 read_timeout c =
     \<lparr>rd_parser = new_http_parser garbage1 garbage2 1,
      rd_request = set_request_reader True (set_remote_ip (get_remote_ip c) (new_http_request garbage3)),
      rd_read_timeout_millis = read_timeout\<rparr>"

text \<open>
  What a step of the reader comes to: it waits for bytes, or it has handed the request over, or
  an exception leaves it (to the scheduler's thread, which logs it).
\<close>

datatype 'ws reader_outcome =
    Reading http_request_reader tcp_connection
  | Completed "'ws request_outcome"
  | Reader_threw exn tcp_connection

datatype read_result = Read_ok byte_string | Read_aborted | Read_failed

definition of_error_code :: "error_code \<Rightarrow> any_error" where
  "of_error_code ec = (case ec of None \<Rightarrow> EC_none | Some ev \<Rightarrow> EC_parser ev)"

definition finished_reading ::
  "sl_utils \<Rightarrow> 'ws \<Rightarrow> 'ws \<Rightarrow> 'ws http_server \<Rightarrow> http_request_reader \<Rightarrow> tcp_connection \<Rightarrow> any_error \<Rightarrow> 'ws reader_outcome" where
  "finished_reading E rf nf s r c ec = Completed (handle_request E rf nf s (rd_request r) c ec)"

definition read_bytes_with_timeout :: "http_request_reader \<Rightarrow> tcp_connection \<Rightarrow> 'ws reader_outcome" where
  "read_bytes_with_timeout r c = Reading r (tc_log Timer_wait (async_read_some c))"

definition on_timeout :: "bool \<Rightarrow> tcp_connection \<Rightarrow> tcp_connection" where
  "on_timeout aborted c = (if \<not> aborted then cancel_conn c else c)"

text \<open>The connection's fate after a complete message.\<close>

definition keep_connection :: "sl_utils \<Rightarrow> http_parser \<Rightarrow> http_request \<Rightarrow> tcp_connection \<Rightarrow> tcp_connection" where
  "keep_connection E p m c =
     (if check_keep_alive E m then
        (if eof p then set_lifecycle Lifecycle_keepalive c
         else save_read_pos (hp_read p) (set_lifecycle Lifecycle_pipelined c))
      else set_lifecycle Lifecycle_close c)"

definition consume_bytes ::
  "sl_utils \<Rightarrow> 'ws \<Rightarrow> 'ws \<Rightarrow> 'ws http_server \<Rightarrow> http_request_reader \<Rightarrow> tcp_connection \<Rightarrow> 'ws reader_outcome" where
  "consume_bytes E rf nf s r c =
     (case parse E (handle_request_after_headers_parsed E s) c (rd_parser r) (rd_request r) None of
        (c1, Inl e) \<Rightarrow> Reader_threw e c1
      | (c1, Inr (rc, ec, p, m)) \<Rightarrow>
          (let r1 = r\<lparr>rd_parser := p, rd_request := m\<rparr> in
           case rc of
             TTrue \<Rightarrow> finished_reading E rf nf s r1 (keep_connection E p m c1) (of_error_code ec)
           | TFalse \<Rightarrow>
               finished_reading E rf nf s (r1\<lparr>rd_request := set_is_valid False m\<rparr>)
                 (set_lifecycle Lifecycle_close c1) (of_error_code ec)
           | Indeterminate \<Rightarrow> read_bytes_with_timeout r1 c1))"

definition handle_read_error ::
  "sl_utils \<Rightarrow> 'ws \<Rightarrow> 'ws \<Rightarrow> 'ws http_server \<Rightarrow> http_request_reader \<Rightarrow> tcp_connection \<Rightarrow> 'ws reader_outcome" where
  "handle_read_error E rf nf s r c =
     (let c1 = set_lifecycle Lifecycle_close c in
      case check_premature_eof E (rd_parser r) (rd_request r) of
        Inl e \<Rightarrow> Reader_threw e c1
      | Inr (premature, p, m) \<Rightarrow>
          (let r1 = r\<lparr>rd_parser := p, rd_request := m\<rparr>
           in if \<not> premature then finished_reading E rf nf s r1 c1 EC_none
              else finished_reading E rf nf s r1 c1 EC_system))"

text \<open>The completion handler of a read, then the overload of \<open>consume_bytes\<close> it calls.\<close>

definition on_read ::
  "sl_utils \<Rightarrow> 'ws \<Rightarrow> 'ws \<Rightarrow> 'ws http_server \<Rightarrow> http_request_reader \<Rightarrow> tcp_connection \<Rightarrow> read_result \<Rightarrow> 'ws reader_outcome" where
  "on_read E rf nf s r c res =
     (case res of
        Read_ok bs \<Rightarrow> consume_bytes E rf nf s (r\<lparr>rd_parser := set_read_buffer bs (rd_parser r)\<rparr>) (cancel_timer c)
      | Read_failed \<Rightarrow> handle_read_error E rf nf s r (cancel_timer c)
      | Read_aborted \<Rightarrow> handle_read_error E rf nf s r c)"

definition receive ::
  "sl_utils \<Rightarrow> 'ws \<Rightarrow> 'ws \<Rightarrow> 'ws http_server \<Rightarrow> http_request_reader \<Rightarrow> tcp_connection \<Rightarrow> 'ws reader_outcome" where
  "receive E rf nf s r c =
     (if is_pipelined c then
        (let c1 = set_lifecycle Lifecycle_close c
         in consume_bytes E rf nf s (r\<lparr>rd_parser := set_read_buffer (load_read_pos c1) (rd_parser r)\<rparr>) c1)
      else read_bytes_with_timeout r (set_lifecycle Lifecycle_close c))"

text \<open>\<open>http_server::handle_connection\<close>: a new reader for each request.\<close>

definition handle_connection ::
  "sl_utils \<Rightarrow> 'ws \<Rightarrow> 'ws \<Rightarrow> nat \<Rightarrow> nat \<Rightarrow> bool \<Rightarrow> 'ws http_server \<Rightarrow> tcp_connection \<Rightarrow> 'ws reader_outcome" where
  "handle_connection E rf nf g1 g2 g3 s c =
     receive E rf nf s (new_http_request_reader g1 g2 g3 (hs_read_timeout s) c) c"

text \<open>A request as the reader sees it: a sequence of completed reads.\<close>

fun run_reads ::
  "sl_utils \<Rightarrow> 'ws \<Rightarrow> 'ws \<Rightarrow> 'ws http_server \<Rightarrow> 'ws reader_outcome \<Rightarrow> read_result list \<Rightarrow> 'ws reader_outcome"
where
  "run_reads E rf nf s (Reading r c) (x # xs) = run_reads E rf nf s (on_read E rf nf s r c x) xs"
| "run_reads E rf nf s out _ = out"

section \<open>Safety\<close>

fun reader_inv :: "'ws reader_outcome \<Rightarrow> bool" where
  "reader_inv (Reading r c) = parser_inv (rd_parser r) (rd_request r)"
| "reader_inv (Completed out) = True"
| "reader_inv (Reader_threw e c) = (e \<noteq> Memory_fault)"

lemma parser_inv_read_buffer [simp]: "parser_inv (set_read_buffer bs p) m = parser_inv p m"
  by (simp add: parser_inv_def content_inv_def set_read_buffer_def)

lemma consume_bytes_inv:
  assumes "parser_inv (rd_parser r) (rd_request r)"
  shows "reader_inv (consume_bytes E rf nf s r c)"
proof -
  obtain c1 o1 where o1: "parse E (handle_request_after_headers_parsed E s) c (rd_parser r) (rd_request r) None = (c1, o1)"
    by (metis surj_pair)
  from server_hook.parse_inv [OF assms this] o1 show ?thesis
    by (auto simp: consume_bytes_def Let_def finished_reading_def read_bytes_with_timeout_def
        split: sum.splits tribool.splits)
qed

text \<open>The state \<open>PARSE_CONTENT_NO_LENGTH\<close> is never reached, so a read error is always premature.\<close>

lemma handle_read_error_eq:
  assumes "parser_inv (rd_parser r) (rd_request r)"
  shows "handle_read_error E rf nf s r c
       = Completed (handle_request E rf nf s (rd_request r) (set_lifecycle Lifecycle_close c) EC_system)"
  using assms by (simp add: handle_read_error_def check_premature_eof_def parser_inv_def finished_reading_def Let_def)

lemma on_read_inv:
  assumes "parser_inv (rd_parser r) (rd_request r)"
  shows "reader_inv (on_read E rf nf s r c x)"
  by (auto simp: on_read_def handle_read_error_eq [OF assms] assms intro!: consume_bytes_inv split: read_result.split)

lemma run_reads_inv: "reader_inv out \<Longrightarrow> reader_inv (run_reads E rf nf s out xs)"
  by (induction E rf nf s out xs rule: run_reads.induct) (simp_all add: on_read_inv)

lemma parser_inv_new_reader:
  "parser_inv (rd_parser (new_http_request_reader g1 g2 g3 t c)) (rd_request (new_http_request_reader g1 g2 g3 t c))"
proof -
  have "parser_inv (new_http_parser g1 g2 1) (set_request_reader True (set_remote_ip (get_remote_ip c) (new_http_request g3)))"
    by (rule parser_inv_same_message [OF parser_inv_new]) (simp_all add: set_request_reader_def set_remote_ip_def SIZE_MAX_def)
  then show ?thesis by (simp add: new_http_request_reader_def)
qed

lemma handle_connection_inv: "reader_inv (handle_connection E rf nf g1 g2 g3 s c)"
  by (auto simp: handle_connection_def receive_def Let_def read_bytes_with_timeout_def parser_inv_new_reader
      intro!: consume_bytes_inv)

section \<open>Properties\<close>

text \<open>
  The reader is memory safe. Whatever a client sends on a connection, in whatever pieces
  and with whatever read errors, from the moment the server takes the connection: no exception
  that leaves the reader is an access outside a buffer, and as long as the reader waits for
  more, parser and request satisfy \<open>parser_inv\<close> (header data within its limits, cached content
  within the limit, content length within the buffer).
\<close>

lemma reader_memory_safe:
  "case run_reads E rf nf s (handle_connection E rf nf g1 g2 g3 s c) xs of
     Reading r c' \<Rightarrow> parser_inv (rd_parser r) (rd_request r)
   | Completed out \<Rightarrow> True
   | Reader_threw e c' \<Rightarrow> e \<noteq> Memory_fault"
  using run_reads_inv [OF handle_connection_inv [of E rf nf g1 g2 g3 s c], of E rf nf s xs]
  by (cases "run_reads E rf nf s (handle_connection E rf nf g1 g2 g3 s c) xs") simp_all

end
