(* ===== verification/Request_Service.thy ===== *)
theory Request_Service
  imports Http_Request_Reader Head_Roundtrip
begin

text \<open>
  Connection to handler: what the reader, the parser and the server make together of the text of
  a request.
\<close>

section \<open>The text of a request head\<close>

definition request_text ::
  "byte_string \<Rightarrow> byte_string \<Rightarrow> byte_string \<Rightarrow> 16 word \<Rightarrow> 16 word \<Rightarrow> dict \<Rightarrow> byte_string" where
  "request_text meth res query ver sub hs =
     request_line meth res query (dec_string (unat ver)) (dec_string (unat sub)) @ header_lines hs @ [CR, LF]"

definition content_length_ok :: "sl_utils \<Rightarrow> dict \<Rightarrow> bool" where
  "content_length_ok E hs =
     (case dict_find E hs HEADER_CONTENT_LENGTH of None \<Rightarrow> True | Some kv \<Rightarrow> parse_uint64 E (snd kv) \<noteq> None)"

definition form_type :: "sl_utils \<Rightarrow> dict \<Rightarrow> bool" where
  "form_type E hs \<longleftrightarrow>
     is_prefix_of CONTENT_TYPE_URLENCODED (get_value E hs HEADER_CONTENT_TYPE)
     \<or> is_prefix_of CONTENT_TYPE_MULTIPART_FORM_DATA (get_value E hs HEADER_CONTENT_TYPE)"

lemma head_parsed:
  assumes "line_ok meth res query" and "list_all header_ok hs" and "ver \<noteq> 0"
    and "hp_headers_state p = PARSE_METHOD_START" "hp_query_string p = []" "no_raw p"
    and "m_first_line m = []" "m_headers m = []"
  shows "\<exists>p1. parse_headers (set_read_buffer (request_text meth res query ver sub hs @ body) p) m None
        = (TTrue, None, p1, m\<lparr>m_version_major := ver, m_version_minor := sub, m_headers := hs\<rparr>)
      \<and> hp_read p1 = body \<and> hp_method p1 = meth \<and> hp_resource p1 = res \<and> hp_query_string p1 = query
      \<and> head_frame p p1"
proof -
  let ?p = "(set_read_buffer (request_text meth res query ver sub hs @ body) p)\<lparr>hp_bytes_last_read := 0\<rparr>"
  have "run_headers ?p m (request_text meth res query ver sub hs @ body)
       = R_done body
           ((last_header hs (?p\<lparr>hp_method := meth, hp_resource := res, hp_query_string := query\<rparr>))
              \<lparr>hp_headers_state := PARSE_EXPECTING_FINAL_NEWLINE\<rparr>)
           (m\<lparr>m_version_major := ver, m_version_minor := sub, m_headers := hs\<rparr>)"
    using run_request_head [OF assms(1-3), of ?p m sub body] assms(4-8)
    by (simp add: request_text_def set_read_buffer_def)
  then show ?thesis
    by (simp add: parse_headers_def set_read_buffer_def parse_headers_loop_run finish_read_def
        last_header_def head_frame_def)
qed

section \<open>From the head to the decision on the body\<close>

lemma parse_from_start:
  assumes "hp_message_state p = PARSE_START" and "\<not> m_has_missing_packets m"
    and "parse_headers (p\<lparr>hp_message_state := PARSE_HEADERS\<rparr>) m ec = (TTrue, ec1, p1, m1)"
    and "finish_header_parsing E hook w p1 m1 ec1 = (w', Inr (TTrue, ec2, p2, m2))"
  shows "parse E hook w p m ec = (w', parse_end E (TTrue, hp_bytes_last_read p1, ec2, p2, m2))"
proof -
  have "hp_message_state p1 = PARSE_HEADERS"
    using parse_headers_keeps(1) [OF assms(3)] by (simp add: head_frame_def)
  with assms have "parse_pass E hook w p m ec = (w', Inr (TTrue, hp_bytes_last_read p1, ec2, p2, m2))"
    by (simp add: parse_pass_def headers_pass_def Let_def)
  then have "parse_loop E hook w 0 p m ec = (w', Inr (TTrue, hp_bytes_last_read p1, ec2, p2, m2))"
    by (subst parse_loop.simps) simp
  then show ?thesis using assms(2) by (simp add: parse_def)
qed

lemma parse_from_start_throws:
  assumes "hp_message_state p = PARSE_START" and "\<not> m_has_missing_packets m"
    and "parse_headers (p\<lparr>hp_message_state := PARSE_HEADERS\<rparr>) m ec = (TTrue, ec1, p1, m1)"
    and "finish_header_parsing E hook w p1 m1 ec1 = (w', Inl e)"
  shows "parse E hook w p m ec = (w', Inl e)"
proof -
  have "hp_message_state p1 = PARSE_HEADERS"
    using parse_headers_keeps(1) [OF assms(3)] by (simp add: head_frame_def)
  with assms have "parse_pass E hook w p m ec = (w', Inl e)"
    by (simp add: parse_pass_def headers_pass_def Let_def)
  then have "parse_loop E hook w 0 p m ec = (w', Inl e)"
    by (subst parse_loop.simps) simp
  then show ?thesis using assms(2) by (simp add: parse_def)
qed

text \<open>What \<open>body_decision\<close> leaves as it was: all of the message but length and buffer.\<close>

definition but_content :: "http_request \<Rightarrow> http_request" where
  "but_content m = m\<lparr>m_content_length := 0, m_content_buf := resize 0\<rparr>"

lemma body_decision_keeps:
  assumes "body_decision E p m = Some (rc, p2, m2)"
  shows "rc \<noteq> TFalse" "hp_read p2 = hp_read p" "hp_payload_handler p2 = hp_payload_handler p"
    "hp_parse_headers_only p2 = hp_parse_headers_only p" "but_content m2 = but_content m"
    "hp_payload_log p2 = hp_payload_log p"
  using assms
  by (auto simp: body_decision_def Let_def create_content_buffer_def but_content_def split: if_splits option.splits
      dest!: update_length_keeps)

lemma but_content_fields:
  assumes "but_content m2 = but_content m"
  shows "m_headers m2 = m_headers m" "rq_method m2 = rq_method m" "rq_resource m2 = rq_resource m"
    "rq_query_string m2 = rq_query_string m" "m_version_major m2 = m_version_major m"
    "m_version_minor m2 = m_version_minor m" "m_has_missing_packets m2 = m_has_missing_packets m"
    "rq_query_params m2 = rq_query_params m" "m_cookie_params m2 = m_cookie_params m"
    "rq_request_reader m2 = rq_request_reader m"
  using arg_cong [OF assms, of m_headers] arg_cong [OF assms, of rq_method] arg_cong [OF assms, of rq_resource]
    arg_cong [OF assms, of rq_query_string] arg_cong [OF assms, of m_version_major] arg_cong [OF assms, of m_version_minor]
    arg_cong [OF assms, of m_has_missing_packets] arg_cong [OF assms, of rq_query_params] arg_cong [OF assms, of m_cookie_params]
    arg_cong [OF assms, of rq_request_reader]
  by (simp_all add: but_content_def)

lemma body_decision_defined:
  assumes "content_length_ok E (m_headers m)"
  obtains rc p2 m2 where "body_decision E p m = Some (rc, p2, m2)"
proof -
  have "update_content_length_using_header E m \<noteq> None"
    using assms by (auto simp: update_content_length_using_header_def content_length_ok_def Let_def split: option.splits)
  then have "body_decision E p m \<noteq> None"
    by (simp add: body_decision_def del: not_None_eq split: option.split)
  then show thesis using that by (metis not_None_eq surj_pair)
qed

text \<open>The message the hook gets, and the message after \<open>finish\<close>.\<close>

definition headed_message ::
  "sl_utils \<Rightarrow> byte_string \<Rightarrow> byte_string \<Rightarrow> byte_string \<Rightarrow> 16 word \<Rightarrow> 16 word \<Rightarrow> dict \<Rightarrow> http_request \<Rightarrow> bool" where
  "headed_message E meth res query ver sub hs m \<longleftrightarrow>
     rq_method m = meth \<and> rq_resource m = res \<and> rq_query_string m = query
     \<and> m_version_major m = ver \<and> m_version_minor m = sub \<and> m_headers m = hs
     \<and> rq_query_params m = (if query = [] then [] else snd (parse_url_encoded E [] query))
     \<and> m_cookie_params m = parse_cookies E (equal_range E hs HEADER_COOKIE) []"

lemma headed_update:
  assumes "m_headers m = hs" "m_version_major m = ver" "m_version_minor m = sub"
    "rq_query_params m = []" "m_cookie_params m = []"
    and "hp_method p = meth" "hp_resource p = res" "hp_query_string p = query"
  shows "headed_message E meth res query ver sub hs
     (update_message_with_header_data E p (update_transfer_encoding_using_header E (m\<lparr>m_content_length := 0\<rparr>)))"
  using assms
  by (simp add: headed_message_def update_message_with_header_data_def update_transfer_encoding_using_header_def
      set_query_string_def set_resource_def set_method_def clear_first_line_def Let_def split: option.split)

lemma headed_but_content:
  assumes "but_content m2 = but_content m"
  shows "headed_message E meth res query ver sub hs m2 = headed_message E meth res query ver sub hs m"
  unfolding headed_message_def but_content_fields [OF assms] ..

text \<open>A reply to \<open>Expect: 100-continue\<close>, if any.\<close>

definition continue_sent :: "sl_utils \<Rightarrow> dict \<Rightarrow> tcp_connection \<Rightarrow> tcp_connection" where
  "continue_sent E hs c =
     (if iequals E ''100-continue'' (get_value E hs ''Expect'')
      then async_write [RESPONSE_FULLMESSAGE_100_CONTINUE] c else c)"

lemma hook_cases:
  assumes "rc \<noteq> TFalse"
  shows "handle_request_after_headers_parsed E s c None rc m =
     (continue_sent E (m_headers m) c,
      case choose_payloads (rq_method m) s of
        Inl e \<Rightarrow> Inl e
      | Inr payloads \<Rightarrow>
          (case find_submatch payloads (strip_trailing_slash (rq_resource m)) of
             Some (_, creator) \<Rightarrow>
               (case creator m of
                  Inl e \<Rightarrow> Inl (Pion_exception e)
                | Inr ha \<Rightarrow> (case request_set_payload_handler ha m of (m1, i) \<Rightarrow> Inr (rc, m1, i)))
           | None \<Rightarrow> Inr (TTrue, m, None)))"
  using assms
  by (auto simp: handle_request_after_headers_parsed_def continue_sent_def get_header_def Let_def
      split: sum.split option.split prod.split)

lemma finish_plain:
  assumes "hp_message_state p = PARSE_END" and "\<not> form_type E (m_headers m)"
  shows "finish E p m = Inr (compute_msg_status (m\<lparr>m_is_valid := True\<rparr>) True)"
  using assms
  by (simp add: finish_def finish_state_def parse_form_content_def get_header_def form_type_def
      compute_msg_status_def Let_def)

section \<open>The head is read\<close>

lemma new_reader_simps:
  "hp_message_state (rd_parser (new_http_request_reader g1 g2 g3 t c)) = PARSE_START"
  "hp_headers_state (rd_parser (new_http_request_reader g1 g2 g3 t c)) = PARSE_METHOD_START"
  "hp_query_string (rd_parser (new_http_request_reader g1 g2 g3 t c)) = []"
  "hp_payload_handler (rd_parser (new_http_request_reader g1 g2 g3 t c)) = None"
  "hp_payload_log (rd_parser (new_http_request_reader g1 g2 g3 t c)) = []"
  "\<not> hp_parse_headers_only (rd_parser (new_http_request_reader g1 g2 g3 t c))"
  "no_raw (rd_parser (new_http_request_reader g1 g2 g3 t c))"
  "m_first_line (rd_request (new_http_request_reader g1 g2 g3 t c)) = []"
  "m_headers (rd_request (new_http_request_reader g1 g2 g3 t c)) = []"
  "\<not> m_has_missing_packets (rd_request (new_http_request_reader g1 g2 g3 t c))"
  "rq_query_params (rd_request (new_http_request_reader g1 g2 g3 t c)) = []"
  "m_cookie_params (rd_request (new_http_request_reader g1 g2 g3 t c)) = []"
  "rq_request_reader (rd_request (new_http_request_reader g1 g2 g3 t c))"
  by (simp_all add: new_http_request_reader_def new_http_parser_def set_request_reader_def set_remote_ip_def
      new_http_request_def new_http_message_def http_message.defs)

lemma read_buffer_state:
  "(set_read_buffer bs p)\<lparr>hp_message_state := st\<rparr> = set_read_buffer bs (p\<lparr>hp_message_state := st\<rparr>)"
  by (simp add: set_read_buffer_def)

text \<open>The decision \<open>finish_header_parsing\<close> comes to before it calls the hook.\<close>

definition head_decision :: "sl_utils \<Rightarrow> http_parser \<Rightarrow> http_request \<Rightarrow> (tribool \<times> http_parser \<times> http_request) option" where
  "head_decision E p m =
     (let p1 = p\<lparr>hp_bytes_content_remaining := 0, hp_bytes_content_read := 0\<rparr>
      in body_decision E p1 (update_message_with_header_data E p1
           (update_transfer_encoding_using_header E (m\<lparr>m_content_length := 0\<rparr>))))"

lemma finish_header_decided:
  assumes "head_decision E p m = Some (rc, p2, m2)"
  shows "finish_header_parsing E hook w p m ec =
     (case hook w ec rc m2 of
        (w', Inl e) \<Rightarrow> (w', Inl e)
      | (w', Inr (rc', m3, ph)) \<Rightarrow>
          (w', Inr (rc', ec, (case ph of None \<Rightarrow> p2 | Some h \<Rightarrow> set_payload_handler h p2), m3)))"
  using assms by (simp add: head_decision_def finish_header_parsing_def Let_def)

text \<open>
  A new reader that gets a request head and the bytes after it comes to the hook with the
  message the text describes and the bytes after the head in its buffer.
\<close>

lemma reader_at_hook:
  assumes "line_ok meth res query" and "list_all header_ok hs" and "ver \<noteq> 0" and "content_length_ok E hs"
    and "r = new_http_request_reader g1 g2 g3 t c0"
    and "p = set_read_buffer (request_text meth res query ver sub hs @ body) (rd_parser r)"
  shows "\<exists>p1 m1 p2 rc m2. parse_headers (p\<lparr>hp_message_state := PARSE_HEADERS\<rparr>) (rd_request r) None = (TTrue, None, p1, m1)
    \<and> head_decision E p1 m1 = Some (rc, p2, m2) \<and> rc \<noteq> TFalse \<and> hp_read p2 = body
    \<and> headed_message E meth res query ver sub hs m2 \<and> rq_request_reader m2
    \<and> hp_payload_handler p2 = None \<and> hp_payload_log p2 = [] \<and> m_headers m1 = hs
    \<and> \<not> hp_parse_headers_only p1 \<and> \<not> m_has_missing_packets m2"
proof -
  let ?p = "(rd_parser r)\<lparr>hp_message_state := PARSE_HEADERS\<rparr>"
  let ?m = "(rd_request r)\<lparr>m_version_major := ver, m_version_minor := sub, m_headers := hs\<rparr>"
  obtain p1 where p1: "parse_headers (set_read_buffer (request_text meth res query ver sub hs @ body) ?p) (rd_request r) None
        = (TTrue, None, p1, ?m)"
    "hp_read p1 = body" "hp_method p1 = meth" "hp_resource p1 = res" "hp_query_string p1 = query" "head_frame ?p p1"
    using head_parsed [OF assms(1-3), of ?p "rd_request r" sub body] by (auto simp: new_reader_simps assms(5))
  let ?q = "p1\<lparr>hp_bytes_content_remaining := 0, hp_bytes_content_read := 0\<rparr>"
  let ?m1 = "update_message_with_header_data E ?q
      (update_transfer_encoding_using_header E (?m\<lparr>m_content_length := 0\<rparr>))"
  have h1: "headed_message E meth res query ver sub hs ?m1"
    by (rule headed_update) (simp_all add: p1 new_reader_simps assms(5))
  then have "content_length_ok E (m_headers ?m1)" using assms(4) by (simp add: headed_message_def)
  then obtain rc p2 m2 where d: "body_decision E ?q ?m1 = Some (rc, p2, m2)" by (rule body_decision_defined)
  note k = body_decision_keeps [OF d]
  have "rq_request_reader ?m1" "\<not> m_has_missing_packets ?m1"
    by (simp_all add: update_message_with_header_data_def update_transfer_encoding_using_header_def new_reader_simps assms(5)
      set_query_string_def set_resource_def set_method_def clear_first_line_def Let_def split: option.split)
  then have "rq_request_reader m2" "\<not> m_has_missing_packets m2" using but_content_fields(7,10) [OF k(5)] by simp_all
  moreover have "headed_message E meth res query ver sub hs m2" using h1 headed_but_content [OF k(5)] by simp
  moreover have "parse_headers (p\<lparr>hp_message_state := PARSE_HEADERS\<rparr>) (rd_request r) None = (TTrue, None, p1, ?m)"
    using p1(1) by (simp only: assms(6) read_buffer_state)
  moreover have "head_decision E p1 ?m = Some (rc, p2, m2)" using d by (simp add: head_decision_def)
  moreover have "hp_payload_handler p2 = None" "hp_payload_log p2 = []" "\<not> hp_parse_headers_only p1" "m_headers ?m = hs"
    using p1(6) k by (simp_all add: head_frame_def assms(5) new_reader_simps)
  ultimately show ?thesis using k p1(2) by auto
qed

section \<open>Properties\<close>

lemma parse_end_plain:
  assumes "\<not> form_type E (m_headers m)"
  shows "parse_end E (TTrue, n, ec, p, m)
     = Inr (TTrue, ec, p\<lparr>hp_message_state := PARSE_END, hp_bytes_last_read := n\<rparr>,
            compute_msg_status (m\<lparr>m_is_valid := True\<rparr>) True)"
  using finish_plain [of "p\<lparr>hp_message_state := PARSE_END\<rparr>" E m] assms
  by (simp add: parse_end_def Let_def)

lemma headed_status:
  "headed_message E meth res query ver sub hs (compute_msg_status (m\<lparr>m_is_valid := True\<rparr>) True)
     = headed_message E meth res query ver sub hs m"
  "m_is_valid (compute_msg_status (m\<lparr>m_is_valid := True\<rparr>) True)"
  by (simp_all add: headed_message_def compute_msg_status_def)

text \<open>
  A reader with a well-formed head at the front of its buffer hands the request over; the bytes
  after the head stay. The events on the way are added to those of the connection, \<open>finish\<close> is
  not among them.
\<close>

lemma served_bytes:
  fixes s :: "'ws http_server"
  assumes "line_ok meth res query" and "list_all header_ok hs" and "ver \<noteq> 0" and "content_length_ok E hs"
    and "\<not> form_type E hs"
    and "choose_payloads meth s = Inr payloads" and "find_submatch payloads (strip_trailing_slash res) = None"
    and "r = new_http_request_reader g1 g2 g3 t c0"
  shows "\<exists>m c' evs. consume_bytes E rf nf s
          (r\<lparr>rd_parser := set_read_buffer (request_text meth res query ver sub hs @ body) (rd_parser r)\<rparr>) c
        = Completed (handle_request E rf nf s m c' EC_none)
      \<and> m_is_valid m \<and> headed_message E meth res query ver sub hs m
      \<and> sent_bytes c' = sent_bytes c
          @ (if iequals E ''100-continue'' (get_value E hs ''Expect'') then RESPONSE_FULLMESSAGE_100_CONTINUE else [])
      \<and> get_keep_alive c' = check_keep_alive E m
      \<and> (is_pipelined c' \<longleftrightarrow> check_keep_alive E m \<and> body \<noteq> [])
      \<and> (is_pipelined c' \<longrightarrow> load_read_pos c' = body)
      \<and> is_open c' = is_open c \<and> tc_events c' = tc_events c @ evs \<and> Finished \<notin> set evs"
proof -
  let ?loaded = "set_read_buffer (request_text meth res query ver sub hs @ body) (rd_parser r)"
  obtain p1 m1 p2 rc m2 where
    head: "parse_headers (?loaded\<lparr>hp_message_state := PARSE_HEADERS\<rparr>) (rd_request r) None = (TTrue, None, p1, m1)"
    and dec: "head_decision E p1 m1 = Some (rc, p2, m2)"
    and rc: "rc \<noteq> TFalse" and p2: "hp_read p2 = body" and m2: "headed_message E meth res query ver sub hs m2"
    using reader_at_hook [OF assms(1-4,8) refl, of sub body] by blast
  let ?c = "continue_sent E hs c"
  have m2': "m_headers m2 = hs" "rq_method m2 = meth" "rq_resource m2 = res" using m2 by (simp_all add: headed_message_def)
  have "finish_header_parsing E (handle_request_after_headers_parsed E s) c p1 m1 None = (?c, Inr (TTrue, None, p2, m2))"
    using assms(6,7) by (simp add: finish_header_decided [OF dec] hook_cases [OF rc] m2')
  then have parse: "parse E (handle_request_after_headers_parsed E s) c ?loaded (rd_request r) None
      = (?c, parse_end E (TTrue, hp_bytes_last_read p1, None, p2, m2))"
    by (intro parse_from_start [OF _ _ head]) (simp_all add: assms(8) new_reader_simps set_read_buffer_def)
  let ?m = "compute_msg_status (m2\<lparr>m_is_valid := True\<rparr>) True"
  let ?p = "p2\<lparr>hp_message_state := PARSE_END, hp_bytes_last_read := hp_bytes_last_read p1\<rparr>"
  let ?c' = "keep_connection E ?p ?m ?c"
  have "consume_bytes E rf nf s (r\<lparr>rd_parser := ?loaded\<rparr>) c = Completed (handle_request E rf nf s ?m ?c' EC_none)"
    using parse assms(5)
    by (simp add: consume_bytes_def parse_end_plain m2' Let_def finished_reading_def of_error_code_def)
  moreover have "sent_bytes ?c' = sent_bytes c
          @ (if iequals E ''100-continue'' (get_value E hs ''Expect'') then RESPONSE_FULLMESSAGE_100_CONTINUE else [])"
    by (simp add: keep_connection_def continue_sent_def sent_bytes_def conn_defs)
  moreover have "get_keep_alive ?c' = check_keep_alive E ?m"
    "is_pipelined ?c' \<longleftrightarrow> check_keep_alive E ?m \<and> body \<noteq> []" "is_pipelined ?c' \<longrightarrow> load_read_pos ?c' = body"
    "is_open ?c' = is_open c"
    "tc_events ?c' = tc_events c @ (if iequals E ''100-continue'' (get_value E hs ''Expect'')
       then [Async_write RESPONSE_FULLMESSAGE_100_CONTINUE] else [])"
    using p2 by (simp_all add: keep_connection_def continue_sent_def conn_defs eof_def)
  moreover have "Finished \<notin> set (if b then [Async_write bs] else [])" for b bs by simp
  ultimately show ?thesis using m2 headed_status by blast
qed

lemma served_request:
  fixes s :: "'ws http_server"
  assumes "line_ok meth res query" and "list_all header_ok hs" and "ver \<noteq> 0" and "content_length_ok E hs"
    and "\<not> form_type E hs"
    and "choose_payloads meth s = Inr payloads" and "find_submatch payloads (strip_trailing_slash res) = None"
    and "r = new_http_request_reader g1 g2 g3 t c0"
  shows "\<exists>m c' evs. on_read E rf nf s r c (Read_ok (request_text meth res query ver sub hs @ body))
        = Completed (handle_request E rf nf s m c' EC_none)
      \<and> m_is_valid m \<and> headed_message E meth res query ver sub hs m
      \<and> sent_bytes c' = sent_bytes c
          @ (if iequals E ''100-continue'' (get_value E hs ''Expect'') then RESPONSE_FULLMESSAGE_100_CONTINUE else [])
      \<and> get_keep_alive c' = check_keep_alive E m
      \<and> (is_pipelined c' \<longleftrightarrow> check_keep_alive E m \<and> body \<noteq> [])
      \<and> (is_pipelined c' \<longrightarrow> load_read_pos c' = body)
      \<and> is_open c' = is_open c \<and> tc_events c' = tc_events c @ evs \<and> Finished \<notin> set evs"
proof -
  have timer: "sent_bytes (cancel_timer c) = sent_bytes c" "is_open (cancel_timer c) = is_open c"
    "tc_events (cancel_timer c) @ evs = tc_events c @ Cancel_timer # evs" for evs
    by (simp_all add: sent_bytes_def conn_defs)
  have fin: "Finished \<notin> set evs \<Longrightarrow> Finished \<notin> set (Cancel_timer # evs)" for evs by simp
  show ?thesis
    using served_bytes [OF assms, of rf nf sub body "cancel_timer c"] fin
    unfolding on_read_def read_result.case timer by blast
qed

text \<open>
  C25: a request without payload handler is served as soon as its head is read. When a new
  reader gets the text of a well-formed head, followed by any bytes, for a method with a table
  and a path without payload handler, it completes at once: the server's \<open>handle_request\<close> gets
  a valid request with the method, resource, query string, version, headers, query parameters
  and cookies of the text. The bytes after the head, a body announced by the head included, are
  not consumed: they stay in the buffer, and on a connection that is kept alive they are taken
  for the next request.
\<close>

theorem request_served:
  fixes s :: "'ws http_server"
  assumes "line_ok meth res query" and "list_all header_ok hs" and "ver \<noteq> 0" and "content_length_ok E hs"
    and "\<not> form_type E hs"
    and "choose_payloads meth s = Inr payloads" and "find_submatch payloads (strip_trailing_slash res) = None"
    and "r = new_http_request_reader g1 g2 g3 t c0"
  shows "\<exists>m c'. on_read E rf nf s r c (Read_ok (request_text meth res query ver sub hs @ body))
        = Completed (handle_request E rf nf s m c' EC_none)
      \<and> m_is_valid m \<and> headed_message E meth res query ver sub hs m
      \<and> sent_bytes c' = sent_bytes c
          @ (if iequals E ''100-continue'' (get_value E hs ''Expect'') then RESPONSE_FULLMESSAGE_100_CONTINUE else [])
      \<and> get_keep_alive c' = check_keep_alive E m
      \<and> (is_pipelined c' \<longleftrightarrow> check_keep_alive E m \<and> body \<noteq> [])
      \<and> (is_pipelined c' \<longrightarrow> load_read_pos c' = body)"
  using served_request [OF assms, of rf nf c sub body] by blast

lemma sample_head_ok:
  "line_ok ''POST'' ''/x'' []" "list_all header_ok [(''Content-Length'', ''3'')]"
  by (simp_all add: line_ok_def token_text_def not_token_def is_char_def is_control_def is_special_def char_value_def
      no_control_def METHOD_MAX_def RESOURCE_MAX_def QUERY_STRING_MAX_def header_ok_def header_text_def
      HEADER_NAME_MAX_def HEADER_VALUE_MAX_def)

lemma sample_head_values:
  "content_length_ok utils_ref [(''Content-Length'', ''3'')]" "\<not> form_type utils_ref [(''Content-Length'', ''3'')]"
  "get_value utils_ref [(''Content-Length'', ''3'')] HEADER_CONNECTION = []"
  by (simp_all add: content_length_ok_def form_type_def get_value_def dict_find_def equal_range_def iequal_to_def
      header_name_consts HEADER_CONTENT_TYPE_def iequals_ref_def upper_string_def toupper_def char_value_def STRING_EMPTY_def
      parse_uint_ref_def dec_value_def digit_of_def is_digit_def CONTENT_TYPE_URLENCODED_def CONTENT_TYPE_MULTIPART_FORM_DATA_def)

theorem request_served_witness:
  "\<exists>m c'. on_read utils_ref () () sample_server (new_http_request_reader 0 0 False 1000 sample_conn) sample_conn
        (Read_ok (request_text ''POST'' ''/x'' [] 1 1 [(''Content-Length'', ''3'')] @ ''GET''))
      = Completed (handle_request utils_ref () () sample_server m c' EC_none)
    \<and> m_is_valid m \<and> rq_method m = ''POST'' \<and> is_pipelined c' \<and> load_read_pos c' = ''GET''"
proof -
  have "choose_payloads ''POST'' sample_server = Inr Map.empty"
    by (simp add: choose_payloads_def choose_map_by_method_def sample_server_def new_http_server_def method_names)
  moreover have "find_submatch Map.empty (strip_trailing_slash ''/x'') = None" by (simp add: find_submatch_None)
  ultimately obtain m c' where mc:
    "on_read utils_ref () () sample_server (new_http_request_reader 0 0 False 1000 sample_conn) sample_conn
        (Read_ok (request_text ''POST'' ''/x'' [] 1 1 [(''Content-Length'', ''3'')] @ ''GET''))
      = Completed (handle_request utils_ref () () sample_server m c' EC_none)"
    "m_is_valid m" "headed_message utils_ref ''POST'' ''/x'' [] 1 1 [(''Content-Length'', ''3'')] m"
    "is_pipelined c' \<longleftrightarrow> check_keep_alive utils_ref m \<and> ''GET'' \<noteq> []" "is_pipelined c' \<longrightarrow> load_read_pos c' = ''GET''"
    using request_served [OF sample_head_ok _ sample_head_values(1,2) _ _ refl,
        of 1 sample_server Map.empty "()" "()" 0 0 False 1000 sample_conn sample_conn 1 "''GET''"] by auto
  moreover have "check_keep_alive utils_ref m"
    using mc(3) by (simp add: check_keep_alive_def headed_message_def get_header_def sample_head_values)
  ultimately show ?thesis by (auto simp: headed_message_def)
qed

text \<open>
  C35: a request whose method is none of the six the server knows is never answered. As soon as
  its head is read, an exception leaves the reader: nothing but a reply to \<open>Expect\<close> has been
  written, no further read is started, and the connection is not finished.
\<close>

theorem unknown_method_unanswered:
  fixes s :: "'ws http_server"
  assumes "line_ok meth res query" and "list_all header_ok hs" and "ver \<noteq> 0" and "content_length_ok E hs"
    and "meth \<notin> {REQUEST_METHOD_GET, REQUEST_METHOD_HEAD, REQUEST_METHOD_POST, REQUEST_METHOD_PUT,
           REQUEST_METHOD_DELETE, REQUEST_METHOD_OPTIONS}"
    and "r = new_http_request_reader g1 g2 g3 t c0"
  shows "\<exists>c'. on_read E rf nf s r c (Read_ok (request_text meth res query ver sub hs @ body))
        = Reader_threw (invalid_method meth) c'
      \<and> tc_events c' = tc_events c @ Cancel_timer #
          (if iequals E ''100-continue'' (get_value E hs ''Expect'')
           then [Async_write RESPONSE_FULLMESSAGE_100_CONTINUE] else [])"
proof -
  let ?p0 = "set_read_buffer (request_text meth res query ver sub hs @ body) (rd_parser r)"
  obtain p1 m1 p2 rc m2 where
    head: "parse_headers (?p0\<lparr>hp_message_state := PARSE_HEADERS\<rparr>) (rd_request r) None = (TTrue, None, p1, m1)"
    and dec: "head_decision E p1 m1 = Some (rc, p2, m2)"
    and rc: "rc \<noteq> TFalse" and m2: "headed_message E meth res query ver sub hs m2"
    using reader_at_hook [OF assms(1-4,6) refl, of sub body] by blast
  let ?c = "continue_sent E hs (cancel_timer c)"
  have "m_headers m2 = hs" "rq_method m2 = meth" using m2 by (simp_all add: headed_message_def)
  moreover have "choose_payloads meth s = Inl (invalid_method meth)"
    using assms(5) by (simp add: choose_payloads_def choose_map_by_method_def)
  ultimately have "finish_header_parsing E (handle_request_after_headers_parsed E s) (cancel_timer c) p1 m1 None
      = (?c, Inl (invalid_method meth))"
    by (simp add: finish_header_decided [OF dec] hook_cases [OF rc])
  then have "parse E (handle_request_after_headers_parsed E s) (cancel_timer c) ?p0 (rd_request r) None
      = (?c, Inl (invalid_method meth))"
    by (intro parse_from_start_throws [OF _ _ head]) (simp_all add: assms(6) new_reader_simps set_read_buffer_def)
  moreover have "tc_events ?c = tc_events c @ Cancel_timer #
          (if iequals E ''100-continue'' (get_value E hs ''Expect'')
           then [Async_write RESPONSE_FULLMESSAGE_100_CONTINUE] else [])"
    by (simp add: continue_sent_def conn_defs)
  ultimately show ?thesis by (simp add: on_read_def consume_bytes_def)
qed

theorem unknown_method_unanswered_witness:
  "\<exists>c'. on_read utils_ref () () sample_server (new_http_request_reader 0 0 False 1000 sample_conn) sample_conn
        (Read_ok (request_text ''PATCH'' ''/x'' [] 1 1 [] @ []))
      = Reader_threw (invalid_method ''PATCH'') c' \<and> sent_bytes c' = []"
proof -
  have ok: "line_ok ''PATCH'' ''/x'' []" "list_all header_ok []"
    by (simp_all add: line_ok_def token_text_def not_token_def is_char_def is_control_def is_special_def char_value_def
      no_control_def METHOD_MAX_def RESOURCE_MAX_def QUERY_STRING_MAX_def)
  have len: "content_length_ok utils_ref []" "\<not> iequals utils_ref ''100-continue'' (get_value utils_ref [] ''Expect'')"
    by (simp_all add: content_length_ok_def get_value_def dict_find_def equal_range_def iequals_ref_def upper_string_def
        STRING_EMPTY_def)
  have ev: "tc_events sample_conn = []" by (simp add: sample_conn_def new_tcp_connection_def save_read_pos_def)
  have meth: "''PATCH'' \<notin> {REQUEST_METHOD_GET, REQUEST_METHOD_HEAD, REQUEST_METHOD_POST, REQUEST_METHOD_PUT,
           REQUEST_METHOD_DELETE, REQUEST_METHOD_OPTIONS}" by (simp add: method_names)
  show ?thesis
    using unknown_method_unanswered [OF ok _ len(1) meth refl, of 1 "()" "()" sample_server 0 0 False 1000 sample_conn sample_conn 1 "[]"] len(2) ev
    by (auto simp: sent_bytes_def)
qed

section \<open>A head with a body for a payload handler\<close>

text \<open>The decision for a request with a \<open>Content-Length\<close> and no transfer encoding.\<close>

lemma head_decision_content:
  assumes "dict_find E (m_headers m) HEADER_TRANSFER_ENCODING = None"
    and "dict_find E (m_headers m) HEADER_CONTENT_LENGTH = Some kv" "parse_uint64 E (snd kv) = Some len" "len \<noteq> 0"
    and "\<not> hp_parse_headers_only p" and "head_decision E p m = Some (rc, p2, m2)"
  shows "rc = Indeterminate \<and> hp_message_state p2 = PARSE_CONTENT \<and> hp_bytes_content_remaining p2 = unat len"
proof -
  let ?p = "p\<lparr>hp_bytes_content_remaining := 0, hp_bytes_content_read := 0\<rparr>"
  let ?m = "update_message_with_header_data E ?p (update_transfer_encoding_using_header E (m\<lparr>m_content_length := 0\<rparr>))"
  have m: "m_headers ?m = m_headers m" "\<not> m_is_chunked ?m"
    using assms(1) by (simp_all add: update_message_with_header_data_def update_transfer_encoding_using_header_def
      set_query_string_def set_resource_def set_method_def clear_first_line_def Let_def)
  have "unat len \<noteq> 0" using assms(4) by (simp add: unat_eq_zero)
  then show ?thesis
    using assms(2-6) m
    by (auto simp: head_decision_def body_decision_def request_is_content_length_implied_def has_header_def
        update_content_length_using_header_def Let_def split: if_splits)
qed

text \<open>The head of a request with a body for a payload handler: the parser is left before the body.\<close>

lemma payload_head:
  fixes s :: "'ws http_server"
  assumes "line_ok meth res query" and "list_all header_ok hs" and "ver \<noteq> 0"
    and "dict_find E hs HEADER_TRANSFER_ENCODING = None"
    and "dict_find E hs HEADER_CONTENT_LENGTH = Some kv" "parse_uint64 E (snd kv) = Some len" "len \<noteq> 0"
    and "choose_payloads meth s = Inr payloads"
    and "find_submatch payloads (strip_trailing_slash res) = Some (q, creator)" and "\<forall>m. creator m = Inr h"
    and "r = new_http_request_reader g1 g2 g3 t c0"
  obtains p1 m1 p2 m2 where
    "parse_headers ((set_read_buffer (request_text meth res query ver sub hs @ body) (rd_parser r))
        \<lparr>hp_message_state := PARSE_HEADERS\<rparr>) (rd_request r) None = (TTrue, None, p1, m1)"
    "finish_header_parsing E (handle_request_after_headers_parsed E s) c p1 m1 None
       = (continue_sent E hs c, Inr (Indeterminate, None, set_payload_handler h p2, m2))"
    "hp_message_state p2 = PARSE_CONTENT" "hp_bytes_content_remaining p2 = unat len" "hp_read p2 = body" "hp_payload_log p2 = []"
    "headed_message E meth res query ver sub hs m2" "\<not> m_has_missing_packets m2"
proof -
  let ?p0 = "set_read_buffer (request_text meth res query ver sub hs @ body) (rd_parser r)"
  have "content_length_ok E hs" using assms(5,6) by (simp add: content_length_ok_def)
  then obtain p1 m1 p2 rc m2 where
    head: "parse_headers (?p0\<lparr>hp_message_state := PARSE_HEADERS\<rparr>) (rd_request r) None = (TTrue, None, p1, m1)"
    and dec: "head_decision E p1 m1 = Some (rc, p2, m2)" and rc: "rc \<noteq> TFalse" and p2: "hp_read p2 = body" "hp_payload_log p2 = []"
    and m2: "headed_message E meth res query ver sub hs m2" "rq_request_reader m2" "\<not> m_has_missing_packets m2"
    and m1: "m_headers m1 = hs" "\<not> hp_parse_headers_only p1"
    using reader_at_hook [OF assms(1-3) _ assms(11) refl, of E sub body] by blast
  have d: "rc = Indeterminate" "hp_message_state p2 = PARSE_CONTENT" "hp_bytes_content_remaining p2 = unat len"
    using head_decision_content [OF _ _ _ assms(7) m1(2) dec] assms(4-6) m1(1) by auto
  let ?m2 = "m2\<lparr>rq_payload_handler := Some h, rq_request_reader := False\<rparr>"
  have m2': "m_headers m2 = hs" "rq_method m2 = meth" "rq_resource m2 = res" using m2(1) by (simp_all add: headed_message_def)
  have fin: "finish_header_parsing E (handle_request_after_headers_parsed E s) c p1 m1 None
      = (continue_sent E hs c, Inr (Indeterminate, None, set_payload_handler h p2, ?m2))"
    using assms(8-10) d(1) m2(2)
    by (simp add: finish_header_decided [OF dec] hook_cases m2' request_set_payload_handler_def Let_def)
  show thesis
    by (rule that [OF head fin d(2,3) p2]) (use m2 in \<open>simp_all add: headed_message_def\<close>)
qed

lemma sample_content_headers:
  "dict_find utils_ref [(''Content-Length'', ''3'')] HEADER_TRANSFER_ENCODING = None"
  "dict_find utils_ref [(''Content-Length'', ''3'')] HEADER_CONTENT_LENGTH = Some (''Content-Length'', ''3'')"
  "parse_uint64 utils_ref (snd (''Content-Length'', ''3'')) = Some 3"
  by (simp_all add: dict_find_def equal_range_def iequal_to_def header_name_consts iequals_ref_def upper_string_def
      toupper_def char_value_def parse_uint_ref_def dec_value_def digit_of_def is_digit_def)

end
