(* ===== verification/Payload_Delivery.thy ===== *)
theory Payload_Delivery
  imports Request_Service
begin

text \<open>
  A request with a body for a payload handler, from the reads of the connection to the blocks the
  handler gets: whatever the boundaries of the reads, within the head, within the body or with all of
  both in one read, and for both codings of a body.
\<close>

section \<open>The body of a request\<close>

text \<open>
  A body is sent as it is, of as many bytes as \<open>Content-Length\<close> says (none without that header), or in
  chunks. The header decides as \<open>update_transfer_encoding_using_header\<close> does.
\<close>

datatype request_body = Plain_body byte_string | Chunked_body "byte_string list"

fun body_bytes :: "request_body \<Rightarrow> byte_string" where
  "body_bytes (Plain_body b) = b"
| "body_bytes (Chunked_body ds) = concat ds"

fun body_text :: "request_body \<Rightarrow> byte_string" where
  "body_text (Plain_body b) = b"
| "body_text (Chunked_body ds) = chunked_text ds"

definition chunked_head :: "sl_utils \<Rightarrow> dict \<Rightarrow> bool" where
  "chunked_head E hs =
     (case dict_find E hs HEADER_TRANSFER_ENCODING of
        None \<Rightarrow> False
      | Some i \<Rightarrow> search_list ''chunked'' (snd i) \<noteq> None \<or> search_list ''Chunked'' (snd i) \<noteq> None)"

fun announced :: "sl_utils \<Rightarrow> dict \<Rightarrow> request_body \<Rightarrow> bool" where
  "announced E hs (Plain_body b) \<longleftrightarrow>
     \<not> chunked_head E hs
     \<and> (case dict_find E hs HEADER_CONTENT_LENGTH of
          None \<Rightarrow> b = []
        | Some kv \<Rightarrow> map_option unat (parse_uint64 E (snd kv)) = Some (length b))"
| "announced E hs (Chunked_body ds) \<longleftrightarrow> chunked_head E hs \<and> list_all (\<lambda>d. d \<noteq> [] \<and> length d < 2 ^ 63) ds"

section \<open>In the body\<close>

text \<open>
  A parser in the middle of a body: \<open>todo\<close> are the bytes still to come, \<open>body\<close> what its handler, which
  takes every block, will have got at the end.
\<close>

definition in_body :: "byte_string \<Rightarrow> byte_string \<Rightarrow> http_parser \<Rightarrow> http_request \<Rightarrow> bool" where
  "in_body todo body p m \<longleftrightarrow>
     hp_payload_handler p \<noteq> None \<and> quiet p
     \<and> (hp_message_state p = PARSE_CONTENT \<and> hp_bytes_content_remaining p = length todo \<and> todo \<noteq> []
          \<and> concat (hp_payload_log p) @ todo = body
        \<or> hp_message_state p = PARSE_CHUNKS
          \<and> (\<forall>x. \<exists>q ch. run_chunks p (m_chunk_cache m) (todo @ x) = K_done x q ch \<and> concat (hp_payload_log q) = body))"

lemma in_body_cases:
  assumes "in_body todo body p m"
  obtains (content) h where "hp_payload_handler p = Some h" "\<And>seen b. h seen b" "hp_message_state p = PARSE_CONTENT"
      "hp_bytes_content_remaining p = length todo" "todo \<noteq> []" "concat (hp_payload_log p) @ todo = body"
    | (chunks) h where "hp_payload_handler p = Some h" "quiet p" "hp_message_state p = PARSE_CHUNKS"
      "\<And>x. \<exists>q ch. run_chunks p (m_chunk_cache m) (todo @ x) = K_done x q ch \<and> concat (hp_payload_log q) = body"
  using assms by (auto simp: in_body_def quiet_def)

text \<open>A run that ends behind \<open>todo\<close>, broken off before that end, can be taken up again.\<close>

lemma run_chunks_taken_up:
  assumes q: "quiet p" and all: "\<And>x. \<exists>q ch. run_chunks p ch0 ((b @ t) @ x) = K_done x q ch \<and> concat (hp_payload_log q) = body"
    and t: "t \<noteq> []"
  shows "\<exists>a ch1. run_chunks p ch0 b = K_more a ch1
    \<and> (\<forall>x. \<exists>q ch. run_chunks a ch1 (t @ x) = K_done x q ch \<and> concat (hp_payload_log q) = body)"
proof -
  have joint: "\<exists>q ch. map_chunk_run erase (append_chunk_run (t @ x) (run_chunks p ch0 b)) = K_done x q ch
      \<and> hp_payload_log q = [body]" for x
  proof -
    obtain q ch where "run_chunks p ch0 (b @ t @ x) = K_done x q ch" "concat (hp_payload_log q) = body"
      using all [of x] by auto
    with run_chunks_append [OF q, of ch0 b "t @ x"] show ?thesis
      by (intro exI [of _ "erase q"] exI [of _ ch]) (simp add: erase_def)
  qed
  show ?thesis
  proof (cases "run_chunks p ch0 b")
    case (K_more a ch1)
    have "\<exists>q ch. run_chunks a ch1 (t @ x) = K_done x q ch \<and> concat (hp_payload_log q) = body" for x
      using joint [of x] K_more by (cases "run_chunks a ch1 (t @ x)") (auto simp: erase_def)
    with K_more show ?thesis by blast
  qed (use joint [of "[]"] t in auto)
qed

lemma run_chunks_handler: "run_chunks p ch s = K_more a ch1 \<Longrightarrow> chunk_frame p a \<and> hp_message_state a = hp_message_state p"
  "run_chunks p ch s = K_done x a ch1 \<Longrightarrow> chunk_frame p a"
  using run_chunks_keeps [of p ch s] by auto

lemma in_body_recount [simp]: "in_body todo body (recount a b c d p) m = in_body todo body p m"
proof -
  have "run_chunks (recount a b c d p) ch s = K_done x q ch'
      \<longleftrightarrow> (\<exists>q0. run_chunks p ch s = K_done x q0 ch' \<and> q = recount a b c d q0)" for ch s x q ch'
    by (cases "run_chunks p ch s") (auto simp: run_chunks_frame)
  then have "(\<exists>q ch'. run_chunks (recount a b c d p) ch s = K_done x q ch' \<and> concat (hp_payload_log q) = body)
      \<longleftrightarrow> (\<exists>q ch'. run_chunks p ch s = K_done x q ch' \<and> concat (hp_payload_log q) = body)" for ch s x
    by (auto simp: recount_def)
  then show ?thesis unfolding in_body_def quiet_def by (simp add: recount_def)
qed

lemma in_body_counter [simp]: "in_body todo body (p\<lparr>hp_bytes_last_read := n\<rparr>) m = in_body todo body p m"
  using in_body_recount [of todo body "hp_read p" n "hp_bytes_total_read p" "hp_bytes_content_read p" p m]
  by (simp add: recount_def)

text \<open>A part of what is to come leaves the parser in the body, with the rest to come.\<close>

lemma body_more:
  assumes "in_body (b @ t) body p m" and "t \<noteq> []"
  shows "\<exists>n p' ch. parse_loop E hook w k (set_read_buffer b p) m ec = (w, Inr (Indeterminate, n, ec, p', m\<lparr>m_chunk_cache := ch\<rparr>))
    \<and> in_body t body p' (m\<lparr>m_chunk_cache := ch\<rparr>)"
  using assms(1)
proof (cases rule: in_body_cases)
  case (content h)
  let ?p = "p\<lparr>hp_read := [], hp_bytes_content_remaining := length t, hp_bytes_content_read := hp_bytes_content_read p + length b,
      hp_bytes_total_read := hp_bytes_total_read p + length b, hp_bytes_last_read := length b, hp_payload_log := hp_payload_log p @ [b]\<rparr>"
  have "length b < length (b @ t)" using assms(2) by simp
  with content have "parse_loop E hook w k (set_read_buffer b p) m ec = (w, Inr (Indeterminate, k + length b, ec, ?p, m))"
    by (subst parse_loop.simps)
       (simp add: parse_pass_def content_pass_def consume_content_def bytes_available_def set_read_buffer_def Let_def eof_def)
  moreover have "in_body t body ?p m" using content assms(2) by (auto simp: in_body_def quiet_def)
  moreover have "m = m\<lparr>m_chunk_cache := m_chunk_cache m\<rparr>" by simp
  ultimately show ?thesis by (intro exI [of _ "k + length b"] exI [of _ ?p] exI [of _ "m_chunk_cache m"]) simp
next
  case (chunks h)
  obtain a ch where a: "run_chunks p (m_chunk_cache m) b = K_more a ch"
    "\<forall>x. \<exists>q ch'. run_chunks a ch (t @ x) = K_done x q ch' \<and> concat (hp_payload_log q) = body"
    using run_chunks_taken_up [OF chunks(2,4) assms(2)] by blast
  have fr: "hp_payload_handler a = Some h" "quiet a" "hp_message_state a = PARSE_CHUNKS"
    using run_chunks_handler(1) [OF a(1)] chunks(1-3) quiet_frame [of p a] by (simp_all add: chunk_frame_def)
  let ?p = "recount [] (length b) (hp_bytes_total_read p + length b) (hp_bytes_content_read p + length b) a"
  have "hp_message_state (set_read_buffer b p) = PARSE_CHUNKS" using chunks by (simp add: set_read_buffer_def)
  then have "parse_loop E hook w k (set_read_buffer b p) m ec = (w, Inr (Indeterminate, k + length b, ec, ?p, m\<lparr>m_chunk_cache := ch\<rparr>))"
    by (subst parse_loop.simps) (simp add: parse_pass_def chunks_pass_def parse_chunks_run a(1) Let_def eof_def)
  moreover have "in_body t body ?p (m\<lparr>m_chunk_cache := ch\<rparr>)" unfolding in_body_recount using fr a(2) by (simp add: in_body_def)
  ultimately show ?thesis by blast
qed

lemma body_last:
  assumes "in_body todo body p m"
  shows "\<exists>n p' ch. parse_loop E hook w k (set_read_buffer (todo @ x) p) m ec = (w, Inr (TTrue, n, ec, p', m\<lparr>m_chunk_cache := ch\<rparr>))
    \<and> concat (hp_payload_log p') = body \<and> hp_read p' = x \<and> hp_payload_handler p' \<noteq> None"
  using assms
proof (cases rule: in_body_cases)
  case (content h)
  let ?p = "p\<lparr>hp_read := x, hp_bytes_content_remaining := 0, hp_bytes_content_read := hp_bytes_content_read p + length todo,
      hp_bytes_total_read := hp_bytes_total_read p + length todo, hp_bytes_last_read := length todo,
      hp_payload_log := hp_payload_log p @ [todo]\<rparr>"
  from content have "parse_loop E hook w k (set_read_buffer (todo @ x) p) m ec = (w, Inr (TTrue, k + length todo, ec, ?p, m))"
    by (subst parse_loop.simps)
       (simp add: parse_pass_def content_pass_def consume_content_def bytes_available_def set_read_buffer_def Let_def eof_def)
  moreover have "m = m\<lparr>m_chunk_cache := m_chunk_cache m\<rparr>" by simp
  ultimately show ?thesis using content by (intro exI [of _ "k + length todo"] exI [of _ ?p] exI [of _ "m_chunk_cache m"]) simp
next
  case (chunks h)
  obtain q ch where q: "run_chunks p (m_chunk_cache m) (todo @ x) = K_done x q ch" "concat (hp_payload_log q) = body"
    using chunks(4) by blast
  let ?n = "length todo"
  let ?p = "recount x ?n (hp_bytes_total_read p + ?n) (hp_bytes_content_read p + ?n) q"
  have h: "hp_payload_handler ?p = Some h"
    using run_chunks_handler(2) [OF q(1)] chunks(1) by (simp add: chunk_frame_def recount_def)
  have "hp_message_state (set_read_buffer (todo @ x) p) = PARSE_CHUNKS" using chunks by (simp add: set_read_buffer_def)
  then have "parse_loop E hook w k (set_read_buffer (todo @ x) p) m ec = (w, Inr (TTrue, k + ?n, ec, ?p, m\<lparr>m_chunk_cache := ch\<rparr>))"
    using h by (subst parse_loop.simps) (simp add: parse_pass_def chunks_pass_def parse_chunks_run q(1) Let_def)
  moreover have "concat (hp_payload_log ?p) = body" using q(2) by (simp add: recount_def)
  ultimately show ?thesis using h by (intro exI [of _ "k + ?n"] exI [of _ ?p] exI [of _ ch]) simp
qed

section \<open>In the head\<close>

text \<open>
  A parser in the middle of a head: \<open>todo\<close> are the bytes still to come, and at their end the parser is
  \<open>q\<close>, but for its position and counters, and the message \<open>mq\<close>.
\<close>

abbreviation unplaced :: "http_parser \<Rightarrow> http_parser" where
  "unplaced p \<equiv> reposition [] 0 0 p"

definition in_head :: "byte_string \<Rightarrow> http_parser \<Rightarrow> http_request \<Rightarrow> http_parser \<Rightarrow> http_request \<Rightarrow> bool" where
  "in_head todo p m q mq \<longleftrightarrow>
     hp_message_state p \<in> {PARSE_START, PARSE_HEADERS} \<and> \<not> m_has_missing_packets m
     \<and> (\<forall>x. run_headers (unplaced (p\<lparr>hp_message_state := PARSE_HEADERS\<rparr>)) m (todo @ x) = R_done x q mq)"

lemma run_headers_taken_up:
  assumes "\<forall>x. run_headers p m ((b @ t) @ x) = R_done x q mq" and "t \<noteq> []"
  obtains a m1 where "run_headers p m b = R_more a m1" "\<forall>x. run_headers a m1 (t @ x) = R_done x q mq"
  using assms by (cases "run_headers p m b") (auto simp: run_headers_append)

lemma headers_first_pass:
  "hp_message_state p \<in> {PARSE_START, PARSE_HEADERS} \<Longrightarrow>
   parse_pass E hook w (set_read_buffer b p) m ec
     = headers_pass E hook w (set_read_buffer b (p\<lparr>hp_message_state := PARSE_HEADERS\<rparr>)) m ec"
proof -
  assume st: "hp_message_state p \<in> {PARSE_START, PARSE_HEADERS}"
  let ?p = "set_read_buffer b (p\<lparr>hp_message_state := PARSE_HEADERS\<rparr>)"
  have "set_read_buffer b p = ?p" if "hp_message_state p = PARSE_HEADERS"
    using that by (cases p) (simp add: set_read_buffer_def)
  with st show "parse_pass E hook w (set_read_buffer b p) m ec = headers_pass E hook w ?p m ec"
    by (auto simp: parse_pass_def read_buffer_state [symmetric]) (simp_all add: set_read_buffer_def)
qed

lemma head_more:
  assumes "in_head (b @ t) p m q mq" and "t \<noteq> []"
  shows "\<exists>p' m'. parse E hook w (set_read_buffer b p) m None = (w, Inr (Indeterminate, None, p', m')) \<and> in_head t p' m' q mq"
proof -
  let ?p = "p\<lparr>hp_message_state := PARSE_HEADERS\<rparr>"
  obtain a m1 where a: "run_headers (unplaced ?p) m b = R_more a m1" "\<forall>x. run_headers a m1 (t @ x) = R_done x q mq"
    using run_headers_taken_up [of "unplaced ?p"] assms unfolding in_head_def by metis
  obtain a0 where a0: "run_headers ?p m b = R_more a0 m1" "a = unplaced a0"
    using a(1) by (cases "run_headers ?p m b") (auto simp: run_headers_frame)
  let ?p' = "reposition [] (length b) (hp_bytes_total_read p + length b) a0"
  have head: "parse_headers (set_read_buffer b ?p) m None = (Indeterminate, None, ?p', m1)"
    by (simp add: parse_headers_run a0(1))
  note keeps = parse_headers_keeps(1,2) [OF head]
  have "parse_pass E hook w (set_read_buffer b p) m None = (w, Inr (Indeterminate, length b, None, ?p', m1))"
    using assms(1) head by (simp add: in_head_def headers_first_pass headers_pass_def)
  then have "parse E hook w (set_read_buffer b p) m None = (w, Inr (Indeterminate, None, ?p', m1))"
    using assms(1) by (simp add: parse_def parse_loop.simps [of E hook w 0 "set_read_buffer b p"] in_head_def eof_def parse_end_def reposition_def)
  moreover have "hp_message_state ?p' = PARSE_HEADERS" "\<not> m_has_missing_packets m1"
    using keeps assms(1) by (simp_all add: head_frame_def head_message_frame_def set_read_buffer_def in_head_def)
  moreover from this(1) have "unplaced (?p'\<lparr>hp_message_state := PARSE_HEADERS\<rparr>) = a" by (simp add: a0(2) reposition_def)
  ultimately show ?thesis using a(2) by (auto simp: in_head_def)
qed

lemma head_last:
  assumes "in_head todo p m q mq"
  obtains p1 where "parse_headers (set_read_buffer (todo @ y) (p\<lparr>hp_message_state := PARSE_HEADERS\<rparr>)) m None = (TTrue, None, p1, mq)"
    "hp_read p1 = y" "unplaced p1 = q" "hp_message_state p1 = PARSE_HEADERS"
proof -
  let ?p = "p\<lparr>hp_message_state := PARSE_HEADERS\<rparr>"
  obtain q0 where q0: "run_headers ?p m (todo @ y) = R_done y q0 mq" "q = unplaced q0"
    using assms by (cases "run_headers ?p m (todo @ y)") (auto simp: in_head_def run_headers_frame dest!: spec [of _ y])
  let ?p1 = "reposition y (length todo) (hp_bytes_total_read p + length todo) q0"
  have head: "parse_headers (set_read_buffer (todo @ y) ?p) m None = (TTrue, None, ?p1, mq)"
    by (simp add: parse_headers_run q0(1) Let_def)
  moreover have "hp_message_state ?p1 = PARSE_HEADERS"
    using parse_headers_keeps(1) [OF head] by (simp add: head_frame_def set_read_buffer_def)
  ultimately show thesis using q0(2) by (intro that [of ?p1]) simp_all
qed

section \<open>From the head to the body\<close>

text \<open>What the parser and the message hold when the head has been read.\<close>

definition head_read ::
  "byte_string \<Rightarrow> byte_string \<Rightarrow> byte_string \<Rightarrow> 16 word \<Rightarrow> 16 word \<Rightarrow> dict \<Rightarrow> http_parser \<Rightarrow> http_request \<Rightarrow> bool" where
  "head_read meth res query ver sub hs q mq \<longleftrightarrow>
     hp_method q = meth \<and> hp_resource q = res \<and> hp_query_string q = query
     \<and> hp_payload_log q = [] \<and> \<not> hp_parse_headers_only q \<and> hp_chunk_state q = PARSE_CHUNK_SIZE_START
     \<and> m_version_major mq = ver \<and> m_version_minor mq = sub \<and> m_headers mq = hs
     \<and> rq_query_params mq = [] \<and> m_cookie_params mq = [] \<and> rq_request_reader mq \<and> \<not> m_has_missing_packets mq"

lemma head_read_unplaced:
  "head_read meth res query ver sub hs (unplaced q) mq = head_read meth res query ver sub hs q mq"
  by (simp add: head_read_def reposition_def)

lemma new_reader_in_head:
  assumes "line_ok meth res query" and "list_all header_ok hs" and "ver \<noteq> 0"
    and "r = new_http_request_reader g1 g2 g3 t c0"
  obtains q mq where "in_head (request_text meth res query ver sub hs) (rd_parser r) (rd_request r) q mq"
    "head_read meth res query ver sub hs q mq"
proof -
  let ?p = "unplaced ((rd_parser r)\<lparr>hp_message_state := PARSE_HEADERS\<rparr>)"
  let ?q = "(last_header hs (?p\<lparr>hp_method := meth, hp_resource := res, hp_query_string := query\<rparr>))
      \<lparr>hp_headers_state := PARSE_EXPECTING_FINAL_NEWLINE\<rparr>"
  let ?m = "(rd_request r)\<lparr>m_version_major := ver, m_version_minor := sub, m_headers := hs\<rparr>"
  have new: "hp_headers_state ?p = PARSE_METHOD_START" "hp_query_string ?p = []" "no_raw ?p"
    "m_first_line (rd_request r) = []" "m_headers (rd_request r) = []"
    using new_reader_simps [of g1 g2 g3 t c0] by (simp_all add: assms(4) reposition_def)
  have "run_headers ?p (rd_request r) (request_text meth res query ver sub hs @ x) = R_done x ?q ?m" for x
    using run_request_head [OF assms(1-3) new, of sub x] by (simp add: request_text_def)
  then have "in_head (request_text meth res query ver sub hs) (rd_parser r) (rd_request r) ?q ?m"
    by (simp add: in_head_def assms(4) new_reader_simps)
  moreover have "head_read meth res query ver sub hs ?q ?m"
    by (simp add: head_read_def last_header_def reposition_def assms(4) new_reader_simps)
      (simp add: new_http_request_reader_def new_http_parser_def)
  ultimately show thesis by (rule that)
qed

text \<open>A handler for the path, which takes every block.\<close>

definition payload_route :: "'ws http_server \<Rightarrow> byte_string \<Rightarrow> byte_string \<Rightarrow> payload_handler_type \<Rightarrow> bool" where
  "payload_route s meth res h \<longleftrightarrow>
     (\<exists>payloads q creator. choose_payloads meth s = Inr payloads
        \<and> find_submatch payloads (strip_trailing_slash res) = Some (q, creator) \<and> (\<forall>m. creator m = Inr h))
     \<and> (\<forall>seen b. h seen b)"

text \<open>The decision on the body, by its coding.\<close>

lemma announced_decision:
  assumes "announced E hs B" and "m_headers m = hs" "m_is_chunked m = chunked_head E hs" and "\<not> hp_parse_headers_only p"
    and "hp_payload_log p = []" "hp_chunk_state p = PARSE_CHUNK_SIZE_START" and h: "\<And>seen b. h seen b"
  obtains (none) p2 m2 where "body_decision E p m = Some (TTrue, p2, m2)" "body_text B = []" "body_bytes B = []"
      "hp_payload_log p2 = []" "hp_read p2 = hp_read p" "but_content m2 = but_content m"
    | (some) p2 m2 where "body_decision E p m = Some (Indeterminate, p2, m2)" "body_text B \<noteq> []" "hp_read p2 = hp_read p"
      "but_content m2 = but_content m" "\<And>f. in_body (body_text B) (body_bytes B) (set_payload_handler h p2) (m2\<lparr>rq_payload_handler := f, rq_request_reader := False\<rparr>)"
proof (cases B)
  case (Chunked_body ds)
  let ?p = "p\<lparr>hp_message_state := PARSE_CHUNKS\<rparr>"
  have dec: "body_decision E p m = Some (Indeterminate, ?p, m)"
    using assms(1,3,4) Chunked_body by (simp add: body_decision_def)
  have "\<exists>q ch'. run_chunks (set_payload_handler h ?p) ch (chunked_text ds @ x) = K_done x q ch' \<and> concat (hp_payload_log q) = concat ds" for ch x
  proof -
    have "quiet (set_payload_handler h ?p)" "hp_chunk_state (set_payload_handler h ?p) = PARSE_CHUNK_SIZE_START"
      "room_for (length (concat ds)) (set_payload_handler h ?p) ch"
      using h assms(6) by (auto simp: quiet_def set_payload_handler_def room_for_def)
    from run_chunked_text [OF this(1,2) _ this(3), of x] assms(1,5) Chunked_body show ?thesis
      by (auto simp: Chunk_Run.delivered_def set_payload_handler_def)
  qed
  then show thesis
    using dec h Chunked_body
    by (intro some [of ?p m]) (auto simp: in_body_def quiet_def set_payload_handler_def chunked_text_def)
next
  case (Plain_body b)
  show thesis
  proof (cases "dict_find E hs HEADER_CONTENT_LENGTH")
    case None
    with assms Plain_body show thesis
      by (intro none [of "p\<lparr>hp_message_state := PARSE_END\<rparr>" m])
         (simp_all add: body_decision_def request_is_content_length_implied_def has_header_def)
  next
    case (Some kv)
    then obtain len where len: "parse_uint64 E (snd kv) = Some len" "unat len = length b"
      using assms(1) Plain_body by auto
    let ?n = "min (length b) (hp_max_content_length p)"
    have dec: "body_decision E p m = Some (if b = [] then (TTrue, p\<lparr>hp_message_state := PARSE_END\<rparr>, m\<lparr>m_content_length := 0\<rparr>)
        else (Indeterminate, p\<lparr>hp_message_state := PARSE_CONTENT, hp_bytes_content_remaining := length b\<rparr>,
              create_content_buffer (m\<lparr>m_content_length := ?n\<rparr>)))"
      using assms(1-4) Plain_body Some len
      by (auto simp: body_decision_def request_is_content_length_implied_def has_header_def
          update_content_length_using_header_def Let_def min_def)
    show thesis
    proof (cases "b = []")
      case True
      with dec assms(5) Plain_body show thesis
        by (intro none [of "p\<lparr>hp_message_state := PARSE_END\<rparr>" "m\<lparr>m_content_length := 0\<rparr>"]) (simp_all add: but_content_def)
    next
      case False
      with dec assms(5) h Plain_body show thesis
        by (intro some [of "p\<lparr>hp_message_state := PARSE_CONTENT, hp_bytes_content_remaining := length b\<rparr>"
              "create_content_buffer (m\<lparr>m_content_length := ?n\<rparr>)"])
           (auto simp: but_content_def create_content_buffer_def in_body_def quiet_def set_payload_handler_def)
    qed
  qed
qed

text \<open>The hook finds the handler; the parser is behind the head, before the body.\<close>

lemma at_hook:
  fixes s :: "'ws http_server"
  assumes "head_read meth res query ver sub hs p1 mq" and "announced E hs B" and "payload_route s meth res h"
  obtains (none) p2 m2 where "finish_header_parsing E (handle_request_after_headers_parsed E s) c p1 mq None
        = (continue_sent E hs c, Inr (TTrue, None, p2, m2))"
      "body_text B = []" "body_bytes B = []" "hp_payload_log p2 = []" "hp_read p2 = hp_read p1" "hp_payload_handler p2 \<noteq> None"
      "headed_message E meth res query ver sub hs m2"
    | (some) p2 m2 where "finish_header_parsing E (handle_request_after_headers_parsed E s) c p1 mq None
        = (continue_sent E hs c, Inr (Indeterminate, None, p2, m2))"
      "in_body (body_text B) (body_bytes B) p2 m2" "body_text B \<noteq> []" "hp_read p2 = hp_read p1"
      "headed_message E meth res query ver sub hs m2" "\<not> m_has_missing_packets m2"
proof -
  let ?p = "p1\<lparr>hp_bytes_content_remaining := 0, hp_bytes_content_read := 0\<rparr>"
  let ?m = "update_message_with_header_data E ?p (update_transfer_encoding_using_header E (mq\<lparr>m_content_length := 0\<rparr>))"
  note hr = assms(1) [unfolded head_read_def]
  have headed: "headed_message E meth res query ver sub hs ?m" by (rule headed_update) (use hr in simp_all)
  have m: "m_headers ?m = hs" "m_is_chunked ?m = chunked_head E hs" "rq_request_reader ?m" "\<not> m_has_missing_packets ?m"
    using hr by (simp_all add: update_message_with_header_data_def update_transfer_encoding_using_header_def chunked_head_def
        set_query_string_def set_resource_def set_method_def clear_first_line_def Let_def split: option.split)
  have dec: "head_decision E p1 mq = body_decision E ?p ?m" by (simp add: head_decision_def Let_def)
  obtain payloads q creator where route: "choose_payloads meth s = Inr payloads"
    "find_submatch payloads (strip_trailing_slash res) = Some (q, creator)" "\<And>m. creator m = Inr h" "\<And>seen b. h seen b"
    using assms(3) by (auto simp: payload_route_def)
  have hook: "finish_header_parsing E (handle_request_after_headers_parsed E s) c p1 mq None
      = (continue_sent E hs c, Inr (rc, None, set_payload_handler h p2, m2\<lparr>rq_payload_handler := Some h, rq_request_reader := False\<rparr>))"
    if "body_decision E ?p ?m = Some (rc, p2, m2)" "but_content m2 = but_content ?m" "rc \<noteq> TFalse" for rc p2 m2
    using but_content_fields [OF that(2)] m(1,3) headed route that(1,3)
    by (simp add: finish_header_decided [OF dec [unfolded that(1)]] hook_cases headed_message_def request_set_payload_handler_def Let_def)
  have after: "headed_message E meth res query ver sub hs (m2\<lparr>rq_payload_handler := f, rq_request_reader := b\<rparr>)"
    "\<not> m_has_missing_packets (m2\<lparr>rq_payload_handler := f, rq_request_reader := b\<rparr>)" if "but_content m2 = but_content ?m" for m2 f b
    using headed headed_but_content [OF that, of E meth res query ver sub hs] but_content_fields(7) [OF that] m(4)
    by (simp_all add: headed_message_def)
  have p: "\<not> hp_parse_headers_only ?p" "hp_payload_log ?p = []" "hp_chunk_state ?p = PARSE_CHUNK_SIZE_START" "hp_read ?p = hp_read p1"
    using hr by simp_all
  from assms(2) m(1,2) p(1-3) route(4) show thesis
  proof (cases rule: announced_decision [where h = h])
    case (none p2 m2)
    show thesis
      by (rule that(1) [OF hook [OF none(1,6)] none(2,3)]) (use none(4-6) p(4) after in \<open>simp_all add: set_payload_handler_def\<close>)
  next
    case (some p2 m2)
    show thesis
      by (rule that(2) [OF hook [OF some(1,4)] some(5,2)]) (use some(3,4) p(4) after in \<open>simp_all add: set_payload_handler_def\<close>)
  qed
qed

lemma parse_through_head:
  assumes "in_head todo p m q mq"
    and "parse_headers (set_read_buffer bs (p\<lparr>hp_message_state := PARSE_HEADERS\<rparr>)) m None = (TTrue, None, p1, mq)"
    and "hp_message_state p1 = PARSE_HEADERS"
    and "finish_header_parsing E hook c p1 mq None = (c', Inr (rc, None, p2, m2))"
  shows "parse E hook c (set_read_buffer bs p) m None =
    (let n = hp_bytes_last_read p1 in
     if rc = Indeterminate \<and> \<not> eof p2
     then (case parse_loop E hook c' n p2 m2 None of (w, Inl e) \<Rightarrow> (w, Inl e) | (w, Inr r) \<Rightarrow> (w, parse_end E r))
     else (c', parse_end E (rc, n, None, p2, m2)))"
proof -
  have "parse_pass E hook c (set_read_buffer bs p) m None = (c', Inr (rc, hp_bytes_last_read p1, None, p2, m2))"
    using assms by (simp add: in_head_def headers_first_pass headers_pass_def)
  then show ?thesis
    using assms(1) by (simp add: parse_def parse_loop.simps [of E hook c 0 "set_read_buffer bs p"] in_head_def Let_def)
qed

lemma parse_end_payload:
  assumes "hp_payload_handler p \<noteq> None"
  shows "parse_end E (TTrue, n, ec, p, m)
     = Inr (TTrue, ec, p\<lparr>hp_message_state := PARSE_END, hp_bytes_last_read := n\<rparr>,
            compute_msg_status (m\<lparr>m_is_valid := True\<rparr>) True)"
  using assms by (auto simp: parse_end_def finish_def finish_state_def compute_msg_status_def Let_def)

lemma headed_cache: "headed_message E meth res query ver sub hs (m\<lparr>m_chunk_cache := ch\<rparr>) = headed_message E meth res query ver sub hs m"
  by (simp add: headed_message_def)

section \<open>Reads\<close>

definition continue_bytes :: "sl_utils \<Rightarrow> dict \<Rightarrow> byte_string" where
  "continue_bytes E hs = (if iequals E ''100-continue'' (get_value E hs ''Expect'') then RESPONSE_FULLMESSAGE_100_CONTINUE else [])"

lemma sent_continue: "sent_bytes (continue_sent E hs c) = sent_bytes c @ continue_bytes E hs"
  by (simp add: continue_sent_def continue_bytes_def)

text \<open>
  A reader that waits for \<open>todo\<close>, the rest of a request: it is in the head or in the body, and will
  have sent \<open>sent\<close> at the end.
\<close>

definition awaits ::
  "sl_utils \<Rightarrow> byte_string \<Rightarrow> byte_string \<Rightarrow> byte_string \<Rightarrow> 16 word \<Rightarrow> 16 word \<Rightarrow> dict \<Rightarrow> request_body \<Rightarrow> byte_string
   \<Rightarrow> byte_string \<Rightarrow> http_parser \<Rightarrow> http_request \<Rightarrow> tcp_connection \<Rightarrow> bool" where
  "awaits E meth res query ver sub hs B sent todo p m c \<longleftrightarrow>
     (\<exists>front q mq. todo = front @ body_text B \<and> front \<noteq> [] \<and> in_head front p m q mq \<and> head_read meth res query ver sub hs q mq
        \<and> sent = sent_bytes c @ continue_bytes E hs)
     \<or> in_body todo (body_bytes B) p m \<and> headed_message E meth res query ver sub hs m \<and> \<not> m_has_missing_packets m
       \<and> sent = sent_bytes c"

lemma awaits_conn:
  "sent_bytes c = sent_bytes c' \<Longrightarrow>
   awaits E meth res query ver sub hs B sent todo p m c = awaits E meth res query ver sub hs B sent todo p m c'"
  by (simp add: awaits_def)

lemma body_parse_more:
  assumes "in_body (b @ t) (body_bytes B) p m" "t \<noteq> []" "headed_message E meth res query ver sub hs m" "\<not> m_has_missing_packets m"
  shows "\<exists>n p' m'. parse_loop E hook w k (set_read_buffer b p) m None = (w, Inr (Indeterminate, n, None, p', m'))
    \<and> in_body t (body_bytes B) p' m' \<and> headed_message E meth res query ver sub hs m' \<and> \<not> m_has_missing_packets m'"
  using body_more [OF assms(1,2), of E hook w k None] assms(3,4) headed_cache [of E meth res query ver sub hs _ m] by fastforce

lemma awaits_more:
  fixes s :: "'ws http_server"
  assumes aw: "awaits E meth res query ver sub hs B sent (b @ t) p m c" and t: "t \<noteq> []"
    and ann: "announced E hs B" and route: "payload_route s meth res h"
  shows "\<exists>c' p' m'. parse E (handle_request_after_headers_parsed E s) c (set_read_buffer b p) m None
        = (c', Inr (Indeterminate, None, p', m')) \<and> awaits E meth res query ver sub hs B sent t p' m' c'"
  using aw [unfolded awaits_def]
proof (elim disjE exE conjE)
  let ?hook = "handle_request_after_headers_parsed E s"
  fix front q mq
  assume split: "b @ t = front @ body_text B" and head: "front \<noteq> []" "in_head front p m q mq" "head_read meth res query ver sub hs q mq"
    and sent: "sent = sent_bytes c @ continue_bytes E hs"
  show ?thesis
  proof (cases "length b < length front")
    case True
    with split obtain front' where f: "front = b @ front'" "t = front' @ body_text B" "front' \<noteq> []"
      by (auto simp: append_eq_append_conv2)
    from head_more [OF head(2) [unfolded f(1)] f(3), of E ?hook c] f head(3) sent show ?thesis
      by (auto simp: awaits_def)
  next
    case False
    with split obtain y where y: "b = front @ y" "body_text B = y @ t" by (auto simp: append_eq_append_conv2)
    obtain p1 where p1: "parse_headers (set_read_buffer b (p\<lparr>hp_message_state := PARSE_HEADERS\<rparr>)) m None = (TTrue, None, p1, mq)"
      "hp_read p1 = y" "unplaced p1 = q" "hp_message_state p1 = PARSE_HEADERS"
      using head_last [OF head(2)] y(1) by blast
    have hr: "head_read meth res query ver sub hs p1 mq" using head(3) p1(3) head_read_unplaced by metis
    from hr ann route show ?thesis
    proof (cases rule: at_hook [where c = c])
      case (none p2 m2)
      with y(2) t show ?thesis by simp
    next
      case (some p2 m2)
      note through = parse_through_head [OF head(2) p1(1,4) some(1)]
      have p2: "set_read_buffer y p2 = p2" using some(4) p1(2) by (cases p2) (simp add: set_read_buffer_def)
      show ?thesis
      proof (cases "y = []")
        case True
        then have "eof p2" using some(4) p1(2) by (simp add: eof_def)
        with through True some y(2) sent show ?thesis by (auto simp: parse_end_def awaits_def Let_def sent_continue)
      next
        case False
        then have "\<not> eof p2" using some(4) p1(2) by (simp add: eof_def)
        with through p2 body_parse_more [OF some(2) [unfolded y(2)] t some(5,6), of ?hook "continue_sent E hs c" "hp_bytes_last_read p1"] sent
        show ?thesis by (auto simp: parse_end_def awaits_def Let_def sent_continue)
      qed
    qed
  qed
next
  let ?hook = "handle_request_after_headers_parsed E s"
  assume body: "in_body (b @ t) (body_bytes B) p m" "headed_message E meth res query ver sub hs m" "\<not> m_has_missing_packets m"
    "sent = sent_bytes c"
  from body_parse_more [OF body(1) t body(2,3), of ?hook c 0] body(3,4)
  show ?thesis by (auto simp: parse_def parse_end_def awaits_def)
qed

lemma awaits_last:
  fixes s :: "'ws http_server"
  assumes aw: "awaits E meth res query ver sub hs B sent todo p m c" and ann: "announced E hs B" and route: "payload_route s meth res h"
  shows "\<exists>c' p' m'. parse E (handle_request_after_headers_parsed E s) c (set_read_buffer (todo @ x) p) m None
        = (c', Inr (TTrue, None, p', m'))
      \<and> concat (hp_payload_log p') = body_bytes B \<and> hp_read p' = x \<and> m_is_valid m'
      \<and> headed_message E meth res query ver sub hs m' \<and> sent_bytes c' = sent"
  using aw [unfolded awaits_def]
proof (elim disjE exE conjE)
  let ?hook = "handle_request_after_headers_parsed E s"
  fix front q mq
  assume split: "todo = front @ body_text B" and head: "in_head front p m q mq" "head_read meth res query ver sub hs q mq"
    and sent: "sent = sent_bytes c @ continue_bytes E hs"
  let ?y = "body_text B @ x"
  obtain p1 where p1: "parse_headers (set_read_buffer (todo @ x) (p\<lparr>hp_message_state := PARSE_HEADERS\<rparr>)) m None = (TTrue, None, p1, mq)"
    "hp_read p1 = ?y" "unplaced p1 = q" "hp_message_state p1 = PARSE_HEADERS"
    using head_last [OF head(1), of ?y] split by auto
  have hr: "head_read meth res query ver sub hs p1 mq" using head(2) p1(3) head_read_unplaced by metis
  from hr ann route show ?thesis
  proof (cases rule: at_hook [where c = c])
    case (none p2 m2)
    with parse_through_head [OF head(1) p1(1,4) none(1)] parse_end_payload [OF none(6)] p1(2) sent show ?thesis
      by (simp add: Let_def headed_status sent_continue)
  next
    case (some p2 m2)
    have "hp_read p2 = ?y" "body_text B \<noteq> []" using some(3,4) p1(2) by simp_all
    then have p2: "set_read_buffer ?y p2 = p2" "\<not> eof p2" by (simp_all add: set_read_buffer_def eof_def)
    obtain n p' ch where "parse_loop E ?hook (continue_sent E hs c) (hp_bytes_last_read p1) p2 m2 None
        = (continue_sent E hs c, Inr (TTrue, n, None, p', m2\<lparr>m_chunk_cache := ch\<rparr>))"
      "concat (hp_payload_log p') = body_bytes B" "hp_read p' = x" "hp_payload_handler p' \<noteq> None"
      using body_last [OF some(2), of E ?hook "continue_sent E hs c" "hp_bytes_last_read p1" x None] unfolding p2(1) by blast
    with parse_through_head [OF head(1) p1(1,4) some(1)] p2(2) parse_end_payload [of p'] some(5) sent show ?thesis
      by (simp add: Let_def headed_status headed_cache sent_continue)
  qed
next
  let ?hook = "handle_request_after_headers_parsed E s"
  assume body: "in_body todo (body_bytes B) p m" "headed_message E meth res query ver sub hs m" "\<not> m_has_missing_packets m"
    "sent = sent_bytes c"
  obtain n p' ch where "parse_loop E ?hook c 0 (set_read_buffer (todo @ x) p) m None = (c, Inr (TTrue, n, None, p', m\<lparr>m_chunk_cache := ch\<rparr>))"
    "concat (hp_payload_log p') = body_bytes B" "hp_read p' = x" "hp_payload_handler p' \<noteq> None"
    using body_last [OF body(1), of E ?hook c 0 x None] by blast
  with body parse_end_payload [of p'] show ?thesis
    by (simp add: parse_def headed_status headed_cache)
qed

lemma run_reads_append: "run_reads E rf nf s out (xs @ ys) = run_reads E rf nf s (run_reads E rf nf s out xs) ys"
  by (induction E rf nf s out xs rule: run_reads.induct) simp_all

lemma run_reads_none [simp]: "run_reads E rf nf s out [] = out"
  by (cases out) simp_all

lemma timer_sends_nothing [simp]:
  "sent_bytes (cancel_timer c) = sent_bytes c" "sent_bytes (tc_log Timer_wait (async_read_some c)) = sent_bytes c"
  by (simp_all add: sent_bytes_def conn_defs)

lemma reads_more:
  fixes s :: "'ws http_server"
  assumes "awaits E meth res query ver sub hs B sent (concat pre @ t) (rd_parser r) (rd_request r) c" and "t \<noteq> []"
    and "announced E hs B" and "payload_route s meth res h"
  shows "\<exists>r' c'. run_reads E rf nf s (Reading r c) (map Read_ok pre) = Reading r' c'
    \<and> awaits E meth res query ver sub hs B sent t (rd_parser r') (rd_request r') c'"
  using assms(1)
proof (induction pre arbitrary: r c)
  case (Cons b pre)
  let ?t = "concat pre @ t"
  have "awaits E meth res query ver sub hs B sent (b @ ?t) (rd_parser r) (rd_request r) (cancel_timer c)"
    using Cons.prems awaits_conn [of c "cancel_timer c"] by simp
  from awaits_more [OF this _ assms(3,4)] assms(2) obtain c' p' m' where
    p: "parse E (handle_request_after_headers_parsed E s) (cancel_timer c) (set_read_buffer b (rd_parser r)) (rd_request r) None
        = (c', Inr (Indeterminate, None, p', m'))" and aw: "awaits E meth res query ver sub hs B sent ?t p' m' c'" by auto
  let ?r = "r\<lparr>rd_parser := p', rd_request := m'\<rparr>"
  have "on_read E rf nf s r c (Read_ok b) = Reading ?r (tc_log Timer_wait (async_read_some c'))"
    by (simp add: on_read_def consume_bytes_def p read_bytes_with_timeout_def)
  moreover have "awaits E meth res query ver sub hs B sent ?t (rd_parser ?r) (rd_request ?r) (tc_log Timer_wait (async_read_some c'))"
    using aw awaits_conn [of c' "tc_log Timer_wait (async_read_some c')"] by simp
  ultimately show ?case using Cons.IH by simp
qed simp

section \<open>Properties\<close>

text \<open>
  C12: a body goes to the payload handler, whole and in order, however the request is split over reads.
  For a well-formed head that announces a body, by \<open>Content-Length\<close> or in chunks, and a path with a payload
  handler that takes every block: whether the request arrives in one read or in many, with boundaries
  anywhere in head and body, the reader waits for more bytes until the read that has the last byte of the
  body. In that read the parser completes: the blocks that the handler has got are the bytes of the
  body, the bytes that follow (of a next request, say) stay in the buffer, nothing but a reply to \<open>Expect\<close>
  has been sent, and the server's \<open>handle_request\<close> is called with the request, valid and with the data
  of its head. (A read delivers at least one byte.)
\<close>

theorem payload_delivery:
  fixes s :: "'ws http_server"
  assumes "line_ok meth res query" and "list_all header_ok hs" and "ver \<noteq> 0" and "announced E hs B"
    and "choose_payloads meth s = Inr payloads"
    and "find_submatch payloads (strip_trailing_slash res) = Some (q, creator)"
    and "\<forall>m. creator m = Inr h" and "\<forall>seen blk. h seen blk"
    and "r = new_http_request_reader g1 g2 g3 t c0"
    and "concat pre @ final = request_text meth res query ver sub hs @ body_text B @ rest" and "[] \<notin> set pre"
    and "length (concat pre) < length (request_text meth res query ver sub hs @ body_text B)"
  shows "\<exists>r1 c1 c2 p m. run_reads E rf nf s (Reading r c) (map Read_ok pre) = Reading r1 c1
      \<and> parse E (handle_request_after_headers_parsed E s) (cancel_timer c1) (set_read_buffer final (rd_parser r1)) (rd_request r1) None
        = (c2, Inr (TTrue, None, p, m))
      \<and> concat (hp_payload_log p) = body_bytes B \<and> hp_read p = rest
      \<and> m_is_valid m \<and> headed_message E meth res query ver sub hs m
      \<and> sent_bytes c2 = sent_bytes c
          @ (if iequals E ''100-continue'' (get_value E hs ''Expect'') then RESPONSE_FULLMESSAGE_100_CONTINUE else [])
      \<and> run_reads E rf nf s (Reading r c) (map Read_ok (pre @ [final]))
        = Completed (handle_request E rf nf s m (keep_connection E p m c2) EC_none)"
proof -
  let ?hook = "handle_request_after_headers_parsed E s"
  let ?text = "request_text meth res query ver sub hs"
  let ?sent = "sent_bytes c @ continue_bytes E hs"
  obtain q' mq where "in_head ?text (rd_parser r) (rd_request r) q' mq" "head_read meth res query ver sub hs q' mq"
    using new_reader_in_head [OF assms(1-3,9)] .
  then have start: "awaits E meth res query ver sub hs B ?sent (?text @ body_text B) (rd_parser r) (rd_request r) c"
    by (auto simp: awaits_def request_text_def)
  have route: "payload_route s meth res h" using assms(5-8) by (auto simp: payload_route_def)
  obtain t where t: "?text @ body_text B = concat pre @ t" "final = t @ rest" "t \<noteq> []"
  proof -
    have "concat pre @ final = (?text @ body_text B) @ rest" using assms(10) by simp
    then obtain us where "concat pre = (?text @ body_text B) @ us \<and> us @ final = rest
        \<or> concat pre @ us = ?text @ body_text B \<and> final = us @ rest"
      unfolding append_eq_append_conv2 by blast
    with assms(12) show thesis by (auto intro!: that [of us])
  qed
  obtain r1 c1 where r1: "run_reads E rf nf s (Reading r c) (map Read_ok pre) = Reading r1 c1"
    "awaits E meth res query ver sub hs B ?sent t (rd_parser r1) (rd_request r1) c1"
    using reads_more [OF start [unfolded t(1)] t(3) assms(4) route] by blast
  from r1(2) have "awaits E meth res query ver sub hs B ?sent t (rd_parser r1) (rd_request r1) (cancel_timer c1)"
    using awaits_conn [of c1 "cancel_timer c1"] by simp
  from awaits_last [OF this assms(4) route, of rest] obtain c2 p m where
    p: "parse E ?hook (cancel_timer c1) (set_read_buffer final (rd_parser r1)) (rd_request r1) None = (c2, Inr (TTrue, None, p, m))"
    "concat (hp_payload_log p) = body_bytes B" "hp_read p = rest" "m_is_valid m" "headed_message E meth res query ver sub hs m"
    "sent_bytes c2 = ?sent" unfolding t(2) by blast
  have "run_reads E rf nf s (Reading r c) (map Read_ok (pre @ [final])) = on_read E rf nf s r1 c1 (Read_ok final)"
    using r1(1) by (simp add: run_reads_append)
  then have "run_reads E rf nf s (Reading r c) (map Read_ok (pre @ [final]))
        = Completed (handle_request E rf nf s m (keep_connection E p m c2) EC_none)"
    by (simp add: on_read_def consume_bytes_def p(1) finished_reading_def of_error_code_def)
  with r1(1) p show ?thesis by (auto simp: continue_bytes_def)
qed

definition collecting_server :: "unit http_server" where
  "collecting_server = (new_http_server utils_ref 1000)\<lparr>hs_post_payloads := [''/x'' \<mapsto> (\<lambda>r. Inr (\<lambda>seen b. True))]\<rparr>"

lemma sample_content_announced: "announced utils_ref [(''Content-Length'', ''3'')] (Plain_body ''abc'')"
  by (simp add: chunked_head_def dict_find_def equal_range_def iequal_to_def header_name_consts iequals_ref_def upper_string_def
      toupper_def char_value_def parse_uint_ref_def dec_value_def digit_of_def is_digit_def)

definition sample_post :: byte_string where
  "sample_post = request_text ''POST'' ''/x'' [] 1 1 [(''Content-Length'', ''3'')]"

definition sample_delivery :: "byte_string list \<Rightarrow> byte_string \<Rightarrow> bool" where
  "sample_delivery pre final \<longleftrightarrow>
     (\<exists>r1 c1 c2 p m. run_reads utils_ref () () collecting_server
           (Reading (new_http_request_reader 0 0 False 1000 sample_conn) sample_conn) (map Read_ok pre) = Reading r1 c1
        \<and> parse utils_ref (handle_request_after_headers_parsed utils_ref collecting_server) (cancel_timer c1)
            (set_read_buffer final (rd_parser r1)) (rd_request r1) None = (c2, Inr (TTrue, None, p, m))
        \<and> concat (hp_payload_log p) = ''abc'' \<and> hp_read p = ''GET'' \<and> m_is_valid m)"

text \<open>The body with its head in one read, and a request split within head and body.\<close>

theorem payload_delivery_witness:
  "sample_delivery [] (sample_post @ ''abcGET'') \<and> sample_delivery [''PO'', drop 2 sample_post @ ''a''] ''bcGET''"
proof -
  have tbl: "choose_payloads ''POST'' collecting_server = Inr [''/x'' \<mapsto> (\<lambda>r. Inr (\<lambda>seen b. True))]"
    by (simp add: choose_payloads_def choose_map_by_method_def collecting_server_def method_names)
  have found: "find_submatch [''/x'' \<mapsto> (\<lambda>r. Inr (\<lambda>seen b. True))] (strip_trailing_slash ''/x'')
      = Some (''/x'', (\<lambda>r. Inr (\<lambda>seen b. True)))"
    by (subst find_submatch.simps) (simp add: strip_trailing_slash_def)
  have one: "(1 :: 16 word) \<noteq> 0" by simp
  have go: "sample_delivery pre final"
    if "concat pre @ final = sample_post @ body_text (Plain_body ''abc'') @ ''GET''" "[] \<notin> set pre"
      "length (concat pre) < length (sample_post @ body_text (Plain_body ''abc''))" for pre final
    using payload_delivery [where ?g1.0 = 0 and ?g2.0 = 0 and ?g3.0 = False and t = 1000 and ?c0.0 = sample_conn and c = sample_conn
        and rf = "()" and nf = "()", OF sample_head_ok one sample_content_announced tbl found _ _ refl that [unfolded sample_post_def]]
    unfolding sample_delivery_def by auto
  have post: "sample_post = ''PO'' @ drop 2 sample_post"
    by (simp add: sample_post_def request_text_def request_line_def)
  then have c: "concat [''PO'', drop 2 sample_post @ ''a''] = sample_post @ ''a''" by simp
  have "concat [''PO'', drop 2 sample_post @ ''a''] @ ''bcGET'' = sample_post @ body_text (Plain_body ''abc'') @ ''GET''"
    "length (concat [''PO'', drop 2 sample_post @ ''a'']) < length (sample_post @ body_text (Plain_body ''abc''))"
    unfolding c by simp_all
  with go [of "[''PO'', drop 2 sample_post @ ''a'']" "''bcGET''"] go [of "[]" "sample_post @ ''abcGET''"] show ?thesis by simp
qed

end
