(* ===== verification/Scheduler.thy ===== *)
theory Scheduler
  imports Prelude
begin

text \<open>
  \<open>scheduler\<close>: the pool of worker threads that run the asio service, and the count of its users.
  Each operation is atomic under the scheduler's mutex; waiting on a condition variable is an
  outcome of its own. Threads are numbered.
\<close>

section \<open>Definitions\<close>

text \<open>
  \<open>sc_thread_pool\<close> holds the \<open>std::thread\<close> objects: a thread and whether it has been joined.
  \<open>sc_service_stopped\<close> is the flag of the asio service, \<open>sc_timer_pending\<close> the work item that
  keeps the service from running out of work; \<open>sc_next_thread\<close> numbers the threads. The hook
  called at the end of a thread is application code: a number that tells which one is set, \<open>None\<close>
  for the default, which does nothing.
\<close>

record scheduler =
  sc_num_threads :: "32 word"
  sc_active_users :: "32 word"
  sc_running :: bool
  sc_thread_pool :: "(nat \<times> bool) list"
  sc_service_stopped :: bool
  sc_timer_pending :: bool
  sc_next_thread :: nat
  sc_users_notified :: bool
  sc_stop_notified :: bool
  sc_thread_stop_hook :: "nat option"

definition new_scheduler :: "32 word \<Rightarrow> scheduler" where
  "new_scheduler number_of_threads =
     \<lparr>sc_num_threads = number_of_threads, sc_active_users = 0, sc_running = False, sc_thread_pool = [],
      sc_service_stopped = False, sc_timer_pending = False, sc_next_thread = 0,
      sc_users_notified = False, sc_stop_notified = False,
      sc_thread_stop_hook = None\<rparr>"

definition keep_running :: "scheduler \<Rightarrow> scheduler" where
  "keep_running s = (if sc_running s then s\<lparr>sc_timer_pending := True\<rparr> else s)"

text \<open>The loop of \<open>startup\<close>: threads for \<open>n = 0, \<dots>, num_threads - 1\<close>.\<close>

definition start_threads :: "scheduler \<Rightarrow> scheduler" where
  "start_threads s =
     (let k = unat (sc_num_threads s); i = sc_next_thread s
      in s\<lparr>sc_thread_pool := sc_thread_pool s @ map (\<lambda>n. (n, False)) [i ..< i + k], sc_next_thread := i + k\<rparr>)"

definition startup :: "scheduler \<Rightarrow> scheduler" where
  "startup s =
     (if \<not> sc_running s
      then start_threads (keep_running (s\<lparr>sc_running := True, sc_service_stopped := False\<rparr>))
      else s)"

text \<open>\<open>stop_threads\<close>, called by thread \<open>me\<close>: joins all threads of the pool but its own.\<close>

definition stop_threads :: "nat \<Rightarrow> scheduler \<Rightarrow> scheduler" where
  "stop_threads me s =
     s\<lparr>sc_thread_pool := map (\<lambda>(t, joined). (t, joined \<or> t \<noteq> me)) (sc_thread_pool s)\<rparr>"

text \<open>
  What \<open>shutdown\<close> comes to: done, waiting for \<open>no_more_active_users\<close>, or \<open>std::terminate\<close>, which
  the destructor of a \<open>std::thread\<close> calls that was not joined.
\<close>

datatype shutdown_outcome = Shut_down scheduler | Waiting_for_users scheduler | Terminated

definition finish_shutdown :: "nat \<Rightarrow> scheduler \<Rightarrow> shutdown_outcome" where
  "finish_shutdown me s =
     (let s1 = (stop_threads me (s\<lparr>sc_service_stopped := True\<rparr>))\<lparr>sc_service_stopped := False\<rparr>
      in if list_all snd (sc_thread_pool s1)
         then Shut_down (s1\<lparr>sc_thread_pool := [], sc_stop_notified := True\<rparr>)
         else Terminated)"

definition shutdown :: "nat \<Rightarrow> scheduler \<Rightarrow> shutdown_outcome" where
  "shutdown me s =
     (if sc_running s then
        (if sc_active_users s > 0 then Waiting_for_users s
         else finish_shutdown me (s\<lparr>sc_running := False\<rparr>))
      else finish_shutdown me s)"

text \<open>\<open>join\<close> returns when the scheduler is not running.\<close>

definition join_returns :: "scheduler \<Rightarrow> bool" where
  "join_returns s \<longleftrightarrow> \<not> sc_running s"

definition add_active_user :: "scheduler \<Rightarrow> scheduler" where
  "add_active_user s =
     (let s1 = (if \<not> sc_running s then startup s else s)
      in s1\<lparr>sc_active_users := sc_active_users s1 + 1\<rparr>)"

definition remove_active_user :: "scheduler \<Rightarrow> scheduler" where
  "remove_active_user s =
     (let s1 = s\<lparr>sc_active_users := sc_active_users s - 1\<rparr>
      in if sc_active_users s1 = 0 then s1\<lparr>sc_users_notified := True\<rparr> else s1)"

text \<open>The destructor shuts the scheduler down.\<close>

definition destroy_scheduler :: "nat \<Rightarrow> scheduler \<Rightarrow> shutdown_outcome" where
  "destroy_scheduler me s = shutdown me s"

definition set_thread_stop_hook :: "nat \<Rightarrow> scheduler \<Rightarrow> scheduler" where
  "set_thread_stop_hook hook s = s\<lparr>sc_thread_stop_hook := Some hook\<rparr>"

text \<open>
  The loop of a worker: each entry is the value of \<open>running\<close> it finds and how the call of
  \<open>service.run()\<close> ends. The result is the log, and whether the loop has ended.
\<close>

datatype run_result = Run_returned | Run_threw byte_string | Run_threw_unknown

fun run_log :: "run_result \<Rightarrow> byte_string list" where
  "run_log Run_returned = []"
| "run_log (Run_threw e) = [e]"
| "run_log Run_threw_unknown = [''caught unrecognized exception'']"

fun process_service_work :: "(bool \<times> run_result) list \<Rightarrow> byte_string list \<times> bool" where
  "process_service_work [] = ([], False)"
| "process_service_work ((running, r) # rs) =
     (if running then (case process_service_work rs of (l, ended) \<Rightarrow> (run_log r @ l, ended)) else ([], True))"

text \<open>
  The body of a worker thread started by \<open>startup\<close>: the loop, and when it has ended the hook set
  by then. The result is the log and the hooks called.
\<close>

definition worker_thread :: "nat option \<Rightarrow> (bool \<times> run_result) list \<Rightarrow> byte_string list \<times> nat list" where
  "worker_thread hook rs =
     (case process_service_work rs of (l, ended) \<Rightarrow>
        (l, if ended then (case hook of Some h \<Rightarrow> [h] | None \<Rightarrow> []) else []))"

section \<open>Invariant\<close>

text \<open>
  A scheduler that runs has its threads, none of them joined, and its service is not stopped;
  one that does not run has no threads. Thread numbers are distinct and below the next one.
\<close>

definition scheduler_inv :: "scheduler \<Rightarrow> bool" where
  "scheduler_inv s \<longleftrightarrow>
     (if sc_running s
      then length (sc_thread_pool s) = unat (sc_num_threads s) \<and> list_all (\<lambda>t. \<not> snd t) (sc_thread_pool s)
        \<and> sc_timer_pending s
      else sc_thread_pool s = [])
     \<and> \<not> sc_service_stopped s
     \<and> distinct (map fst (sc_thread_pool s)) \<and> (\<forall>t\<in>set (sc_thread_pool s). fst t < sc_next_thread s)"

lemma scheduler_inv_new: "scheduler_inv (new_scheduler n)"
  by (simp add: scheduler_inv_def new_scheduler_def)

lemma scheduler_inv_startup: "scheduler_inv s \<Longrightarrow> scheduler_inv (startup s)"
proof (cases "sc_running s")
  case False
  moreover assume "scheduler_inv s"
  ultimately show ?thesis
    by (auto simp: scheduler_inv_def startup_def start_threads_def keep_running_def Let_def list_all_iff comp_def)
qed (simp add: startup_def)

lemma startup_running [simp]: "sc_running (startup s)"
  by (simp add: startup_def start_threads_def keep_running_def Let_def)

lemma scheduler_inv_users:
  assumes "scheduler_inv s"
  shows "scheduler_inv (add_active_user s)" "scheduler_inv (remove_active_user s)"
proof -
  have upd: "scheduler_inv (s'\<lparr>sc_active_users := n\<rparr>) = scheduler_inv s'"
    "scheduler_inv (s'\<lparr>sc_active_users := n, sc_users_notified := b\<rparr>) = scheduler_inv s'" for s' n b
    by (simp_all add: scheduler_inv_def)
  show "scheduler_inv (add_active_user s)"
    using assms scheduler_inv_startup by (simp add: add_active_user_def Let_def upd)
  show "scheduler_inv (remove_active_user s)"
    using assms by (simp add: remove_active_user_def Let_def upd)
qed

text \<open>The calls a program makes, one after the other; a worker thread is \<open>me < sc_next_thread\<close>.\<close>

inductive scheduler_reach :: "scheduler \<Rightarrow> bool" where
  reach_new: "scheduler_reach (new_scheduler n)"
| reach_startup: "scheduler_reach s \<Longrightarrow> scheduler_reach (startup s)"
| reach_add: "scheduler_reach s \<Longrightarrow> scheduler_reach (add_active_user s)"
| reach_remove: "scheduler_reach s \<Longrightarrow> scheduler_reach (remove_active_user s)"
| reach_hook: "scheduler_reach s \<Longrightarrow> scheduler_reach (set_thread_stop_hook hook s)"
| reach_keep: "scheduler_reach s \<Longrightarrow> scheduler_reach (keep_running s)"
| reach_shutdown: "scheduler_reach s \<Longrightarrow> shutdown me s = Shut_down s' \<Longrightarrow> scheduler_reach s'"

lemma shutdown_cases:
  assumes "scheduler_inv s"
  shows "shutdown me s =
     (if sc_running s \<and> sc_active_users s > 0 then Waiting_for_users s
      else if me \<in> fst ` set (sc_thread_pool s) then Terminated
      else Shut_down (s\<lparr>sc_running := False, sc_thread_pool := [], sc_stop_notified := True\<rparr>))"
proof -
  have notstopped: "\<not> sc_service_stopped s" using assms by (simp add: scheduler_inv_def)
  then have eq: "s\<lparr>sc_service_stopped := False\<rparr> = s" by simp
  have all: "list_all snd (map (\<lambda>(t, joined). (t, joined \<or> t \<noteq> me)) (sc_thread_pool s))
      \<longleftrightarrow> me \<notin> fst ` set (sc_thread_pool s)" if "sc_running s"
    using assms that by (force simp: scheduler_inv_def list_all_iff)
  show ?thesis
  proof (cases "sc_running s")
    case True
    then show ?thesis
      using all notstopped by (simp add: shutdown_def finish_shutdown_def stop_threads_def Let_def)
  next
    case False
    then have "sc_thread_pool s = []" using assms by (simp add: scheduler_inv_def)
    with False notstopped show ?thesis
      by (simp add: shutdown_def finish_shutdown_def stop_threads_def Let_def)
  qed
qed

lemma scheduler_reach_inv: "scheduler_reach s \<Longrightarrow> scheduler_inv s"
proof (induction rule: scheduler_reach.induct)
  case (reach_hook s hook)
  then show ?case by (simp add: scheduler_inv_def set_thread_stop_hook_def)
next
  case (reach_keep s)
  then show ?case by (simp add: scheduler_inv_def keep_running_def)
next
  case (reach_shutdown s me s')
  then show ?case
    by (auto simp: shutdown_cases scheduler_inv_def split: if_splits)
qed (simp_all add: scheduler_inv_new scheduler_inv_startup scheduler_inv_users)

section \<open>Properties\<close>

text \<open>
  C23: shutdown of the scheduler. In every state a program can bring it to: as long as a running
  scheduler has users, \<open>shutdown\<close> waits; without users it ends with no thread, not running, and
  whoever waits in \<open>join\<close> notified; but when it is called from one of the scheduler's own threads
  (which \<open>stop_threads\<close> takes care not to join), destroying the pool destroys a thread that was
  not joined, and the process terminates.
\<close>

theorem shutdown_of_scheduler:
  assumes "scheduler_reach s"
  shows "shutdown me s =
     (if sc_running s \<and> sc_active_users s > 0 then Waiting_for_users s
      else if me \<in> fst ` set (sc_thread_pool s) then Terminated
      else Shut_down (s\<lparr>sc_running := False, sc_thread_pool := [], sc_stop_notified := True\<rparr>))"
  using shutdown_cases [OF scheduler_reach_inv [OF assms]] .

theorem shutdown_of_scheduler_witness:
  "shutdown 0 (startup (new_scheduler 2)) = Terminated
   \<and> shutdown 7 (startup (new_scheduler 2))
     = Shut_down ((startup (new_scheduler 2))\<lparr>sc_running := False, sc_thread_pool := [], sc_stop_notified := True\<rparr>)"
proof -
  have "scheduler_reach (startup (new_scheduler 2))" by (intro scheduler_reach.intros)
  note sh = shutdown_of_scheduler [OF this]
  have pool: "fst ` set (sc_thread_pool (startup (new_scheduler 2))) = {0, 1}"
    "sc_active_users (startup (new_scheduler 2)) = 0"
    by (auto simp: startup_def start_threads_def keep_running_def new_scheduler_def Let_def image_image)
  show ?thesis unfolding sh pool by simp
qed

text \<open>
  The user count is a 32 bit counter. Adding and removing users in balance comes back to the
  same count, adding makes the scheduler run, and the waiters are notified exactly when the count
  becomes zero; removing a user that was never added wraps the count around to the largest
  value, notifies nobody, and \<open>shutdown\<close> of a running scheduler then waits.
\<close>

lemma user_count:
  shows "sc_active_users (remove_active_user (add_active_user s)) = sc_active_users s
    \<and> sc_running (add_active_user s)
    \<and> (sc_users_notified (remove_active_user s) \<longleftrightarrow> sc_users_notified s \<or> sc_active_users s = 1)
    \<and> (sc_active_users s = 0 \<longrightarrow> unat (sc_active_users (remove_active_user s)) = 2 ^ 32 - 1
         \<and> (sc_running s \<longrightarrow> shutdown me (remove_active_user s) = Waiting_for_users (remove_active_user s)))"
proof -
  have start: "sc_active_users (startup s) = sc_active_users s"
    by (simp add: startup_def start_threads_def keep_running_def Let_def)
  have wrap: "unat (- 1 :: 32 word) = 2 ^ 32 - 1" by (simp add: unsigned_minus_1_eq_mask mask_eq_exp_minus_1)
  have "(0::32 word) < - 1" by (simp add: word_greater_zero_iff)
  then show ?thesis
    using start wrap
    by (auto simp: remove_active_user_def add_active_user_def shutdown_def Let_def eq_iff_diff_eq_0 [symmetric])
qed

text \<open>
  Exceptions never end a worker thread. Its loop ends exactly when it finds \<open>running\<close> false,
  however its calls of \<open>service.run()\<close> ended before; each exception until then is logged, and the
  hook is called once, at the end.
\<close>

lemma worker_survives_exceptions:
  "process_service_work rs = (concat (map (run_log \<circ> snd) (takeWhile fst rs)), \<not> list_all fst rs)"
  by (induction rs rule: process_service_work.induct) (auto simp: list_all_iff)

lemma worker_calls_hook:
  "snd (worker_thread (Some hook) rs) = (if list_all fst rs then [] else [hook])"
  by (simp add: worker_thread_def worker_survives_exceptions)

end
