(* ===== verification/Tcp_Server.thy ===== *)
theory Tcp_Server
  imports Tcp_Connection Scheduler
begin

text \<open>
  \<open>tcp_server\<close>: the pool of connections, accepting, finishing and stopping. Connections are
  numbered. Completions of asynchronous operations are steps of a transition system; each
  operation in flight holds a reference to its connection.
\<close>

section \<open>Definitions\<close>

text \<open>
  An operation in flight: an accept, an SSL handshake, or whatever \<open>handle_connection\<close> started
  (a read, a write, a WebSocket).
\<close>

datatype pending_op = Accepting nat | Handshaking nat | Handling nat

fun op_conn :: "pending_op \<Rightarrow> nat" where
  "op_conn (Accepting i) = i"
| "op_conn (Handshaking i) = i"
| "op_conn (Handling i) = i"

text \<open>
  \<open>ts_conns\<close> are the connection objects, \<open>ts_next\<close> the number of the next one; \<open>ts_locked\<close> tells
  whether the mutex is held. The last two fields record the notifications of the condition
  variables. \<open>ts_ssl_flag\<close> is false until the constructor of \<open>http_server\<close> sets it for a server with
  a key file: an argument of the constructor here.
\<close>

record tcp_server =
  ts_scheduler :: scheduler
  ts_listening :: bool
  ts_ssl_flag :: bool
  ts_acceptor_open :: bool
  ts_conn_pool :: "nat set"
  ts_conns :: "nat \<Rightarrow> tcp_connection"
  ts_pending :: "pending_op set"
  ts_next :: nat
  ts_locked :: bool
  ts_no_more_connections :: bool
  ts_has_stopped :: bool

definition new_tcp_server :: "32 word \<Rightarrow> bool \<Rightarrow> tcp_server" where
  "new_tcp_server number_of_threads ssl =
     \<lparr>ts_scheduler = new_scheduler number_of_threads, ts_listening = False, ts_ssl_flag = ssl,
      ts_acceptor_open = False, ts_conn_pool = {}, ts_conns = (\<lambda>_. new_tcp_connection ssl (Address_v4 0)),
      ts_pending = {}, ts_next = 0, ts_locked = False, ts_no_more_connections = False, ts_has_stopped = False\<rparr>"

text \<open>
  \<open>handle_connection\<close> is virtual: what its synchronous part comes to is an argument. It leaves
  operations in flight, or calls \<open>finish\<close> before it returns, or throws.
\<close>

datatype conn_result = In_progress tcp_connection | Finishes tcp_connection | Raises exn tcp_connection

type_synonym connection_handler = "tcp_connection \<Rightarrow> conn_result"

text \<open>The default of the base class.\<close>

definition base_handle_connection :: connection_handler where
  "base_handle_connection c = Finishes (set_lifecycle Lifecycle_close c)"

text \<open>The outcome of an operation; locking a mutex the thread holds already never returns.\<close>

datatype ts_outcome = Ts_ok tcp_server | Ts_deadlock | Ts_raised exn tcp_server

definition set_conn :: "nat \<Rightarrow> tcp_connection \<Rightarrow> tcp_server \<Rightarrow> tcp_server" where
  "set_conn i c s = s\<lparr>ts_conns := (ts_conns s)(i := c)\<rparr>"

definition begin_op :: "pending_op \<Rightarrow> tcp_server \<Rightarrow> tcp_server" where
  "begin_op p s = s\<lparr>ts_pending := insert p (ts_pending s)\<rparr>"

definition end_op :: "pending_op \<Rightarrow> tcp_server \<Rightarrow> tcp_server" where
  "end_op p s = s\<lparr>ts_pending := ts_pending s - {p}\<rparr>"

text \<open>A connection of the pool with \<open>unique()\<close> true is one no operation refers to.\<close>

definition referenced :: "tcp_server \<Rightarrow> nat \<Rightarrow> bool" where
  "referenced s i \<longleftrightarrow> i \<in> op_conn ` ts_pending s"

definition prune_connections :: "tcp_server \<Rightarrow> tcp_server" where
  "prune_connections s =
     (let orphans = {i \<in> ts_conn_pool s. \<not> referenced s i}
      in s\<lparr>ts_conns := (\<lambda>i. if i \<in> orphans then close_conn (ts_conns s i) else ts_conns s i),
           ts_conn_pool := ts_conn_pool s - orphans\<rparr>)"

definition listen :: "tcp_server \<Rightarrow> ts_outcome" where
  "listen s =
     (if ts_locked s then Ts_deadlock
      else if ts_listening s then
        (let i = ts_next s;
             s1 = prune_connections
                    (set_conn i (new_tcp_connection (ts_ssl_flag s) (Address_v4 0)) (s\<lparr>ts_next := Suc i\<rparr>));
             s2 = s1\<lparr>ts_conn_pool := insert i (ts_conn_pool s1)\<rparr>
         in Ts_ok (begin_op (Accepting i) (set_conn i (async_accept (ts_conns s2 i)) s2)))
      else Ts_ok s)"

text \<open>
  \<open>finish_connection\<close> holds the mutex for its whole body, the call of \<open>handle_connection\<close>
  included; when that calls \<open>finish\<close>, it is called again by the thread that holds the mutex.
\<close>

definition bind_outcome :: "(tcp_server \<Rightarrow> ts_outcome) \<Rightarrow> ts_outcome \<Rightarrow> ts_outcome" where
  "bind_outcome f r = (case r of Ts_ok s \<Rightarrow> f s | _ \<Rightarrow> r)"

definition unlock :: "tcp_server \<Rightarrow> tcp_server" where
  "unlock s = s\<lparr>ts_locked := False\<rparr>"

function finish_connection :: "connection_handler \<Rightarrow> nat \<Rightarrow> tcp_server \<Rightarrow> ts_outcome" where
  "finish_connection hc i s =
     (if ts_locked s then Ts_deadlock
      else
        (let s1 = s\<lparr>ts_locked := True\<rparr>
         in if ts_listening s1 \<and> get_keep_alive (ts_conns s1 i) then
              (case hc (ts_conns s1 i) of
                 In_progress c \<Rightarrow> Ts_ok (unlock (begin_op (Handling i) (set_conn i c s1)))
               | Raises e c \<Rightarrow> Ts_raised e (unlock (set_conn i c s1))
               | Finishes c \<Rightarrow>
                   bind_outcome (\<lambda>s2. Ts_ok (unlock s2)) (finish_connection hc i (set_conn i c s1)))
            else
              (let s2 = s1\<lparr>ts_conn_pool := ts_conn_pool s1 - {i}\<rparr>
               in Ts_ok (unlock
                    (if \<not> ts_listening s2 \<and> ts_conn_pool s2 = {}
                     then s2\<lparr>ts_no_more_connections := True\<rparr> else s2)))))"
  by pat_completeness auto
termination
  by (relation "measure (\<lambda>(hc, i, s). if ts_locked s then 0 else 1)") (auto simp: set_conn_def)

declare finish_connection.simps [simp del]

text \<open>\<open>handle_connection\<close> called without the lock.\<close>

definition run_handle_connection :: "connection_handler \<Rightarrow> nat \<Rightarrow> tcp_server \<Rightarrow> ts_outcome" where
  "run_handle_connection hc i s =
     (case hc (ts_conns s i) of
        In_progress c \<Rightarrow> Ts_ok (begin_op (Handling i) (set_conn i c s))
      | Raises e c \<Rightarrow> Ts_raised e (set_conn i c s)
      | Finishes c \<Rightarrow> finish_connection hc i (set_conn i c s))"

text \<open>
  The completion of an accept. The callback refers to the connection until it returns, so the
  operation counts as in flight while \<open>listen\<close> prunes.
\<close>

definition handle_accept ::
  "connection_handler \<Rightarrow> nat \<Rightarrow> bool \<Rightarrow> ip_address \<Rightarrow> tcp_server \<Rightarrow> ts_outcome" where
  "handle_accept hc i accept_error ip s =
     (if accept_error then
        bind_outcome (\<lambda>s1. finish_connection hc i (end_op (Accepting i) s1))
          (if ts_listening s then listen s else Ts_ok s)
      else
        (let s0 = set_conn i ((ts_conns s i)\<lparr>tc_open := True, tc_remote_ip := ip\<rparr>) s
         in bind_outcome
              (\<lambda>s1. let s2 = end_op (Accepting i) s1
                    in if tc_ssl_flag (ts_conns s2 i)
                       then Ts_ok (begin_op (Handshaking i) (set_conn i (async_handshake_server (ts_conns s2 i)) s2))
                       else run_handle_connection hc i s2)
              (if ts_listening s0 then listen s0 else Ts_ok s0)))"

definition handle_ssl_handshake :: "connection_handler \<Rightarrow> nat \<Rightarrow> bool \<Rightarrow> tcp_server \<Rightarrow> ts_outcome" where
  "handle_ssl_handshake hc i handshake_error s =
     (let s1 = end_op (Handshaking i) s
      in if handshake_error then finish_connection hc i s1 else run_handle_connection hc i s1)"

text \<open>
  \<open>start\<close>: opening the acceptor fails when it is open already; the argument is an exception of
  \<open>bind\<close> or \<open>listen\<close> of the acceptor, if there is one.
\<close>

definition start :: "exn option \<Rightarrow> tcp_server \<Rightarrow> ts_outcome" where
  "start bind_error s =
     (if \<not> ts_listening s then
        (if ts_acceptor_open s then Ts_raised System_error s
         else
           (let s1 = s\<lparr>ts_acceptor_open := True\<rparr>
            in case bind_error of
                 Some e \<Rightarrow> Ts_raised e s1
               | None \<Rightarrow>
                   bind_outcome (\<lambda>s2. Ts_ok (s2\<lparr>ts_scheduler := add_active_user (ts_scheduler s2)\<rparr>))
                     (listen (s1\<lparr>ts_listening := True\<rparr>))))
      else Ts_ok s)"

text \<open>\<open>stop\<close> up to its loop, and one round of the loop: \<open>Inl\<close> waits for a notification.\<close>

definition stop_begin :: "bool \<Rightarrow> tcp_server \<Rightarrow> tcp_server" where
  "stop_begin wait_until_finished s =
     (let s1 = s\<lparr>ts_listening := False, ts_acceptor_open := False\<rparr>
      in if \<not> wait_until_finished
         then s1\<lparr>ts_conns := (\<lambda>i. if i \<in> ts_conn_pool s1 then close_conn (ts_conns s1 i) else ts_conns s1 i)\<rparr>
         else s1)"

definition stop_round :: "tcp_server \<Rightarrow> tcp_server + tcp_server" where
  "stop_round s =
     (let s1 = (if ts_conn_pool s \<noteq> {} then prune_connections s else s)
      in if ts_conn_pool s1 \<noteq> {} then Inl s1
         else Inr (s1\<lparr>ts_scheduler := remove_active_user (ts_scheduler s1), ts_has_stopped := True\<rparr>))"

text \<open>The destructor: \<open>stop(false)\<close> when the server listens; \<open>Inl\<close> waits in its loop.\<close>

definition destroy_tcp_server :: "tcp_server \<Rightarrow> tcp_server + tcp_server" where
  "destroy_tcp_server s = (if ts_listening s then stop_round (stop_begin False s) else Inr s)"

section \<open>The transition system\<close>

text \<open>
  One thread calls \<open>start\<close> and \<open>stop\<close>; the flag is true while it waits in \<open>stop\<close>. The threads of
  the scheduler complete operations, in any order: a step is one completion with all it calls.
  While an operation of \<open>handle_connection\<close> is in flight, the code that runs it may do anything
  to the connection: the rules leave its new state open. An operation may also be dropped
  without finishing the connection (an exception left it), and a thread may write to a connection
  of the pool (a broadcast to WebSockets).
\<close>

type_synonym server_state = "tcp_server \<times> bool"

inductive server_step :: "connection_handler \<Rightarrow> server_state \<Rightarrow> server_state \<Rightarrow> bool" for hc where
  step_start: "start e s = Ts_ok s' \<or> start e s = Ts_raised x s' \<Longrightarrow> server_step hc (s, False) (s', False)"
| step_stop: "ts_listening s \<Longrightarrow> server_step hc (s, False) (stop_begin w s, True)"
| step_wait: "stop_round s = Inl s' \<Longrightarrow> server_step hc (s, True) (s', True)"
| step_stopped: "stop_round s = Inr s' \<Longrightarrow> server_step hc (s, True) (s', False)"
| step_accept:
    "Accepting i \<in> ts_pending s \<Longrightarrow> handle_accept hc i err ip s = Ts_ok s' \<or> handle_accept hc i err ip s = Ts_raised x s'
     \<Longrightarrow> server_step hc (s, st) (s', st)"
| step_handshake:
    "Handshaking i \<in> ts_pending s
     \<Longrightarrow> handle_ssl_handshake hc i err s = Ts_ok s' \<or> handle_ssl_handshake hc i err s = Ts_raised x s'
     \<Longrightarrow> server_step hc (s, st) (s', st)"
| step_progress: "Handling i \<in> ts_pending s \<Longrightarrow> server_step hc (s, st) (set_conn i c s, st)"
| step_finish:
    "Handling i \<in> ts_pending s
     \<Longrightarrow> finish_connection hc i (end_op (Handling i) s) = Ts_ok s' \<or> finish_connection hc i (end_op (Handling i) s) = Ts_raised x s'
     \<Longrightarrow> server_step hc (s, st) (s', st)"
| step_lost: "Handling i \<in> ts_pending s \<Longrightarrow> server_step hc (s, st) (end_op (Handling i) s, st)"
| step_broadcast:
    "i \<in> ts_conn_pool s \<Longrightarrow> server_step hc (s, st) (set_conn i (async_write bufs (ts_conns s i)) s, st)"

inductive server_reach :: "connection_handler \<Rightarrow> server_state \<Rightarrow> bool" for hc where
  reach_init: "server_reach hc (new_tcp_server n ssl, False)"
| reach_step: "server_reach hc s \<Longrightarrow> server_step hc s s' \<Longrightarrow> server_reach hc s'"

section \<open>Invariant\<close>

text \<open>
  The mutex is free between the steps; every connection an operation refers to is in the pool,
  and it has one operation.
\<close>

definition tracked :: "tcp_server \<Rightarrow> bool" where
  "tracked s \<longleftrightarrow>
     \<not> ts_locked s \<and> (\<forall>i\<in>ts_conn_pool s. i < ts_next s)
     \<and> op_conn ` ts_pending s \<subseteq> ts_conn_pool s \<and> inj_on op_conn (ts_pending s)"

definition accepts :: "tcp_server \<Rightarrow> nat set" where
  "accepts s = {i. Accepting i \<in> ts_pending s}"

text \<open>
  Moreover a listening server has exactly one accept in flight; a server that is neither
  listening nor stopping has no connection; and the server is a user of its scheduler from
  \<open>start\<close> to the end of \<open>stop\<close>.
\<close>

fun server_inv :: "server_state \<Rightarrow> bool" where
  "server_inv (s, stopping) \<longleftrightarrow>
     tracked s
     \<and> (ts_listening s \<longrightarrow> \<not> stopping \<and> ts_acceptor_open s \<and> (\<exists>i. accepts s = {i}))
     \<and> (\<not> ts_listening s \<and> \<not> stopping \<longrightarrow> ts_conn_pool s = {})
     \<and> sc_active_users (ts_scheduler s) = (if ts_listening s \<or> stopping then 1 else 0)"

lemmas server_ops = set_conn_def begin_op_def end_op_def unlock_def

text \<open>What finishing or handling one connection leaves alone.\<close>

definition same_flags :: "tcp_server \<Rightarrow> tcp_server \<Rightarrow> bool" where
  "same_flags s s' \<longleftrightarrow>
     ts_listening s' = ts_listening s \<and> ts_acceptor_open s' = ts_acceptor_open s
     \<and> ts_scheduler s' = ts_scheduler s \<and> ts_next s' = ts_next s \<and> ts_conn_pool s' \<subseteq> ts_conn_pool s"

lemma same_flags_refl [simp]: "same_flags s s"
  by (simp add: same_flags_def)

text \<open>An outcome after which the connection has an operation again, or none and no new ones.\<close>

definition settled :: "nat \<Rightarrow> tcp_server \<Rightarrow> tcp_server \<Rightarrow> bool" where
  "settled i s s' \<longleftrightarrow> tracked s' \<and> same_flags s s'
     \<and> (ts_pending s' = ts_pending s \<or> ts_pending s' = insert (Handling i) (ts_pending s))"

fun returned :: "ts_outcome \<Rightarrow> tcp_server option" where
  "returned (Ts_ok s) = Some s"
| "returned (Ts_raised e s) = Some s"
| "returned Ts_deadlock = None"

lemma returned_iff: "returned r = Some s \<longleftrightarrow> r = Ts_ok s \<or> (\<exists>e. r = Ts_raised e s)"
  by (cases r) auto

lemma tracked_begin:
  assumes "tracked s" "i \<in> ts_conn_pool s" "i \<notin> op_conn ` ts_pending s" "op_conn p = i"
  shows "tracked (begin_op p (set_conn i c s))"
  using assms by (auto simp: tracked_def server_ops)

lemma tracked_ops [simp]:
  "tracked (s\<lparr>ts_conns := f\<rparr>) = tracked s" "tracked (set_conn i c s) = tracked s" "tracked s \<Longrightarrow> tracked (end_op p s)"
  by (auto simp: tracked_def server_ops intro: inj_on_subset)

lemma locked_deadlock: "ts_locked s \<Longrightarrow> finish_connection hc i s = Ts_deadlock"
  by (subst finish_connection.simps) simp

lemma finish_connection_eq:
  assumes "\<not> ts_locked s"
  shows "finish_connection hc i s =
     (if ts_listening s \<and> get_keep_alive (ts_conns s i) then
        (case hc (ts_conns s i) of
           In_progress c \<Rightarrow> Ts_ok (begin_op (Handling i) (set_conn i c s))
         | Raises e c \<Rightarrow> Ts_raised e (set_conn i c s)
         | Finishes c \<Rightarrow> Ts_deadlock)
      else Ts_ok (s\<lparr>ts_conn_pool := ts_conn_pool s - {i},
             ts_no_more_connections := ts_no_more_connections s \<or> (\<not> ts_listening s \<and> ts_conn_pool s - {i} = {})\<rparr>))"
proof -
  have eq: "s\<lparr>ts_locked := False\<rparr> = s" using assms by simp
  show ?thesis
    using assms eq
    by (subst finish_connection.simps)
       (auto simp: Let_def server_ops locked_deadlock bind_outcome_def split: conn_result.split)
qed

lemma finish_settled:
  assumes "tracked s" "i \<in> ts_conn_pool s" "i \<notin> op_conn ` ts_pending s"
    and "returned (finish_connection hc i s) = Some s'"
  shows "settled i s s'"
proof -
  have unlocked: "\<not> ts_locked s" using assms(1) by (simp add: tracked_def)
  note started = tracked_begin [OF assms(1-3), of "Handling i"]
  have gone: "tracked (s\<lparr>ts_conn_pool := ts_conn_pool s - {i}, ts_no_more_connections := b\<rparr>)" for b
    using assms(1,3) by (auto simp: tracked_def)
  show ?thesis
    using assms(4) started gone assms(1)
    by (auto simp: finish_connection_eq [OF unlocked] settled_def same_flags_def server_ops split: if_splits conn_result.splits)
qed

lemma run_settled:
  assumes "tracked s" "i \<in> ts_conn_pool s" "i \<notin> op_conn ` ts_pending s"
    and "returned (run_handle_connection hc i s) = Some s'"
  shows "settled i s s'"
proof (cases "hc (ts_conns s i)")
  case (Finishes c)
  then have "settled i (set_conn i c s) s'"
    using assms by (intro finish_settled) (simp_all add: run_handle_connection_def server_ops)
  then show ?thesis by (simp add: settled_def same_flags_def server_ops)
qed (use assms tracked_begin [OF assms(1-3), of "Handling i"] in
      \<open>auto simp: run_handle_connection_def settled_def same_flags_def server_ops\<close>)

lemma prune_tracked:
  assumes "tracked s"
  shows "tracked (prune_connections s)" "ts_conn_pool (prune_connections s) = op_conn ` ts_pending s"
    "ts_pending (prune_connections s) = ts_pending s"
  using assms by (auto simp: tracked_def prune_connections_def Let_def referenced_def)

lemma listen_eq:
  assumes "tracked s" and "ts_listening s"
  shows "\<exists>s'. listen s = Ts_ok s' \<and> tracked s' \<and> ts_pending s' = insert (Accepting (ts_next s)) (ts_pending s)
    \<and> ts_listening s' \<and> ts_acceptor_open s' = ts_acceptor_open s \<and> ts_scheduler s' = ts_scheduler s
    \<and> ts_conn_pool s' = insert (ts_next s) (op_conn ` ts_pending s) \<and> ts_next s \<notin> ts_conn_pool s"
proof -
  define s0 where "s0 = set_conn (ts_next s) (new_tcp_connection (ts_ssl_flag s) (Address_v4 0)) (s\<lparr>ts_next := Suc (ts_next s)\<rparr>)"
  have t0: "tracked s0" using assms(1) by (auto simp: tracked_def s0_def set_conn_def less_Suc_eq)
  have fresh: "ts_next s \<notin> ts_conn_pool s" using assms(1) by (auto simp: tracked_def)
  have refs: "op_conn ` ts_pending s \<subseteq> ts_conn_pool s" "inj_on op_conn (ts_pending s)" "\<not> ts_locked s"
    using assms(1) by (simp_all add: tracked_def)
  have f0: "ts_pending s0 = ts_pending s" "ts_next s0 = Suc (ts_next s)" "ts_listening s0"
    "ts_acceptor_open s0 = ts_acceptor_open s" "ts_scheduler s0 = ts_scheduler s" "\<not> ts_locked s0"
    using assms(2) refs(3) by (simp_all add: s0_def set_conn_def)
  define s1 where "s1 = prune_connections s0"
  have f1: "ts_pending s1 = ts_pending s" "ts_next s1 = Suc (ts_next s)" "ts_listening s1"
    "ts_acceptor_open s1 = ts_acceptor_open s" "ts_scheduler s1 = ts_scheduler s" "\<not> ts_locked s1"
    "ts_conn_pool s1 = op_conn ` ts_pending s"
    using f0 prune_tracked [OF t0] by (simp_all add: s1_def) (simp_all add: prune_connections_def Let_def)
  let ?s = "begin_op (Accepting (ts_next s)) (set_conn (ts_next s) (async_accept (ts_conns s1 (ts_next s)))
      (s1\<lparr>ts_conn_pool := insert (ts_next s) (ts_conn_pool s1)\<rparr>))"
  have "listen s = Ts_ok ?s"
    using assms(2) refs(3) by (simp add: listen_def Let_def s0_def [symmetric] s1_def [symmetric])
  moreover have "tracked ?s"
    using refs fresh f1 assms(1) by (auto simp: tracked_def server_ops less_Suc_eq)
  ultimately show ?thesis using f1 fresh by (intro exI [of _ ?s]) (simp add: server_ops)
qed

text \<open>An operation ends, the connection is dealt with, nothing else changes.\<close>

lemma end_then_settled:
  assumes "tracked s" "p \<in> ts_pending s" "op_conn p = i" "settled i (end_op p s) s'"
  shows "tracked s'" "accepts s' = accepts s - {i. p = Accepting i}" "same_flags s s'"
  using assms by (auto simp: settled_def same_flags_def accepts_def server_ops)

lemma ended_unreferenced:
  assumes "tracked s" "p \<in> ts_pending s" "op_conn p = i"
  shows "tracked (end_op p s)" "i \<in> ts_conn_pool (end_op p s)" "i \<notin> op_conn ` ts_pending (end_op p s)"
proof -
  show "tracked (end_op p s)" using assms(1) by simp
  show "i \<in> ts_conn_pool (end_op p s)" using assms by (auto simp: tracked_def end_op_def)
  show "i \<notin> op_conn ` ts_pending (end_op p s)"
    using assms by (auto simp: tracked_def end_op_def inj_on_def)
qed

lemma server_inv_settled:
  assumes "server_inv (s, st)" "tracked s'" "same_flags s s'" "\<not> ts_listening s \<or> (\<exists>i. accepts s' = {i})"
  shows "server_inv (s', st)"
  using assms by (auto simp: same_flags_def)

lemma server_inv_after_op:
  assumes "server_inv (s, st)" "p \<in> ts_pending s" "op_conn p = i" "\<And>j. p \<noteq> Accepting j" "settled i (end_op p s) s'"
  shows "server_inv (s', st)"
proof (rule server_inv_settled [OF assms(1)])
  have t: "tracked s" using assms(1) by simp
  note e = end_then_settled [OF t assms(2,3,5)]
  show "tracked s'" "same_flags s s'" by (rule e)+
  have "accepts s' = accepts s" using e(2) assms(4) by simp
  then show "\<not> ts_listening s \<or> (\<exists>i. accepts s' = {i})" using assms(1) by auto
qed

text \<open>What \<open>handle_accept\<close> does after it has called \<open>listen\<close>.\<close>

abbreviation accept_rest :: "connection_handler \<Rightarrow> nat \<Rightarrow> bool \<Rightarrow> tcp_server \<Rightarrow> ts_outcome" where
  "accept_rest hc i err s1 \<equiv>
     (if err then finish_connection hc i (end_op (Accepting i) s1)
      else let s2 = end_op (Accepting i) s1
           in if tc_ssl_flag (ts_conns s2 i)
              then Ts_ok (begin_op (Handshaking i) (set_conn i (async_handshake_server (ts_conns s2 i)) s2))
              else run_handle_connection hc i s2)"

lemma accept_settled:
  assumes "tracked s1" "Accepting i \<in> ts_pending s1"
    and "returned (accept_rest hc i accept_error s1) = Some s'"
  shows "tracked s' \<and> same_flags s1 s' \<and> accepts s' = accepts s1 - {i}"
proof -
  note e = ended_unreferenced [OF assms(1,2) op_conn.simps(1)]
  show ?thesis
  proof (cases "accept_error \<or> \<not> tc_ssl_flag (ts_conns (end_op (Accepting i) s1) i)")
    case True
    then have "settled i (end_op (Accepting i) s1) s'"
      using assms(3) finish_settled [OF e] run_settled [OF e] by (auto split: if_splits)
    from end_then_settled [OF assms(1,2) op_conn.simps(1) this] show ?thesis by simp
  next
    case False
    then show ?thesis
      using assms(3) tracked_begin [OF e, of "Handshaking i"]
      by (auto simp: Let_def same_flags_def accepts_def server_ops)
  qed
qed

lemma handle_accept_form:
  "\<exists>s0. handle_accept hc i err ip s = bind_outcome (accept_rest hc i err) (if ts_listening s0 then listen s0 else Ts_ok s0)
   \<and> (\<exists>f. s0 = s\<lparr>ts_conns := f\<rparr>)"
proof (cases err)
  case True
  have "\<exists>f. s = s\<lparr>ts_conns := f\<rparr>" by (rule exI [of _ "ts_conns s"]) simp
  with True show ?thesis by (intro exI [of _ s]) (simp add: handle_accept_def)
next
  case False
  let ?s = "set_conn i ((ts_conns s i)\<lparr>tc_open := True, tc_remote_ip := ip\<rparr>) s"
  have "\<exists>f. ?s = s\<lparr>ts_conns := f\<rparr>" by (auto simp: set_conn_def)
  with False show ?thesis by (intro exI [of _ ?s]) (simp add: handle_accept_def Let_def)
qed

lemma handle_accept_inv:
  assumes "server_inv (s, st)" "Accepting i \<in> ts_pending s"
    and "returned (handle_accept hc i err ip s) = Some s'"
  shows "server_inv (s', st)"
proof -
  obtain s0 f where ha: "handle_accept hc i err ip s = bind_outcome (accept_rest hc i err) (if ts_listening s0 then listen s0 else Ts_ok s0)" and s0: "s0 = s\<lparr>ts_conns := f\<rparr>"
    using handle_accept_form [of hc i err ip s] by blast
  have t0: "tracked s0" using assms(1) by (simp add: s0)
  show ?thesis
  proof (cases "ts_listening s")
    case True
    then obtain s1 where s1: "listen s0 = Ts_ok s1" "tracked s1"
      "ts_pending s1 = insert (Accepting (ts_next s)) (ts_pending s)" "ts_listening s1"
      "ts_acceptor_open s1 = ts_acceptor_open s" "ts_scheduler s1 = ts_scheduler s" "ts_next s \<notin> ts_conn_pool s"
      using listen_eq [OF t0] by (auto simp: s0)
    have i: "i \<in> ts_conn_pool s" using assms by (force simp: tracked_def)
    obtain k where "accepts s = {k}" using assms(1) True by auto
    moreover have "i \<in> accepts s" using assms(2) by (simp add: accepts_def)
    ultimately have "accepts s = {i}" by simp
    then have acc1: "accepts s1 = {i, ts_next s}" using s1(3) by (auto simp: accepts_def)
    have "tracked s' \<and> same_flags s1 s' \<and> accepts s' = accepts s1 - {i}"
      using accept_settled [OF s1(2), of i err hc s'] assms(2,3) ha s1(1,3) True
      by (simp add: bind_outcome_def s0)
    then show ?thesis using assms(1) True s1 i acc1 by (auto simp: same_flags_def)
  next
    case False
    have f0: "ts_listening s0 = ts_listening s" "ts_pending s0 = ts_pending s" by (simp_all add: s0)
    with False have "tracked s' \<and> same_flags s0 s' \<and> accepts s' = accepts s0 - {i}"
      using accept_settled [OF t0, of i err hc s'] assms(2,3) ha by (simp add: bind_outcome_def)
    then show ?thesis using assms(1) False by (intro server_inv_settled [OF assms(1)]) (auto simp: same_flags_def s0)
  qed
qed

lemma stop_round_tracked:
  assumes "tracked s"
  shows "stop_round s =
     (if ts_pending s \<noteq> {} then Inl (prune_connections s)
      else Inr ((if ts_conn_pool s \<noteq> {} then prune_connections s else s)
             \<lparr>ts_scheduler := remove_active_user (ts_scheduler s), ts_has_stopped := True\<rparr>))"
proof -
  note p = prune_tracked [OF assms]
  have "ts_pending s = {}" if "ts_conn_pool s = {}" using assms that by (auto simp: tracked_def)
  then show ?thesis
    using p(2) by (auto simp: stop_round_def Let_def) (simp_all add: prune_connections_def Let_def)
qed

lemma prune_flags:
  "ts_listening (prune_connections s) = ts_listening s" "ts_scheduler (prune_connections s) = ts_scheduler s"
  "ts_acceptor_open (prune_connections s) = ts_acceptor_open s"
  by (simp_all add: prune_connections_def Let_def)

lemma start_inv:
  assumes "server_inv (s, False)" "returned (start e s) = Some s'"
  shows "server_inv (s', False)"
proof (cases "ts_listening s \<or> ts_acceptor_open s \<or> e \<noteq> None")
  case True
  with assms have "s' = s \<or> s' = s\<lparr>ts_acceptor_open := True\<rparr>"
    by (auto simp: start_def Let_def split: if_splits option.splits)
  moreover have "tracked (s\<lparr>ts_acceptor_open := True\<rparr>) = tracked s" "accepts (s\<lparr>ts_acceptor_open := True\<rparr>) = accepts s"
    by (simp_all add: tracked_def accepts_def)
  ultimately show ?thesis using assms(1) by auto
next
  case False
  let ?s = "s\<lparr>ts_acceptor_open := True, ts_listening := True\<rparr>"
  have empty: "ts_conn_pool s = {}" "ts_pending s = {}" "sc_active_users (ts_scheduler s) = 0"
    using assms(1) False by (auto simp: tracked_def)
  have "tracked ?s" using assms(1) by (simp add: tracked_def)
  then obtain s1 where s1: "listen ?s = Ts_ok s1" "tracked s1" "ts_pending s1 = {Accepting (ts_next s)}"
    "ts_listening s1" "ts_acceptor_open s1" "ts_scheduler s1 = ts_scheduler s"
    using listen_eq [of ?s] empty by auto
  have "s' = s1\<lparr>ts_scheduler := add_active_user (ts_scheduler s1)\<rparr>"
    using assms(2) False s1(1) by (simp add: start_def Let_def bind_outcome_def)
  moreover have "sc_active_users (add_active_user (ts_scheduler s)) = 1"
    using empty(3) by (simp add: add_active_user_def Let_def startup_def start_threads_def keep_running_def)
  ultimately show ?thesis using s1 by (auto simp: tracked_def accepts_def)
qed

lemma server_step_inv: "server_step hc x y \<Longrightarrow> server_inv x \<Longrightarrow> server_inv y"
proof (induction rule: server_step.induct)
  case (step_start e s s' x)
  then show ?case using start_inv [of s e s'] by (auto simp: returned_iff)
next
  case (step_stop s w)
  then show ?case by (auto simp: stop_begin_def Let_def tracked_def)
next
  case (step_wait s s')
  then have t: "tracked s" by simp
  from step_wait show ?case
    using prune_tracked [OF t] by (auto simp: stop_round_tracked [OF t] prune_flags split: if_splits)
next
  case (step_stopped s s')
  then have t: "tracked s" "ts_pending s = {}" by (auto simp: stop_round_tracked split: if_splits)
  have "\<not> ts_listening s" "sc_active_users (ts_scheduler s) = 1" using step_stopped by auto
  with step_stopped t prune_tracked [OF t(1)] show ?case
    by (auto simp: stop_round_tracked prune_flags tracked_def remove_active_user_def Let_def split: if_splits)
next
  case (step_accept i s err ip s' x st)
  then show ?case using handle_accept_inv [of s st i hc err ip s'] by (auto simp: returned_iff)
next
  case (step_handshake i s err s' x st)
  then have t: "tracked s" by simp
  note e = ended_unreferenced [OF t step_handshake(1) op_conn.simps(2)]
  have "settled i (end_op (Handshaking i) s) s'"
    using step_handshake(2) finish_settled [OF e, of hc s'] run_settled [OF e, of hc s']
    by (auto simp: handle_ssl_handshake_def Let_def returned_iff split: if_splits)
  from server_inv_after_op [OF step_handshake(3) step_handshake(1) op_conn.simps(2) _ this] show ?case by simp
next
  case (step_progress i s st c)
  then show ?case by (auto simp: accepts_def set_conn_def)
next
  case (step_finish i s s' x st)
  then have t: "tracked s" by simp
  note e = ended_unreferenced [OF t step_finish(1) op_conn.simps(3)]
  have "settled i (end_op (Handling i) s) s'" using step_finish(2) finish_settled [OF e] by (auto simp: returned_iff)
  from server_inv_after_op [OF step_finish(3) step_finish(1) op_conn.simps(3) _ this] show ?case by simp
next
  case (step_lost i s st)
  then have t: "tracked s" by simp
  have "settled i (end_op (Handling i) s) (end_op (Handling i) s)" using t by (simp add: settled_def)
  from server_inv_after_op [OF step_lost(2) step_lost(1) op_conn.simps(3) _ this] show ?case by simp
next
  case (step_broadcast i s st bufs)
  then show ?case by (auto simp: accepts_def set_conn_def)
qed

lemma server_reach_inv: "server_reach hc x \<Longrightarrow> server_inv x"
proof (induction rule: server_reach.induct)
  case (reach_init n ssl)
  then show ?case by (simp add: new_tcp_server_def tracked_def new_scheduler_def)
qed (rule server_step_inv)

section \<open>An abstract server\<close>

text \<open>
  What a client of the class sees: a server that is stopped, runs or is stopping, and the set of
  connections something is going on with.
\<close>

datatype server_mode = Stopped | Running | Stopping

type_synonym pool_state = "server_mode \<times> nat set"

inductive pool_step :: "pool_state \<Rightarrow> pool_state \<Rightarrow> bool" where
  pool_start: "pool_step (Stopped, {}) (Running, {i})"
| pool_open: "i \<notin> L \<Longrightarrow> pool_step (Running, L) (Running, insert i L)"
| pool_replace: "i \<in> L \<Longrightarrow> j \<notin> L \<Longrightarrow> pool_step (Running, L) (Running, insert j L - {i})"
| pool_close: "i \<in> L \<Longrightarrow> pool_step (m, L) (m, L - {i})"
| pool_stop: "pool_step (Running, L) (Stopping, L)"
| pool_stopped: "pool_step (Stopping, {}) (Stopped, {})"

inductive_simps pool_step_to_stopped: "pool_step x (Stopped, L)"

text \<open>The abstract server is stopped only without connections.\<close>

lemma pool_stopped_empty:
  assumes "pool_step\<^sup>*\<^sup>* (Stopped, {}) x" and "fst x = Stopped"
  shows "snd x = {}"
  using assms
proof (induction rule: rtranclp_induct)
  case (step y z)
  obtain A where z: "z = (Stopped, A)" using step.prems by (cases z) simp
  from step.hyps(2) step.IH show ?case unfolding z pool_step_to_stopped by auto
qed simp

definition live :: "tcp_server \<Rightarrow> nat set" where
  "live s = op_conn ` ts_pending s"

fun server_abs :: "server_state \<Rightarrow> pool_state" where
  "server_abs (s, stopping) =
     (if ts_listening s then Running else if stopping then Stopping else Stopped, live s)"

text \<open>Refinement of a transition system under an invariant, steps that change nothing allowed.\<close>

locale refinement =
  fixes cstep :: "'c \<Rightarrow> 'c \<Rightarrow> bool" and astep :: "'a \<Rightarrow> 'a \<Rightarrow> bool"
    and abs :: "'c \<Rightarrow> 'a" and inv :: "'c \<Rightarrow> bool"
  assumes inv_step: "cstep c c' \<Longrightarrow> inv c \<Longrightarrow> inv c'"
    and simulated: "cstep c c' \<Longrightarrow> inv c \<Longrightarrow> abs c' = abs c \<or> astep (abs c) (abs c')"
begin

lemma inv_run: "cstep\<^sup>*\<^sup>* c c' \<Longrightarrow> inv c \<Longrightarrow> inv c'"
  by (induction rule: rtranclp_induct) (auto intro: inv_step)

lemma simulated_run:
  assumes "cstep\<^sup>*\<^sup>* c c'" and "inv c"
  shows "astep\<^sup>*\<^sup>* (abs c) (abs c')"
  using assms(1)
proof (induction rule: rtranclp_induct)
  case (step c1 c2)
  have "inv c1" using inv_run [OF step(1) assms(2)] .
  with simulated [OF step(2)] step.IH show ?case by (auto intro: rtranclp.rtrancl_into_rtrancl)
qed simp

end

lemma live_end_op: "tracked s \<Longrightarrow> p \<in> ts_pending s \<Longrightarrow> live (end_op p s) = live s - {op_conn p}"
  by (auto simp: tracked_def live_def end_op_def inj_on_def)

lemma live_simps [simp]:
  "live (begin_op p s) = insert (op_conn p) (live s)" "live (set_conn i c s) = live s"
  "live (s\<lparr>ts_conns := f\<rparr>) = live s" "live (prune_connections s) = live s"
  by (auto simp: live_def server_ops prune_connections_def Let_def)

lemma live_pending: "p \<in> ts_pending s \<Longrightarrow> op_conn p \<in> live s"
  by (simp add: live_def)

text \<open>The connection of a finished operation is closed, or goes on.\<close>

lemma settled_live: "settled i s s' \<Longrightarrow> live s' = live s \<or> live s' = insert i (live s)"
  by (auto simp: settled_def live_def)

lemma close_or_same:
  assumes "i \<in> L" "L' = L - {i} \<or> L' = L"
  shows "(m, L') = (m, L) \<or> pool_step (m, L) (m, L')"
  using assms by (auto intro: pool_close)

lemma step_after_op:
  assumes "server_inv (s, st)" "p \<in> ts_pending s" "op_conn p = i" "settled i (end_op p s) s'"
  shows "server_abs (s', st) = server_abs (s, st) \<or> pool_step (server_abs (s, st)) (server_abs (s', st))"
proof -
  have t: "tracked s" using assms(1) by simp
  have fl: "ts_listening s' = ts_listening s" using assms(4) by (simp add: settled_def same_flags_def end_op_def)
  have i: "i \<in> live s" using live_pending [OF assms(2)] assms(3) by simp
  then have "live s' = live s - {i} \<or> live s' = live s"
    using settled_live [OF assms(4)] live_end_op [OF t assms(2)] assms(3) by auto
  from close_or_same [OF i this] fl show ?thesis by simp
qed

text \<open>What \<open>handle_accept\<close> does to the connections: the next one is opened, this one goes on or not.\<close>

lemma accept_live:
  assumes "tracked s1" "Accepting i \<in> ts_pending s1"
    and "returned (accept_rest hc i accept_error s1) = Some s'"
  shows "live s' = live s1 - {i} \<or> live s' = live s1"
proof -
  note e = ended_unreferenced [OF assms(1,2) op_conn.simps(1)]
  have l: "live (end_op (Accepting i) s1) = live s1 - {i}" "i \<in> live s1"
    using live_end_op [OF assms(1,2)] live_pending [OF assms(2)] by simp_all
  show ?thesis
  proof (cases "accept_error \<or> \<not> tc_ssl_flag (ts_conns (end_op (Accepting i) s1) i)")
    case True
    then have "settled i (end_op (Accepting i) s1) s'"
      using assms(3) finish_settled [OF e] run_settled [OF e] by (auto split: if_splits)
    with settled_live [OF this] l show ?thesis by auto
  next
    case False
    let ?s2 = "end_op (Accepting i) s1"
    have "s' = begin_op (Handshaking i) (set_conn i (async_handshake_server (ts_conns ?s2 i)) ?s2)"
      using assms(3) False by (simp add: Let_def)
    then show ?thesis using l by (simp add: insert_absorb)
  qed
qed

lemma step_accept_refines:
  assumes "server_inv (s, st)" "Accepting i \<in> ts_pending s"
    and "returned (handle_accept hc i err ip s) = Some s'"
  shows "server_abs (s', st) = server_abs (s, st) \<or> pool_step (server_abs (s, st)) (server_abs (s', st))"
proof -
  obtain s0 f where ha: "handle_accept hc i err ip s = bind_outcome (accept_rest hc i err) (if ts_listening s0 then listen s0 else Ts_ok s0)" and s0: "s0 = s\<lparr>ts_conns := f\<rparr>"
    using handle_accept_form [of hc i err ip s] by blast
  have t0: "tracked s0" and f0: "ts_listening s0 = ts_listening s" "ts_pending s0 = ts_pending s" "live s0 = live s"
    "ts_next s0 = ts_next s" "ts_conn_pool s0 = ts_conn_pool s"
    using assms(1) by (simp_all add: s0)
  have i: "i \<in> live s" using live_pending [OF assms(2)] by simp
  show ?thesis
  proof (cases "ts_listening s")
    case True
    then obtain s1 where s1: "listen s0 = Ts_ok s1" "tracked s1"
      "ts_pending s1 = insert (Accepting (ts_next s)) (ts_pending s)" "ts_next s \<notin> ts_conn_pool s" "ts_listening s1"
      using listen_eq [OF t0] f0 by auto
    have "ts_next s \<notin> live s" using s1(4) assms(1) by (auto simp: tracked_def live_def)
    have l1: "live s1 = insert (ts_next s) (live s)" using s1(3) by (simp add: live_def)
    have ret: "returned (accept_rest hc i err s1) = Some s'"
      using assms(3) ha s1(1) True f0 by (simp add: bind_outcome_def)
    have acc: "Accepting i \<in> ts_pending s1" using assms(2) s1(3) by simp
    have "ts_listening s'" using accept_settled [OF s1(2) acc ret] s1(5) by (simp add: same_flags_def)
    moreover have "live s' = insert (ts_next s) (live s) - {i} \<or> live s' = insert (ts_next s) (live s)"
      using accept_live [OF s1(2) acc ret] l1 by simp
    moreover note pool_replace [OF i \<open>ts_next s \<notin> live s\<close>] pool_open [OF \<open>ts_next s \<notin> live s\<close>]
    ultimately show ?thesis using True by (elim disjE) simp_all
  next
    case False
    then have ret: "returned (accept_rest hc i err s0) = Some s'"
      using assms(3) ha f0 by (simp add: bind_outcome_def)
    have acc: "Accepting i \<in> ts_pending s0" using assms(2) f0 by simp
    have "\<not> ts_listening s'" using accept_settled [OF t0 acc ret] False f0 by (simp add: same_flags_def)
    moreover have "live s' = live s - {i} \<or> live s' = live s" using accept_live [OF t0 acc ret] f0 by simp
    ultimately show ?thesis using False close_or_same [OF i] by auto
  qed
qed

lemma step_start_refines:
  assumes "server_inv (s, False)" "returned (start e s) = Some s'"
  shows "server_abs (s', False) = server_abs (s, False) \<or> pool_step (server_abs (s, False)) (server_abs (s', False))"
proof (cases "ts_listening s \<or> ts_acceptor_open s \<or> e \<noteq> None")
  case True
  with assms(2) have "s' = s \<or> s' = s\<lparr>ts_acceptor_open := True\<rparr>"
    by (auto simp: start_def Let_def split: if_splits option.splits)
  then show ?thesis by (auto simp: live_def)
next
  case False
  let ?s = "s\<lparr>ts_acceptor_open := True, ts_listening := True\<rparr>"
  have empty: "live s = {}" "ts_pending s = {}" using assms(1) False by (auto simp: tracked_def live_def)
  have "tracked ?s" using assms(1) by (simp add: tracked_def)
  then obtain s1 where s1: "listen ?s = Ts_ok s1" "ts_pending s1 = {Accepting (ts_next s)}" "ts_listening s1"
    using listen_eq [of ?s] empty by auto
  have "s' = s1\<lparr>ts_scheduler := add_active_user (ts_scheduler s1)\<rparr>"
    using assms(2) False s1(1) by (simp add: start_def Let_def bind_outcome_def)
  with s1 have "live s' = {ts_next s}" "ts_listening s'" by (simp_all add: live_def)
  with False empty show ?thesis by (simp add: pool_start)
qed

lemma server_step_refines:
  "server_step hc x y \<Longrightarrow> server_inv x \<Longrightarrow> server_abs y = server_abs x \<or> pool_step (server_abs x) (server_abs y)"
proof (induction rule: server_step.induct)
  case (step_start e s s' x)
  then show ?case using step_start_refines [of s e s'] by (auto simp: returned_iff)
next
  case (step_stop s w)
  have "live (stop_begin w s) = live s" "\<not> ts_listening (stop_begin w s)"
    by (simp_all add: stop_begin_def live_def Let_def)
  with step_stop show ?case by (simp add: pool_stop)
next
  case (step_wait s s')
  then have "tracked s" by simp
  with step_wait show ?case by (auto simp: stop_round_tracked prune_flags split: if_splits)
next
  case (step_stopped s s')
  then have t: "tracked s" "ts_pending s = {}" by (auto simp: stop_round_tracked split: if_splits)
  with step_stopped have "live s = {}" "live s' = {}" "ts_listening s' = ts_listening s" "\<not> ts_listening s"
    by (auto simp: stop_round_tracked live_def prune_tracked prune_flags split: if_splits)
  then show ?case by (simp add: pool_stopped)
next
  case (step_accept i s err ip s' x st)
  then show ?case using step_accept_refines [of s st i hc err ip s'] by (auto simp: returned_iff)
next
  case (step_handshake i s err s' x st)
  then have t: "tracked s" by simp
  note e = ended_unreferenced [OF t step_handshake(1) op_conn.simps(2)]
  have "settled i (end_op (Handshaking i) s) s'"
    using step_handshake(2) finish_settled [OF e, of hc s'] run_settled [OF e, of hc s']
    by (auto simp: handle_ssl_handshake_def Let_def returned_iff split: if_splits)
  from step_after_op [OF step_handshake(3,1) op_conn.simps(2) this] show ?case .
next
  case (step_progress i s st c)
  then show ?case by (simp add: set_conn_def)
next
  case (step_finish i s s' x st)
  then have t: "tracked s" by simp
  note e = ended_unreferenced [OF t step_finish(1) op_conn.simps(3)]
  have "settled i (end_op (Handling i) s) s'" using step_finish(2) finish_settled [OF e] by (auto simp: returned_iff)
  from step_after_op [OF step_finish(3,1) op_conn.simps(3) this] show ?case .
next
  case (step_lost i s st)
  then have "settled i (end_op (Handling i) s) (end_op (Handling i) s)" by (simp add: settled_def)
  from step_after_op [OF step_lost(2,1) op_conn.simps(3) this] show ?case .
next
  case (step_broadcast i s st bufs)
  then show ?case by (simp add: set_conn_def)
qed

interpretation server_refinement: refinement "server_step hc" pool_step server_abs server_inv for hc
  by unfold_locales (rule server_step_inv, assumption+, rule server_step_refines)

lemma server_reach_iff: "server_reach hc x \<longleftrightarrow> (\<exists>n ssl. (server_step hc)\<^sup>*\<^sup>* (new_tcp_server n ssl, False) x)"
proof
  show "server_reach hc x \<Longrightarrow> \<exists>n ssl. (server_step hc)\<^sup>*\<^sup>* (new_tcp_server n ssl, False) x"
    by (induction rule: server_reach.induct) (auto intro: rtranclp.rtrancl_into_rtrancl)
  show "\<exists>n ssl. (server_step hc)\<^sup>*\<^sup>* (new_tcp_server n ssl, False) x \<Longrightarrow> server_reach hc x"
  proof (elim exE)
    fix n ssl
    assume "(server_step hc)\<^sup>*\<^sup>* (new_tcp_server n ssl, False) x"
    then show "server_reach hc x"
      by (induction rule: rtranclp_induct) (auto intro: server_reach.intros)
  qed
qed

text \<open>Every run of the server is a run of the abstract server.\<close>

lemma server_reach_pool:
  assumes "server_reach hc x"
  shows "pool_step\<^sup>*\<^sup>* (Stopped, {}) (server_abs x)"
proof -
  obtain n ssl where run: "(server_step hc)\<^sup>*\<^sup>* (new_tcp_server n ssl, False) x"
    using assms by (auto simp: server_reach_iff)
  have "server_inv (new_tcp_server n ssl, False)" by (rule server_reach_inv [OF reach_init])
  from server_refinement.simulated_run [OF run this] show ?thesis
    by (simp add: new_tcp_server_def live_def)
qed

section \<open>Properties\<close>

text \<open>
  C6: the state of the server in every state reached by calls that return, whatever the order of
  completions and whatever \<open>handle_connection\<close> does. The mutex is free between the steps. Each operation in flight
  belongs to a connection of the pool, and a connection has at most one. A server that listens
  has an open acceptor and exactly one accept in flight, so it is always ready for the next
  client. After \<open>stop\<close> there is no connection, nothing in flight, and the server is no longer a
  user of its scheduler.
\<close>

theorem server_invariant:
  assumes "server_reach hc (s, stopping)"
  shows "\<not> ts_locked s \<and> op_conn ` ts_pending s \<subseteq> ts_conn_pool s \<and> inj_on op_conn (ts_pending s)
    \<and> (ts_listening s \<longrightarrow> ts_acceptor_open s \<and> (\<exists>i. {j. Accepting j \<in> ts_pending s} = {i}))
    \<and> (\<not> ts_listening s \<and> \<not> stopping \<longrightarrow> ts_conn_pool s = {} \<and> ts_pending s = {})
    \<and> sc_active_users (ts_scheduler s) = (if ts_listening s \<or> stopping then 1 else 0)"
  using server_reach_inv [OF assms] by (auto simp: tracked_def accepts_def)

lemma started_server:
  "\<exists>s. start None (new_tcp_server 2 False) = Ts_ok s \<and> ts_listening s \<and> ts_pending s = {Accepting 0}
     \<and> server_reach hc (s, False)"
proof -
  have "tracked ((new_tcp_server 2 False)\<lparr>ts_acceptor_open := True, ts_listening := True\<rparr>)"
    by (simp add: tracked_def new_tcp_server_def)
  from listen_eq [OF this] obtain s1 where s1:
    "listen ((new_tcp_server 2 False)\<lparr>ts_acceptor_open := True, ts_listening := True\<rparr>) = Ts_ok s1"
    "ts_pending s1 = {Accepting 0}" "ts_listening s1"
    by (auto simp: new_tcp_server_def)
  let ?s = "s1\<lparr>ts_scheduler := add_active_user (ts_scheduler s1)\<rparr>"
  have st: "start None (new_tcp_server 2 False) = Ts_ok ?s"
    using s1(1) by (simp add: start_def bind_outcome_def) (simp add: new_tcp_server_def)
  then have "server_reach hc (?s, False)"
    by (intro reach_step [OF reach_init] step_start) auto
  with st s1 show ?thesis by auto
qed

theorem server_invariant_witness:
  "\<exists>s. start None (new_tcp_server 2 False) = Ts_ok s \<and> sc_active_users (ts_scheduler s) = 1
     \<and> (\<exists>i. {j. Accepting j \<in> ts_pending s} = {i})"
proof -
  obtain s where s: "start None (new_tcp_server 2 False) = Ts_ok s" "ts_listening s"
    "server_reach base_handle_connection (s, False)"
    using started_server by blast
  from server_invariant [OF s(3)] s(1,2) show ?thesis by auto
qed

text \<open>
  When \<open>stop\<close> returns. While \<open>stop\<close> waits, a round of its loop ends it exactly when nothing is
  in flight any more; connections that were lost (no operation refers to them) do not hold it
  up: they are closed and dropped. The stopped server has an empty pool and has left the
  scheduler; until then it stays a user and keeps only connections with operations in flight.
\<close>

lemma stop_returns:
  assumes "server_reach hc (s, True)"
  shows "case stop_round s of
      Inl s' \<Rightarrow> ts_pending s \<noteq> {} \<and> ts_conn_pool s' = op_conn ` ts_pending s \<and> sc_active_users (ts_scheduler s') = 1
    | Inr s' \<Rightarrow> ts_pending s = {} \<and> ts_conn_pool s' = {} \<and> sc_active_users (ts_scheduler s') = 0
        \<and> (\<forall>i\<in>ts_conn_pool s. \<not> tc_open (ts_conns s' i))"
proof -
  have inv: "server_inv (s, True)" using server_reach_inv [OF assms] .
  then have t: "tracked s" and users: "sc_active_users (ts_scheduler s) = 1" by auto
  have closed: "\<forall>i\<in>ts_conn_pool s. \<not> tc_open (ts_conns (prune_connections s) i)" if "ts_pending s = {}"
    using that by (auto simp: prune_connections_def referenced_def Let_def close_conn_def is_open_def)
  show ?thesis
    using prune_tracked [OF t] users closed
    by (auto simp: stop_round_tracked [OF t] prune_flags remove_active_user_def Let_def)
qed

text \<open>
  Where the server can lock up. \<open>finish_connection\<close>, called with the mutex free, fails to
  return exactly when it keeps the connection and \<open>handle_connection\<close> finishes it again before
  returning: the second call waits for the mutex the first one holds. With the
  \<open>handle_connection\<close> of the base class this happens for every connection that is to be kept alive.
\<close>

lemma finish_connection_deadlock:
  assumes "\<not> ts_locked s"
  shows "(finish_connection hc i s = Ts_deadlock \<longleftrightarrow>
           ts_listening s \<and> get_keep_alive (ts_conns s i) \<and> (\<exists>c. hc (ts_conns s i) = Finishes c))
    \<and> (finish_connection base_handle_connection i s = Ts_deadlock \<longleftrightarrow> ts_listening s \<and> get_keep_alive (ts_conns s i))"
  by (auto simp: finish_connection_eq [OF assms] base_handle_connection_def split: conn_result.split)

end
