(* ===== verification/Tcp_Interleaving.thy ===== *)
theory Tcp_Interleaving
  imports Tcp_Server
begin

text \<open>
  \<open>tcp_server\<close> at the granularity of its mutex. In \<open>Tcp_Server\<close> a completion with all it calls is one
  step. Here only the parts under the mutex are: \<open>start\<close> releases it before it calls \<open>listen\<close>,
  \<open>handle_accept\<close> reads \<open>listening\<close> without it, and the other threads run in between. A thread that
  has locked itself out keeps the mutex for good.
\<close>

section \<open>Definitions\<close>

text \<open>The part of \<open>start\<close> under the mutex.\<close>

definition start_locked :: "exn option \<Rightarrow> tcp_server \<Rightarrow> ts_outcome" where
  "start_locked bind_error s =
     (if \<not> ts_listening s then
        (if ts_acceptor_open s then Ts_raised System_error s
         else
           (let s1 = s\<lparr>ts_acceptor_open := True\<rparr>
            in case bind_error of Some e \<Rightarrow> Ts_raised e s1 | None \<Rightarrow> Ts_ok (s1\<lparr>ts_listening := True\<rparr>)))
      else Ts_ok s)"

text \<open>
  Where the thread that calls \<open>start\<close> and \<open>stop\<close> is: outside of them, in \<open>start\<close> before its call of
  \<open>listen\<close> or of \<open>add_active_user\<close>, or in the loop of \<open>stop\<close>.
\<close>

datatype control = Control_idle | Start_listen | Start_user | Stop_waiting

text \<open>
  Where the callback of an accept is: before it reads \<open>listening\<close>, before its call of \<open>listen\<close>, or
  after it. The flag tells whether the accept has failed.
\<close>

datatype accept_phase = Check_listening bool | Call_listen bool | Proceed bool

text \<open>
  The callbacks of accepts that run, by connection; the connections whose thread is about to call
  \<open>finish_connection\<close>; and whether a thread holds the mutex for good. The operation of a callback
  counts as in flight until the callback is done with it: it refers to the connection.
\<close>

record interleaved =
  il_server :: tcp_server
  il_control :: control
  il_accepts :: "nat \<Rightarrow> accept_phase option"
  il_finishing :: "nat set"
  il_locked_up :: bool

text \<open>The thread goes on to \<open>finish_connection\<close>: the operation \<open>p\<close> has brought it here.\<close>

definition to_finish :: "pending_op \<Rightarrow> nat \<Rightarrow> interleaved \<Rightarrow> interleaved" where
  "to_finish p i x =
     x\<lparr>il_server := begin_op (Handling i) (end_op p (il_server x)),
       il_finishing := insert i (il_finishing x)\<rparr>"

text \<open>\<open>handle_connection\<close>, called without the mutex.\<close>

definition handle_unlocked :: "connection_handler \<Rightarrow> pending_op \<Rightarrow> nat \<Rightarrow> interleaved \<Rightarrow> interleaved" where
  "handle_unlocked hc p i x =
     (case hc (ts_conns (il_server x) i) of
        In_progress c \<Rightarrow> x\<lparr>il_server := begin_op (Handling i) (set_conn i c (end_op p (il_server x)))\<rparr>
      | Raises e c \<Rightarrow> x\<lparr>il_server := set_conn i c (end_op p (il_server x))\<rparr>
      | Finishes c \<Rightarrow> to_finish p i (x\<lparr>il_server := set_conn i c (il_server x)\<rparr>))"

text \<open>The rest of the callback of an accept, after the call of \<open>listen\<close>.\<close>

definition accept_proceed :: "connection_handler \<Rightarrow> nat \<Rightarrow> bool \<Rightarrow> interleaved \<Rightarrow> interleaved" where
  "accept_proceed hc i accept_error x =
     (let y = x\<lparr>il_accepts := (il_accepts x)(i := None)\<rparr>; c = ts_conns (il_server x) i
      in if accept_error then to_finish (Accepting i) i y
         else if tc_ssl_flag c
         then y\<lparr>il_server := begin_op (Handshaking i)
                  (set_conn i (async_handshake_server c) (end_op (Accepting i) (il_server y)))\<rparr>
         else handle_unlocked hc (Accepting i) i y)"

definition handshake_proceed :: "connection_handler \<Rightarrow> nat \<Rightarrow> bool \<Rightarrow> interleaved \<Rightarrow> interleaved" where
  "handshake_proceed hc i handshake_error x =
     (if handshake_error then to_finish (Handshaking i) i x else handle_unlocked hc (Handshaking i) i x)"

section \<open>The transition system\<close>

inductive il_step :: "connection_handler \<Rightarrow> interleaved \<Rightarrow> interleaved \<Rightarrow> bool" for hc where
  il_start:
    "il_control x = Control_idle \<Longrightarrow> \<not> il_locked_up x \<Longrightarrow> \<not> ts_listening (il_server x)
     \<Longrightarrow> start_locked e (il_server x) = Ts_ok s
     \<Longrightarrow> il_step hc x (x\<lparr>il_server := s, il_control := Start_listen\<rparr>)"
| il_start_failed:
    "il_control x = Control_idle \<Longrightarrow> \<not> il_locked_up x \<Longrightarrow> start_locked e (il_server x) = Ts_raised ex s
     \<Longrightarrow> il_step hc x (x\<lparr>il_server := s\<rparr>)"
| il_start_listen:
    "il_control x = Start_listen \<Longrightarrow> \<not> il_locked_up x \<Longrightarrow> listen (il_server x) = Ts_ok s
     \<Longrightarrow> il_step hc x (x\<lparr>il_server := s, il_control := Start_user\<rparr>)"
| il_start_user:
    "il_control x = Start_user
     \<Longrightarrow> il_step hc x (x\<lparr>il_server := (il_server x)\<lparr>ts_scheduler := add_active_user (ts_scheduler (il_server x))\<rparr>,
                         il_control := Control_idle\<rparr>)"
| il_stop:
    "il_control x = Control_idle \<Longrightarrow> \<not> il_locked_up x \<Longrightarrow> ts_listening (il_server x)
     \<Longrightarrow> il_step hc x (x\<lparr>il_server := stop_begin w (il_server x), il_control := Stop_waiting\<rparr>)"
| il_wait:
    "il_control x = Stop_waiting \<Longrightarrow> \<not> il_locked_up x \<Longrightarrow> stop_round (il_server x) = Inl s
     \<Longrightarrow> il_step hc x (x\<lparr>il_server := s\<rparr>)"
| il_stopped:
    "il_control x = Stop_waiting \<Longrightarrow> \<not> il_locked_up x \<Longrightarrow> stop_round (il_server x) = Inr s
     \<Longrightarrow> il_step hc x (x\<lparr>il_server := s, il_control := Control_idle\<rparr>)"
| il_accept:
    "Accepting i \<in> ts_pending (il_server x) \<Longrightarrow> il_accepts x i = None
     \<Longrightarrow> c = (if err then ts_conns (il_server x) i
               else (ts_conns (il_server x) i)\<lparr>tc_open := True, tc_remote_ip := ip\<rparr>)
     \<Longrightarrow> il_step hc x (x\<lparr>il_server := set_conn i c (il_server x), il_accepts := (il_accepts x)(i \<mapsto> Check_listening err)\<rparr>)"
| il_check:
    "il_accepts x i = Some (Check_listening err)
     \<Longrightarrow> ph = (if ts_listening (il_server x) then Call_listen err else Proceed err)
     \<Longrightarrow> il_step hc x (x\<lparr>il_accepts := (il_accepts x)(i \<mapsto> ph)\<rparr>)"
| il_listen:
    "il_accepts x i = Some (Call_listen err) \<Longrightarrow> \<not> il_locked_up x \<Longrightarrow> listen (il_server x) = Ts_ok s
     \<Longrightarrow> il_step hc x (x\<lparr>il_server := s, il_accepts := (il_accepts x)(i \<mapsto> Proceed err)\<rparr>)"
| il_proceed:
    "il_accepts x i = Some (Proceed err) \<Longrightarrow> il_step hc x (accept_proceed hc i err x)"
| il_handshake:
    "Handshaking i \<in> ts_pending (il_server x) \<Longrightarrow> il_step hc x (handshake_proceed hc i err x)"
| il_progress:
    "Handling i \<in> ts_pending (il_server x) \<Longrightarrow> i \<notin> il_finishing x
     \<Longrightarrow> il_step hc x (x\<lparr>il_server := set_conn i c (il_server x)\<rparr>)"
| il_complete:
    "Handling i \<in> ts_pending (il_server x) \<Longrightarrow> i \<notin> il_finishing x
     \<Longrightarrow> il_step hc x (x\<lparr>il_finishing := insert i (il_finishing x)\<rparr>)"
| il_finish:
    "i \<in> il_finishing x \<Longrightarrow> \<not> il_locked_up x
     \<Longrightarrow> returned (finish_connection hc i (end_op (Handling i) (il_server x))) = Some s
     \<Longrightarrow> il_step hc x (x\<lparr>il_server := s, il_finishing := il_finishing x - {i}\<rparr>)"
| il_lock_up:
    "i \<in> il_finishing x \<Longrightarrow> \<not> il_locked_up x
     \<Longrightarrow> finish_connection hc i (end_op (Handling i) (il_server x)) = Ts_deadlock
     \<Longrightarrow> hc (ts_conns (il_server x) i) = Finishes c
     \<Longrightarrow> il_step hc x (x\<lparr>il_server := set_conn i c (il_server x), il_locked_up := True\<rparr>)"
| il_lost:
    "Handling i \<in> ts_pending (il_server x) \<Longrightarrow> i \<notin> il_finishing x
     \<Longrightarrow> il_step hc x (x\<lparr>il_server := end_op (Handling i) (il_server x)\<rparr>)"
| il_broadcast:
    "i \<in> ts_conn_pool (il_server x)
     \<Longrightarrow> il_step hc x (x\<lparr>il_server := set_conn i (async_write bufs (ts_conns (il_server x) i)) (il_server x)\<rparr>)"

text \<open>A state between the calls and completions, as the coarser system has it.\<close>

fun at_rest :: "server_state \<Rightarrow> interleaved" where
  "at_rest (s, stopping) =
     \<lparr>il_server = s, il_control = (if stopping then Stop_waiting else Control_idle), il_accepts = Map.empty,
      il_finishing = {}, il_locked_up = False\<rparr>"

definition il_reach :: "connection_handler \<Rightarrow> interleaved \<Rightarrow> bool" where
  "il_reach hc x \<longleftrightarrow> (\<exists>n ssl. (il_step hc)\<^sup>*\<^sup>* (at_rest (new_tcp_server n ssl, False)) x)"

lemma il_reach_step: "il_reach hc x \<Longrightarrow> il_step hc x y \<Longrightarrow> il_reach hc y"
  unfolding il_reach_def by (blast intro: rtranclp.rtrancl_into_rtrancl)

lemma il_reach_run: "il_reach hc x \<Longrightarrow> (il_step hc)\<^sup>*\<^sup>* x y \<Longrightarrow> il_reach hc y"
  unfolding il_reach_def by (blast intro: rtranclp_trans)

section \<open>Invariant\<close>

text \<open>The accepts that are in flight or whose callback has not yet called \<open>listen\<close>.\<close>

definition to_listen :: "interleaved \<Rightarrow> nat set" where
  "to_listen x = {i \<in> accepts (il_server x). \<forall>e. il_accepts x i \<noteq> Some (Proceed e)}"

abbreviation in_start :: "interleaved \<Rightarrow> bool" where
  "in_start x \<equiv> il_control x = Start_listen \<or> il_control x = Start_user"

definition threads_ok :: "interleaved \<Rightarrow> bool" where
  "threads_ok x \<longleftrightarrow>
     tracked (il_server x) \<and> dom (il_accepts x) \<subseteq> accepts (il_server x)
     \<and> Handling ` il_finishing x \<subseteq> ts_pending (il_server x)"

definition control_ok :: "interleaved \<Rightarrow> bool" where
  "control_ok x \<longleftrightarrow>
     (ts_listening (il_server x) \<longrightarrow> il_control x \<noteq> Stop_waiting \<and> ts_acceptor_open (il_server x)
        \<and> (il_control x \<noteq> Start_listen \<longrightarrow> (\<exists>i. to_listen x = {i})))
     \<and> (in_start x \<longrightarrow> ts_listening (il_server x))
     \<and> (il_control x = Start_listen \<or> \<not> ts_listening (il_server x) \<and> il_control x \<noteq> Stop_waiting
        \<longrightarrow> ts_conn_pool (il_server x) = {})
     \<and> sc_active_users (ts_scheduler (il_server x))
        = (if in_start x then 0 else if ts_listening (il_server x) \<or> il_control x = Stop_waiting then 1 else 0)"

definition il_inv :: "interleaved \<Rightarrow> bool" where
  "il_inv x \<longleftrightarrow> threads_ok x \<and> control_ok x"

lemmas il_ok = threads_ok_def control_ok_def

text \<open>
  A step of one thread that leaves the flags alone and the accepts that count; connections may
  leave the pool.
\<close>

lemma control_ok_step:
  assumes "control_ok x" "same_flags (il_server x) (il_server y)" "il_control y = il_control x"
    and "ts_listening (il_server x) \<Longrightarrow> to_listen y = to_listen x"
  shows "control_ok y"
  using assms unfolding control_ok_def same_flags_def by auto

text \<open>What the end of the operation \<open>p\<close> and what follows on its thread do to the threads.\<close>

definition moved :: "pending_op \<Rightarrow> interleaved \<Rightarrow> interleaved \<Rightarrow> bool" where
  "moved p x y \<longleftrightarrow>
     tracked (il_server y) \<and> same_flags (il_server x) (il_server y) \<and> il_control y = il_control x
     \<and> il_locked_up y = il_locked_up x
     \<and> il_accepts y = il_accepts x \<and> Handling ` il_finishing y \<subseteq> ts_pending (il_server y)
     \<and> accepts (il_server y) = accepts (il_server x) - {j. p = Accepting j}
     \<and> (live (il_server y) = live (il_server x) \<or> live (il_server y) = live (il_server x) - {op_conn p})"

lemma restarted:
  assumes "tracked s" "p \<in> ts_pending s" "op_conn p = i" "op_conn q = i"
  shows "tracked (begin_op q (set_conn i c (end_op p s)))"
    and "live (begin_op q (set_conn i c (end_op p s))) = live s"
  using tracked_begin [OF ended_unreferenced [OF assms(1-3)] assms(4)] live_end_op [OF assms(1,2)]
    live_pending [OF assms(2)] assms(3,4) by auto

lemma restarted_same:
  assumes "tracked s" "p \<in> ts_pending s" "op_conn p = i" "op_conn q = i"
  shows "tracked (begin_op q (end_op p s))" "live (begin_op q (end_op p s)) = live s"
proof -
  have "set_conn i (ts_conns s i) (end_op p s) = end_op p s" by (simp add: server_ops)
  then show "tracked (begin_op q (end_op p s))" "live (begin_op q (end_op p s)) = live s"
    using restarted [OF assms, of "ts_conns s i"] by simp_all
qed

lemma to_finish_moved:
  assumes "tracked (il_server x)" "p \<in> ts_pending (il_server x)" "op_conn p = i" "\<And>j. p \<noteq> Handling j"
    and "Handling ` il_finishing x \<subseteq> ts_pending (il_server x)"
  shows "moved p x (to_finish p i x)"
  using assms restarted_same [OF assms(1-3), of "Handling i"]
  by (auto simp: moved_def to_finish_def same_flags_def accepts_def server_ops)

lemma moved_conn:
  "moved p (x\<lparr>il_server := set_conn i c (il_server x)\<rparr>) y \<longleftrightarrow> moved p x y"
  by (simp add: moved_def same_flags_def accepts_def server_ops)

lemma handle_unlocked_moved:
  assumes "tracked (il_server x)" "p \<in> ts_pending (il_server x)" "op_conn p = i" "\<And>j. p \<noteq> Handling j"
    and "Handling ` il_finishing x \<subseteq> ts_pending (il_server x)"
  shows "moved p x (handle_unlocked hc p i x)"
proof (cases "hc (ts_conns (il_server x) i)")
  case (In_progress c)
  with assms restarted [OF assms(1-3), of "Handling i" c] show ?thesis
    by (auto simp: moved_def handle_unlocked_def same_flags_def accepts_def server_ops)
next
  case (Finishes c)
  let ?x = "x\<lparr>il_server := set_conn i c (il_server x)\<rparr>"
  have "moved p ?x (to_finish p i ?x)"
    using assms by (intro to_finish_moved) (auto simp: set_conn_def)
  with Finishes show ?thesis by (simp add: handle_unlocked_def moved_conn)
next
  case (Raises e c)
  with assms live_end_op [OF assms(1,2)] ended_unreferenced(1) [OF assms(1-3)] show ?thesis
    by (auto simp: moved_def handle_unlocked_def same_flags_def accepts_def server_ops)
qed

lemma accept_proceed_moved:
  assumes "threads_ok x" "il_accepts x i = Some (Proceed err)"
  shows "moved (Accepting i) (x\<lparr>il_accepts := (il_accepts x)(i := None)\<rparr>) (accept_proceed hc i err x)"
proof -
  have i: "Accepting i \<in> ts_pending (il_server x)" using assms by (auto simp: threads_ok_def accepts_def)
  have t: "tracked (il_server x)" "Handling ` il_finishing x \<subseteq> ts_pending (il_server x)"
    using assms(1) by (simp_all add: threads_ok_def)
  have ssl: "tracked (begin_op (Handshaking i) (set_conn i c (end_op (Accepting i) (il_server x))))"
    "live (begin_op (Handshaking i) (set_conn i c (end_op (Accepting i) (il_server x)))) = live (il_server x)" for c
    using restarted [OF t(1) i, of i "Handshaking i"] by simp_all
  show ?thesis
    using to_finish_moved [of "x\<lparr>il_accepts := (il_accepts x)(i := None)\<rparr>" "Accepting i" i] i t ssl
      handle_unlocked_moved [of "x\<lparr>il_accepts := (il_accepts x)(i := None)\<rparr>" "Accepting i" i hc]
    by (auto simp: accept_proceed_def Let_def moved_def same_flags_def accepts_def server_ops)
qed

lemma handshake_proceed_moved:
  assumes "threads_ok x" "Handshaking i \<in> ts_pending (il_server x)"
  shows "moved (Handshaking i) x (handshake_proceed hc i err x)"
  using assms to_finish_moved [of x "Handshaking i" i] handle_unlocked_moved [of x "Handshaking i" i hc]
  by (auto simp: handshake_proceed_def threads_ok_def)

lemma moved_inv:
  assumes "il_inv x" "moved p (x\<lparr>il_accepts := f\<rparr>) y" "p = Accepting i \<and> f = (il_accepts x)(i := None) \<and> il_accepts x i = Some (Proceed e)
      \<or> f = il_accepts x \<and> (\<forall>j. p \<noteq> Accepting j)"
  shows "il_inv y"
proof -
  have "to_listen y = to_listen x"
    using assms(2,3) by (auto simp: moved_def to_listen_def split: if_splits)
  moreover have "dom (il_accepts y) \<subseteq> accepts (il_server y)"
    using assms by (auto simp: moved_def il_inv_def threads_ok_def dom_def split: if_splits)
  ultimately show ?thesis
    using assms(1,2) control_ok_step [of x y] by (auto simp: moved_def il_inv_def threads_ok_def)
qed

lemma listen_threads:
  assumes "threads_ok x" "listen (il_server x) = Ts_ok s" "ts_listening (il_server x)"
  shows "threads_ok (x\<lparr>il_server := s\<rparr>)" "ts_listening s" "ts_acceptor_open s = ts_acceptor_open (il_server x)"
    "ts_scheduler s = ts_scheduler (il_server x)" "to_listen (x\<lparr>il_server := s\<rparr>) = insert (ts_next (il_server x)) (to_listen x)"
    "live s = insert (ts_next (il_server x)) (live (il_server x))" "ts_next (il_server x) \<notin> live (il_server x)"
proof -
  have t: "tracked (il_server x)" using assms(1) by (simp add: threads_ok_def)
  from listen_eq [OF t assms(3)] assms(2)
  have s: "tracked s" "ts_pending s = insert (Accepting (ts_next (il_server x))) (ts_pending (il_server x))"
    "ts_listening s" "ts_acceptor_open s = ts_acceptor_open (il_server x)" "ts_scheduler s = ts_scheduler (il_server x)"
    "ts_next (il_server x) \<notin> ts_conn_pool (il_server x)" by auto
  show "ts_listening s" "ts_acceptor_open s = ts_acceptor_open (il_server x)" "ts_scheduler s = ts_scheduler (il_server x)"
    by (rule s)+
  have acc: "accepts s = insert (ts_next (il_server x)) (accepts (il_server x))" using s(2) by (auto simp: accepts_def)
  show l: "ts_next (il_server x) \<notin> live (il_server x)" using s(6) t by (auto simp: tracked_def live_def)
  then have "il_accepts x (ts_next (il_server x)) = None"
    using assms(1) live_pending [of "Accepting (ts_next (il_server x))" "il_server x"] by (auto simp: threads_ok_def accepts_def)
  then show "to_listen (x\<lparr>il_server := s\<rparr>) = insert (ts_next (il_server x)) (to_listen x)"
    using acc by (auto simp: to_listen_def)
  show "threads_ok (x\<lparr>il_server := s\<rparr>)" using assms(1) s(1,2) acc by (auto simp: threads_ok_def)
  show "live s = insert (ts_next (il_server x)) (live (il_server x))" using s(2) by (simp add: live_def)
qed

text \<open>A thread that finishes or loses its connection.\<close>

lemma settled_inv:
  assumes "il_inv x" "i \<in> il_finishing x \<or> F = il_finishing x \<and> Handling i \<in> ts_pending (il_server x) \<and> i \<notin> F"
    and "F = il_finishing x - {i}" "settled i (end_op (Handling i) (il_server x)) s"
  shows "il_inv (x\<lparr>il_server := s, il_finishing := F\<rparr>)"
proof -
  let ?y = "x\<lparr>il_server := s, il_finishing := F\<rparr>"
  have t: "tracked (il_server x)" and h: "Handling i \<in> ts_pending (il_server x)"
    using assms(1,2) by (auto simp: il_inv_def threads_ok_def)
  note e = end_then_settled [OF t h op_conn.simps(3) assms(4)]
  have "ts_pending (end_op (Handling i) (il_server x)) \<subseteq> ts_pending s"
    using assms(4) by (auto simp: settled_def)
  then have "Handling ` F \<subseteq> ts_pending s"
    using assms(1,3) by (auto simp: il_inv_def threads_ok_def end_op_def)
  moreover have "accepts s = accepts (il_server x)" using e(2) by simp
  moreover have "to_listen ?y = to_listen x" using e(2) by (simp add: to_listen_def)
  ultimately show ?thesis
    using assms(1) e control_ok_step [of x ?y] by (auto simp: il_inv_def threads_ok_def)
qed

text \<open>Changes to a connection only.\<close>

lemma conn_inv [simp]:
  "il_inv (x\<lparr>il_server := set_conn i c (il_server x)\<rparr>) = il_inv x"
  "il_inv (x\<lparr>il_server := set_conn i c (il_server x), il_locked_up := b\<rparr>) = il_inv x"
  by (simp_all add: il_inv_def il_ok to_listen_def accepts_def set_conn_def [of _ _ "il_server x"] tracked_def)

text \<open>The steps of the thread that starts and stops the server.\<close>

lemma start_inv_il:
  assumes "il_inv x" "il_control x = Control_idle" "start_locked e (il_server x) = Ts_ok s" "\<not> ts_listening (il_server x)"
  shows "il_inv (x\<lparr>il_server := s, il_control := Start_listen\<rparr>)"
  using assms by (auto simp: start_locked_def Let_def il_inv_def il_ok tracked_def accepts_def split: if_splits option.splits)

lemma start_failed_inv:
  assumes "il_inv x" "start_locked e (il_server x) = Ts_raised ex s"
  shows "il_inv (x\<lparr>il_server := s\<rparr>)"
proof -
  have "s = il_server x \<or> s = (il_server x)\<lparr>ts_acceptor_open := True\<rparr> \<and> \<not> ts_listening (il_server x)"
    using assms(2) by (auto simp: start_locked_def Let_def split: if_splits option.splits)
  moreover have "control_ok (x\<lparr>il_server := (il_server x)\<lparr>ts_acceptor_open := True\<rparr>\<rparr>)"
    if "\<not> ts_listening (il_server x)" "control_ok x"
    using that by (simp add: control_ok_def)
  moreover have "threads_ok (x\<lparr>il_server := (il_server x)\<lparr>ts_acceptor_open := True\<rparr>\<rparr>) = threads_ok x"
    by (simp add: threads_ok_def tracked_def accepts_def)
  ultimately show ?thesis using assms(1) by (auto simp: il_inv_def)
qed

lemma start_listen_inv:
  assumes "il_inv x" "il_control x = Start_listen" "listen (il_server x) = Ts_ok s"
  shows "il_inv (x\<lparr>il_server := s, il_control := Start_user\<rparr>)"
proof -
  have x: "threads_ok x" "ts_listening (il_server x)" "ts_conn_pool (il_server x) = {}"
    using assms(1,2) by (auto simp: il_inv_def control_ok_def)
  let ?y = "x\<lparr>il_server := s, il_control := Start_user\<rparr>"
  have "to_listen x = {}" using x(1,3) by (auto simp: to_listen_def accepts_def threads_ok_def tracked_def)
  note l = listen_threads [OF x(1) assms(3) x(2)]
  have "to_listen ?y = to_listen (x\<lparr>il_server := s\<rparr>)" by (simp add: to_listen_def)
  then have "to_listen ?y = {ts_next (il_server x)}" using \<open>to_listen x = {}\<close> l(5) by simp
  moreover have "threads_ok ?y" using l(1) by (simp add: threads_ok_def)
  ultimately show ?thesis
    using l(2-4) assms(1,2) by (simp add: il_inv_def control_ok_def)
qed

lemma start_user_inv:
  assumes "il_inv x" "il_control x = Start_user"
  shows "il_inv (x\<lparr>il_server := (il_server x)\<lparr>ts_scheduler := add_active_user (ts_scheduler (il_server x))\<rparr>,
                   il_control := Control_idle\<rparr>)"
proof -
  have "sc_active_users (ts_scheduler (il_server x)) = 0" using assms by (simp add: il_inv_def control_ok_def)
  then have "sc_active_users (add_active_user (ts_scheduler (il_server x))) = 1"
    by (simp add: add_active_user_def Let_def startup_def start_threads_def keep_running_def)
  with assms show ?thesis by (auto simp: il_inv_def il_ok to_listen_def accepts_def tracked_def)
qed

lemma stop_inv:
  assumes "il_inv x" "ts_listening (il_server x)" "il_control x = Control_idle"
  shows "il_inv (x\<lparr>il_server := stop_begin w (il_server x), il_control := Stop_waiting\<rparr>)"
  using assms by (auto simp: il_inv_def il_ok stop_begin_def Let_def tracked_def accepts_def)

lemma wait_inv:
  assumes "il_inv x" "stop_round (il_server x) = Inl s" "il_control x = Stop_waiting"
  shows "il_inv (x\<lparr>il_server := s\<rparr>)"
proof -
  have t: "tracked (il_server x)" using assms(1) by (simp add: il_inv_def threads_ok_def)
  from assms prune_tracked [OF t] show ?thesis
    by (auto simp: stop_round_tracked [OF t] il_inv_def il_ok accepts_def prune_flags split: if_splits)
qed

lemma stopped_inv:
  assumes "il_inv x" "stop_round (il_server x) = Inr s" "il_control x = Stop_waiting"
  shows "il_inv (x\<lparr>il_server := s, il_control := Control_idle\<rparr>)"
proof -
  have t: "tracked (il_server x)" using assms(1) by (simp add: il_inv_def threads_ok_def)
  then have e: "ts_pending (il_server x) = {}" using assms(2) by (auto simp: stop_round_tracked split: if_splits)
  have x: "\<not> ts_listening (il_server x)" "sc_active_users (ts_scheduler (il_server x)) = 1"
    using assms(1,3) by (auto simp: il_inv_def control_ok_def)
  from assms e x prune_tracked [OF t] show ?thesis
    by (auto simp: stop_round_tracked [OF t] il_inv_def il_ok accepts_def prune_flags tracked_def
        remove_active_user_def Let_def split: if_splits)
qed

text \<open>The steps of the callback of an accept before it goes on with the connection.\<close>

lemma accept_inv_il:
  assumes "il_inv x" "Accepting i \<in> ts_pending (il_server x)" "il_accepts x i = None"
  shows "il_inv (x\<lparr>il_server := set_conn i c (il_server x), il_accepts := (il_accepts x)(i \<mapsto> Check_listening err)\<rparr>)"
proof -
  have "to_listen (x\<lparr>il_server := set_conn i c (il_server x), il_accepts := (il_accepts x)(i \<mapsto> Check_listening err)\<rparr>) = to_listen x"
    using assms(3) by (auto simp: to_listen_def accepts_def set_conn_def)
  with assms show ?thesis by (auto simp: il_inv_def il_ok accepts_def set_conn_def tracked_def)
qed

lemma check_inv:
  assumes "il_inv x" "il_accepts x i = Some (Check_listening err)"
  shows "il_inv (x\<lparr>il_accepts := (il_accepts x)(i \<mapsto> if ts_listening (il_server x) then Call_listen err else Proceed err)\<rparr>)"
proof (cases "ts_listening (il_server x)")
  case True
  have "to_listen (x\<lparr>il_accepts := (il_accepts x)(i \<mapsto> Call_listen err)\<rparr>) = to_listen x"
    using assms(2) by (auto simp: to_listen_def)
  with True assms show ?thesis by (auto simp: il_inv_def il_ok)
next
  case False
  with assms show ?thesis by (auto simp: il_inv_def il_ok)
qed

lemma listen_inv:
  assumes "il_inv x" "il_accepts x i = Some (Call_listen err)" "listen (il_server x) = Ts_ok s"
  shows "il_inv (x\<lparr>il_server := s, il_accepts := (il_accepts x)(i \<mapsto> Proceed err)\<rparr>)"
proof (cases "ts_listening (il_server x)")
  case True
  have x: "threads_ok x" "il_control x \<noteq> Start_listen" and i: "i \<in> to_listen x"
    using assms(1,2) by (auto simp: il_inv_def il_ok to_listen_def tracked_def accepts_def)
  then have tl: "to_listen x = {i}" using assms(1) True by (auto simp: il_inv_def control_ok_def)
  note l = listen_threads [OF x(1) assms(3) True]
  have "i \<noteq> ts_next (il_server x)"
    using l(7) i live_pending [of "Accepting i" "il_server x"] by (auto simp: to_listen_def accepts_def)
  then have "to_listen (x\<lparr>il_server := s, il_accepts := (il_accepts x)(i \<mapsto> Proceed err)\<rparr>) = {ts_next (il_server x)}"
    using l(5) tl by (auto simp: to_listen_def split: if_splits)
  moreover have "i \<in> accepts s" using l(1) assms(2) by (auto simp: threads_ok_def)
  ultimately show ?thesis
    using l assms(1) True x(2) by (auto simp: il_inv_def il_ok)
next
  case False
  then have "s = il_server x" using assms(1,3) by (auto simp: listen_def il_inv_def il_ok tracked_def split: if_splits)
  with assms False show ?thesis by (auto simp: il_inv_def il_ok)
qed

lemma il_step_inv: "il_step hc x y \<Longrightarrow> il_inv x \<Longrightarrow> il_inv y"
proof (induction rule: il_step.induct)
  case (il_proceed x i err)
  then have "threads_ok x" by (simp add: il_inv_def)
  from moved_inv [OF il_proceed(2) accept_proceed_moved [OF this il_proceed(1)]] il_proceed(1) show ?case by auto
next
  case (il_handshake i x err)
  then have "threads_ok x" by (simp add: il_inv_def)
  from handshake_proceed_moved [OF this il_handshake(1), of hc err]
  have "moved (Handshaking i) (x\<lparr>il_accepts := il_accepts x\<rparr>) (handshake_proceed hc i err x)" by simp
  from moved_inv [OF il_handshake(2) this] show ?case by simp
next
  case (il_complete i x)
  then show ?case by (auto simp: il_inv_def il_ok to_listen_def)
next
  case (il_finish i x s)
  then have t: "tracked (il_server x)" and h: "Handling i \<in> ts_pending (il_server x)"
    by (auto simp: il_inv_def threads_ok_def)
  from finish_settled [OF ended_unreferenced [OF t h op_conn.simps(3)] il_finish(3)] il_finish
  show ?case by (intro settled_inv) auto
next
  case (il_lost i x)
  then have "settled i (end_op (Handling i) (il_server x)) (end_op (Handling i) (il_server x))"
    by (simp add: settled_def il_inv_def threads_ok_def)
  from settled_inv [OF il_lost(3) _ _ this, of "il_finishing x"] il_lost show ?case by simp
qed (simp_all add: start_inv_il start_failed_inv start_listen_inv start_user_inv stop_inv wait_inv stopped_inv
      accept_inv_il check_inv listen_inv)

lemma il_init: "il_inv (at_rest (new_tcp_server n ssl, False))"
  by (simp add: il_inv_def il_ok new_tcp_server_def tracked_def new_scheduler_def)

section \<open>Refinement of the abstract server\<close>

text \<open>As long as \<open>start\<close> has not called \<open>listen\<close>, the server counts as stopped.\<close>

definition il_abs :: "interleaved \<Rightarrow> pool_state" where
  "il_abs x =
     (if il_control x = Start_listen then Stopped else if ts_listening (il_server x) then Running
      else if il_control x = Stop_waiting then Stopping else Stopped, live (il_server x))"

lemma il_abs_simps [simp]:
  "il_abs (x\<lparr>il_server := set_conn i c (il_server x)\<rparr>) = il_abs x"
  "il_abs (x\<lparr>il_server := set_conn i c (il_server x), il_locked_up := b\<rparr>) = il_abs x"
  "il_abs (x\<lparr>il_server := set_conn i c (il_server x), il_accepts := f\<rparr>) = il_abs x"
  "il_abs (x\<lparr>il_accepts := f\<rparr>) = il_abs x" "il_abs (x\<lparr>il_finishing := F\<rparr>) = il_abs x"
  by (simp_all add: il_abs_def) (simp_all add: set_conn_def)

lemma il_abs_closed:
  assumes "ts_listening (il_server y) = ts_listening (il_server x)" "il_control y = il_control x"
    and "i \<in> live (il_server x)" "live (il_server y) = live (il_server x) - {i} \<or> live (il_server y) = live (il_server x)"
  shows "il_abs y = il_abs x \<or> pool_step (il_abs x) (il_abs y)"
  using close_or_same [OF assms(3,4)] assms(1,2) by (simp add: il_abs_def)

lemma moved_abs:
  assumes "moved p (x\<lparr>il_accepts := f\<rparr>) y" "p \<in> ts_pending (il_server x)"
  shows "il_abs y = il_abs x \<or> pool_step (il_abs x) (il_abs y)"
  using assms live_pending [OF assms(2)]
  by (intro il_abs_closed [of y x "op_conn p"]) (auto simp: moved_def same_flags_def)

lemma listen_abs:
  assumes "il_inv x" "il_control x \<noteq> Start_listen" "listen (il_server x) = Ts_ok s" "il_control y = il_control x" "il_server y = s"
  shows "il_abs y = il_abs x \<or> pool_step (il_abs x) (il_abs y)"
proof (cases "ts_listening (il_server x)")
  case True
  have "threads_ok x" using assms(1) by (simp add: il_inv_def)
  note l = listen_threads [OF this assms(3) True]
  from pool_open [OF l(7)] show ?thesis using True l(2,6) assms(2,4,5) by (simp add: il_abs_def)
next
  case False
  then have "s = il_server x" using assms(1,3) by (auto simp: listen_def il_inv_def il_ok tracked_def split: if_splits)
  then show ?thesis using assms(4,5) by (simp add: il_abs_def)
qed

lemma start_listen_abs:
  assumes "il_inv x" "il_control x = Start_listen" "listen (il_server x) = Ts_ok s"
  shows "pool_step (il_abs x) (il_abs (x\<lparr>il_server := s, il_control := Start_user\<rparr>))"
proof -
  have x: "threads_ok x" "ts_listening (il_server x)" "ts_conn_pool (il_server x) = {}"
    using assms(1,2) by (auto simp: il_inv_def control_ok_def)
  then have "live (il_server x) = {}" by (auto simp: threads_ok_def tracked_def live_def)
  with listen_threads [OF x(1) assms(3) x(2)] assms(2) show ?thesis by (simp add: il_abs_def pool_start)
qed

lemma stopped_abs:
  assumes "il_inv x" "il_control x = Stop_waiting" "stop_round (il_server x) = Inr s"
  shows "pool_step (il_abs x) (il_abs (x\<lparr>il_server := s, il_control := Control_idle\<rparr>))"
proof -
  have t: "tracked (il_server x)" "\<not> ts_listening (il_server x)"
    using assms(1,2) by (auto simp: il_inv_def il_ok)
  then have e: "ts_pending (il_server x) = {}" using assms(3) by (auto simp: stop_round_tracked split: if_splits)
  have "live s = {}" "\<not> ts_listening s"
    using assms(3) e t(2) prune_tracked [OF t(1)]
    by (auto simp: stop_round_tracked [OF t(1)] live_def prune_flags split: if_splits)
  then show ?thesis using e t(2) assms(2) by (simp add: il_abs_def live_def pool_stopped)
qed

lemma finish_abs:
  assumes "il_inv x" "i \<in> il_finishing x" "returned (finish_connection hc i (end_op (Handling i) (il_server x))) = Some s"
  shows "il_abs (x\<lparr>il_server := s\<rparr>) = il_abs x \<or> pool_step (il_abs x) (il_abs (x\<lparr>il_server := s\<rparr>))"
proof -
  have t: "tracked (il_server x)" and h: "Handling i \<in> ts_pending (il_server x)"
    using assms(1,2) by (auto simp: il_inv_def threads_ok_def)
  note se = finish_settled [OF ended_unreferenced [OF t h op_conn.simps(3)] assms(3)]
  show ?thesis
    using settled_live [OF se] live_end_op [OF t h] live_pending [OF h] se
    by (intro il_abs_closed [of _ x i]) (auto simp: settled_def same_flags_def end_op_def)
qed

lemma il_step_refines:
  "il_step hc x y \<Longrightarrow> il_inv x \<Longrightarrow> il_abs y = il_abs x \<or> pool_step (il_abs x) (il_abs y)"
proof (induction rule: il_step.induct)
  case (il_start x e s)
  then show ?case
    by (auto simp: start_locked_def Let_def il_abs_def live_def split: if_splits option.splits)
next
  case (il_start_failed x e ex s)
  then show ?case
    by (auto simp: start_locked_def Let_def il_abs_def live_def split: if_splits option.splits)
next
  case (il_start_user x)
  then show ?case by (simp add: il_abs_def live_def)
next
  case (il_stop x w)
  then show ?case by (simp add: il_abs_def stop_begin_def Let_def live_def pool_stop)
next
  case (il_wait x s)
  then have "tracked (il_server x)" by (simp add: il_inv_def threads_ok_def)
  with il_wait show ?case by (auto simp: il_abs_def stop_round_tracked prune_flags split: if_splits)
next
  case (il_listen x i err s)
  then have "il_control x \<noteq> Start_listen"
    by (auto simp: il_inv_def il_ok tracked_def accepts_def)
  with il_listen show ?case by (intro listen_abs [of x s]) simp_all
next
  case (il_proceed x i err)
  then have "threads_ok x" "Accepting i \<in> ts_pending (il_server x)" by (auto simp: il_inv_def threads_ok_def accepts_def)
  from moved_abs [OF accept_proceed_moved [OF this(1) il_proceed(1)] this(2)] show ?case .
next
  case (il_handshake i x err)
  then have "moved (Handshaking i) (x\<lparr>il_accepts := il_accepts x\<rparr>) (handshake_proceed hc i err x)"
    using handshake_proceed_moved [of x i hc err] by (simp add: il_inv_def)
  from moved_abs [OF this il_handshake(1)] show ?case .
next
  case (il_lost i x)
  then have "tracked (il_server x)" by (simp add: il_inv_def threads_ok_def)
  with il_lost live_end_op [OF this il_lost(1)] live_pending [OF il_lost(1)] show ?case
    by (intro il_abs_closed [of _ x i]) (simp_all add: end_op_def)
qed (simp_all add: start_listen_abs stopped_abs finish_abs)

interpretation interleaving: refinement "il_step hc" pool_step il_abs il_inv for hc
  by unfold_locales (rule il_step_inv, assumption+, rule il_step_refines)

lemma il_reach_inv: "il_reach hc x \<Longrightarrow> il_inv x"
  unfolding il_reach_def using interleaving.inv_run [OF _ il_init] by blast

section \<open>The coarser system\<close>

lemma restart_end:
  assumes "tracked s" "p \<in> ts_pending s" "op_conn p = i"
  shows "end_op (Handling i) (begin_op (Handling i) (set_conn i c (end_op p s))) = set_conn i c (end_op p s)"
proof -
  have "Handling i \<notin> ts_pending (end_op p s)" using ended_unreferenced(3) [OF assms] by (metis imageI op_conn.simps(3))
  then show ?thesis by (simp add: server_ops)
qed

lemma to_finish_runs:
  assumes "tracked (il_server x)" "p \<in> ts_pending (il_server x)" "op_conn p = i" "il_finishing x = {}" "\<not> il_locked_up x"
    and "returned (finish_connection hc i (end_op p (il_server x))) = Some s"
  shows "il_step hc (to_finish p i x) (x\<lparr>il_server := s\<rparr>)"
proof -
  have "set_conn i (ts_conns (il_server x) i) (end_op p (il_server x)) = end_op p (il_server x)" by (simp add: server_ops)
  with restart_end [OF assms(1-3), of "ts_conns (il_server x) i"]
  have "end_op (Handling i) (il_server (to_finish p i x)) = end_op p (il_server x)" by (simp add: to_finish_def)
  then have "il_step hc (to_finish p i x) (x\<lparr>il_server := s, il_finishing := {}\<rparr>)"
    using assms(4-6) il_finish [of i "to_finish p i x" hc s] by (simp add: to_finish_def)
  moreover have "x\<lparr>il_server := s, il_finishing := {}\<rparr> = x\<lparr>il_server := s\<rparr>" using assms(4) by (cases x) simp
  ultimately show ?thesis by metis
qed

lemma handle_unlocked_runs:
  assumes "tracked (il_server x)" "p \<in> ts_pending (il_server x)" "op_conn p = i" "il_finishing x = {}" "\<not> il_locked_up x"
    and "returned (run_handle_connection hc i (end_op p (il_server x))) = Some s"
  shows "(il_step hc)\<^sup>*\<^sup>* (handle_unlocked hc p i x) (x\<lparr>il_server := s\<rparr>)"
proof (cases "hc (ts_conns (il_server x) i)")
  case (Finishes c)
  let ?x = "x\<lparr>il_server := set_conn i c (il_server x)\<rparr>"
  have "end_op p (il_server ?x) = set_conn i c (end_op p (il_server x))" by (simp add: server_ops)
  moreover have "ts_conns (end_op p (il_server x)) = ts_conns (il_server x)" by (simp add: end_op_def)
  ultimately have "returned (finish_connection hc i (end_op p (il_server ?x))) = Some s"
    using assms(6) Finishes by (simp add: run_handle_connection_def)
  then have "il_step hc (to_finish p i ?x) (?x\<lparr>il_server := s\<rparr>)"
    using assms(1-5) by (intro to_finish_runs) (simp_all, simp add: set_conn_def)
  with Finishes show ?thesis by (simp add: handle_unlocked_def r_into_rtranclp)
qed (use assms in \<open>simp_all add: handle_unlocked_def run_handle_connection_def server_ops\<close>)

text \<open>The callback of an accept \<open>i\<close> at the phase \<open>ph\<close>, nothing else running.\<close>

abbreviation at_phase :: "nat \<Rightarrow> tcp_server \<Rightarrow> bool \<Rightarrow> accept_phase \<Rightarrow> interleaved" where
  "at_phase i s st ph \<equiv> (at_rest (s, st))\<lparr>il_accepts := [i \<mapsto> ph]\<rparr>"

lemma accept_listens:
  assumes "tracked s" "Accepting i \<in> ts_pending s"
  obtains s1 where "(il_step hc)\<^sup>*\<^sup>* (at_phase i s st (Check_listening err)) (at_phase i s1 st (Proceed err))"
    and "tracked s1" and "Accepting i \<in> ts_pending s1" and "(if ts_listening s then listen s else Ts_ok s) = Ts_ok s1"
proof (cases "ts_listening s")
  case True
  then obtain s1 where l: "listen s = Ts_ok s1" "tracked s1" "ts_pending s1 = insert (Accepting (ts_next s)) (ts_pending s)"
    using listen_eq [OF assms(1)] by auto
  have "il_step hc (at_phase i s st (Check_listening err)) (at_phase i s st (Call_listen err))"
    using il_check [of "at_phase i s st (Check_listening err)" i err "Call_listen err" hc] True by simp
  moreover have "il_step hc (at_phase i s st (Call_listen err)) (at_phase i s1 st (Proceed err))"
    using il_listen [of "at_phase i s st (Call_listen err)" i err s1 hc] l(1) by simp
  ultimately show ?thesis using l assms(2) True by (intro that [of s1]) auto
next
  case False
  then have "il_step hc (at_phase i s st (Check_listening err)) (at_phase i s st (Proceed err))"
    using il_check [of "at_phase i s st (Check_listening err)" i err "Proceed err" hc] by simp
  then show ?thesis using assms False by (intro that [of s]) auto
qed

text \<open>A completed accept: the callback runs through without interruption.\<close>

lemma accept_runs:
  assumes "server_inv (s, st)" "Accepting i \<in> ts_pending s" "returned (handle_accept hc i err ip s) = Some s'"
  shows "(il_step hc)\<^sup>*\<^sup>* (at_rest (s, st)) (at_rest (s', st))"
proof -
  define c where "c = (if err then ts_conns s i else (ts_conns s i)\<lparr>tc_open := True, tc_remote_ip := ip\<rparr>)"
  define s0 where "s0 = set_conn i c s"
  have s0_err: "err \<Longrightarrow> s0 = s" by (simp add: s0_def c_def set_conn_def)
  have t0: "tracked s0" "Accepting i \<in> ts_pending s0"
    using assms(1,2) by (simp_all add: s0_def) (simp_all add: set_conn_def)
  have ha: "handle_accept hc i err ip s = bind_outcome (accept_rest hc i err) (if ts_listening s0 then listen s0 else Ts_ok s0)"
    using s0_err by (cases err) (simp_all add: handle_accept_def Let_def s0_def c_def)
  have 1: "il_step hc (at_rest (s, st)) (at_phase i s0 st (Check_listening err))"
    using il_accept [of i "at_rest (s, st)" c err ip hc] assms(2) by (simp add: c_def s0_def)
  obtain s1 where s1: "(il_step hc)\<^sup>*\<^sup>* (at_phase i s0 st (Check_listening err)) (at_phase i s1 st (Proceed err))"
    "tracked s1" "Accepting i \<in> ts_pending s1" "(if ts_listening s0 then listen s0 else Ts_ok s0) = Ts_ok s1"
    using accept_listens [OF t0] by metis
  have rest: "returned (accept_rest hc i err s1) = Some s'"
    using assms(3) ha s1(4) by (simp add: bind_outcome_def)
  have 2: "il_step hc (at_phase i s1 st (Proceed err)) (accept_proceed hc i err (at_phase i s1 st (Proceed err)))"
    by (rule il_proceed) simp
  have "(il_step hc)\<^sup>*\<^sup>* (accept_proceed hc i err (at_phase i s1 st (Proceed err))) (at_rest (s', st))"
    using s1(2,3) rest to_finish_runs [of "at_rest (s1, st)" "Accepting i" i hc s'] handle_unlocked_runs [of "at_rest (s1, st)" "Accepting i" i hc s']
    by (auto simp: accept_proceed_def Let_def end_op_def split: if_splits)
  with 1 2 s1(1) show ?thesis by (meson converse_rtranclp_into_rtranclp rtranclp_trans)
qed

lemma handshake_runs:
  assumes "server_inv (s, st)" "Handshaking i \<in> ts_pending s" "returned (handle_ssl_handshake hc i err s) = Some s'"
  shows "(il_step hc)\<^sup>*\<^sup>* (at_rest (s, st)) (at_rest (s', st))"
proof -
  have "il_step hc (at_rest (s, st)) (handshake_proceed hc i err (at_rest (s, st)))"
    using assms(2) by (intro il_handshake) simp
  moreover have "(il_step hc)\<^sup>*\<^sup>* (handshake_proceed hc i err (at_rest (s, st))) (at_rest (s', st))"
    using assms to_finish_runs [of "at_rest (s, st)" "Handshaking i" i hc s'] handle_unlocked_runs [of "at_rest (s, st)" "Handshaking i" i hc s']
    by (auto simp: handshake_proceed_def handle_ssl_handshake_def Let_def split: if_splits)
  ultimately show ?thesis by (rule converse_rtranclp_into_rtranclp)
qed

lemma finish_runs:
  assumes "Handling i \<in> ts_pending s" "returned (finish_connection hc i (end_op (Handling i) s)) = Some s'"
  shows "(il_step hc)\<^sup>*\<^sup>* (at_rest (s, st)) (at_rest (s', st))"
proof -
  let ?x = "(at_rest (s, st))\<lparr>il_finishing := {i}\<rparr>"
  have "il_step hc (at_rest (s, st)) ?x" using il_complete [of i "at_rest (s, st)" hc] assms(1) by simp
  moreover have "il_step hc ?x (at_rest (s', st))" using il_finish [of i ?x hc s'] assms(2) by simp
  ultimately show ?thesis by (simp add: converse_rtranclp_into_rtranclp)
qed

lemma start_runs:
  assumes "server_inv (s, False)" "returned (start e s) = Some s'"
  shows "(il_step hc)\<^sup>*\<^sup>* (at_rest (s, False)) (at_rest (s', False))"
proof (cases "ts_listening s \<or> ts_acceptor_open s \<or> e \<noteq> None")
  case True
  with assms(2) consider "s' = s" | ex where "start_locked e s = Ts_raised ex s'"
    by (auto simp: start_def start_locked_def Let_def split: if_splits option.splits)
  then show ?thesis
  proof cases
    case 2
    then have "il_step hc (at_rest (s, False)) (at_rest (s', False))"
      using il_start_failed [of "at_rest (s, False)" e ex s' hc] by simp
    then show ?thesis by simp
  qed simp
next
  case False
  let ?s = "s\<lparr>ts_acceptor_open := True, ts_listening := True\<rparr>"
  have "tracked ?s" using assms(1) by (simp add: tracked_def)
  then obtain s1 where s1: "listen ?s = Ts_ok s1" using listen_eq [of ?s] by auto
  have s': "s' = s1\<lparr>ts_scheduler := add_active_user (ts_scheduler s1)\<rparr>"
    using assms(2) False s1 by (simp add: start_def Let_def bind_outcome_def)
  let ?x = "\<lambda>s c. (at_rest (s, False))\<lparr>il_control := c\<rparr>"
  have "il_step hc (at_rest (s, False)) (?x ?s Start_listen)"
    using il_start [of "at_rest (s, False)" e ?s hc] False by (simp add: start_locked_def)
  moreover have "il_step hc (?x ?s Start_listen) (?x s1 Start_user)"
    using il_start_listen [of "?x ?s Start_listen" s1 hc] s1 by simp
  moreover have "il_step hc (?x s1 Start_user) (at_rest (s', False))"
    using il_start_user [of "?x s1 Start_user" hc] s' by simp
  ultimately show ?thesis by (meson converse_rtranclp_into_rtranclp r_into_rtranclp)
qed

text \<open>Every step of the coarser system is a run of this one.\<close>

lemma server_step_runs:
  "server_step hc x y \<Longrightarrow> server_inv x \<Longrightarrow> (il_step hc)\<^sup>*\<^sup>* (at_rest x) (at_rest y)"
proof (induction rule: server_step.induct)
  case (step_start e s s' x)
  then show ?case by (intro start_runs) (auto simp: returned_iff)
next
  case (step_stop s w)
  then have "il_step hc (at_rest (s, False)) (at_rest (stop_begin w s, True))"
    using il_stop [of "at_rest (s, False)" hc w] by simp
  then show ?case by blast
next
  case (step_wait s s')
  then have "il_step hc (at_rest (s, True)) (at_rest (s', True))" using il_wait [of "at_rest (s, True)" s' hc] by simp
  then show ?case by blast
next
  case (step_stopped s s')
  then have "il_step hc (at_rest (s, True)) (at_rest (s', False))" using il_stopped [of "at_rest (s, True)" s' hc] by simp
  then show ?case by blast
next
  case (step_accept i s err ip s' x st)
  then show ?case by (intro accept_runs [of s st i]) (auto simp: returned_iff)
next
  case (step_handshake i s err s' x st)
  then show ?case by (intro handshake_runs [of s st i]) (auto simp: returned_iff)
next
  case (step_progress i s st c)
  then have "il_step hc (at_rest (s, st)) (at_rest (set_conn i c s, st))" using il_progress [of i "at_rest (s, st)" hc c] by simp
  then show ?case by blast
next
  case (step_finish i s s' x st)
  then show ?case by (intro finish_runs [of i]) (auto simp: returned_iff)
next
  case (step_lost i s st)
  then have "il_step hc (at_rest (s, st)) (at_rest (end_op (Handling i) s, st))" using il_lost [of i "at_rest (s, st)" hc] by simp
  then show ?case by blast
next
  case (step_broadcast i s st bufs)
  then have "il_step hc (at_rest (s, st)) (at_rest (set_conn i (async_write bufs (ts_conns s i)) s, st))"
    using il_broadcast [of i "at_rest (s, st)" hc bufs] by simp
  then show ?case by blast
qed

lemma server_reach_il: "server_reach hc x \<Longrightarrow> il_reach hc (at_rest x)"
proof (induction rule: server_reach.induct)
  case (reach_init n ssl)
  then show ?case by (auto simp: il_reach_def)
next
  case (reach_step s s')
  from il_reach_run [OF reach_step.IH server_step_runs [OF reach_step(2) server_reach_inv [OF reach_step(1)]]]
  show ?case .
qed

section \<open>A mutex that is never released\<close>

text \<open>
  What no thread can change any more once the mutex is held for good. The thread in \<open>start\<close> may
  become a user of the scheduler, nothing else happens to the server itself.
\<close>

definition frozen :: "interleaved \<Rightarrow> interleaved \<Rightarrow> bool" where
  "frozen x y \<longleftrightarrow>
     il_locked_up y \<and> ts_listening (il_server y) = ts_listening (il_server x)
     \<and> ts_acceptor_open (il_server y) = ts_acceptor_open (il_server x)
     \<and> ts_conn_pool (il_server y) = ts_conn_pool (il_server x) \<and> ts_next (il_server y) = ts_next (il_server x)
     \<and> (il_control y = Stop_waiting \<longleftrightarrow> il_control x = Stop_waiting)"

lemma step_frozen: "il_step hc x y \<Longrightarrow> il_locked_up x \<Longrightarrow> frozen x y"
  by (induction rule: il_step.induct)
     (auto simp: frozen_def accept_proceed_def handshake_proceed_def handle_unlocked_def to_finish_def server_ops Let_def
       split: conn_result.split)

lemma locked_up_frozen:
  assumes "(il_step hc)\<^sup>*\<^sup>* x y" "il_locked_up x"
  shows "frozen x y"
  using assms(1)
proof (induction rule: rtranclp_induct)
  case base
  then show ?case using assms(2) by (simp add: frozen_def)
next
  case (step y z)
  then have "frozen y z" by (intro step_frozen) (auto simp: frozen_def)
  with step.IH show ?case by (simp add: frozen_def)
qed

section \<open>Properties\<close>

text \<open>
  C7: the state of the server whatever the threads do between the sections under the mutex. Each
  operation in flight or callback that runs belongs to a connection of the pool, and a connection
  has at most one. Once \<open>start\<close> has called \<open>listen\<close>, a server that listens has an open acceptor and
  exactly one accept that is in flight or whose callback will still call \<open>listen\<close>: clients are
  never left without an accept, and there are never two. Outside of \<open>start\<close> and \<open>stop\<close> a server
  that does not listen has no connection, nothing in flight and no callback that runs. The server is
  a user of its scheduler from the end of \<open>start\<close> to the end of \<open>stop\<close>.
\<close>

theorem interleaved_invariant:
  assumes "il_reach hc x"
  shows "op_conn ` ts_pending (il_server x) \<subseteq> ts_conn_pool (il_server x) \<and> inj_on op_conn (ts_pending (il_server x))
    \<and> (\<forall>i. il_accepts x i \<noteq> None \<longrightarrow> Accepting i \<in> ts_pending (il_server x))
    \<and> (\<forall>i\<in>il_finishing x. Handling i \<in> ts_pending (il_server x))
    \<and> (ts_listening (il_server x) \<and> il_control x \<noteq> Start_listen
        \<longrightarrow> ts_acceptor_open (il_server x)
            \<and> (\<exists>!i. Accepting i \<in> ts_pending (il_server x) \<and> (\<forall>e. il_accepts x i \<noteq> Some (Proceed e))))
    \<and> (il_control x = Control_idle \<and> \<not> ts_listening (il_server x)
        \<longrightarrow> ts_conn_pool (il_server x) = {} \<and> ts_pending (il_server x) = {}
            \<and> il_accepts x = Map.empty \<and> il_finishing x = {})
    \<and> sc_active_users (ts_scheduler (il_server x))
        = (if il_control x = Stop_waiting \<or> il_control x = Control_idle \<and> ts_listening (il_server x) then 1 else 0)"
proof -
  have inv: "threads_ok x" "control_ok x" using il_reach_inv [OF assms] by (simp_all add: il_inv_def)
  have one: "\<exists>!i. Accepting i \<in> ts_pending (il_server x) \<and> (\<forall>e. il_accepts x i \<noteq> Some (Proceed e))"
    if l: "ts_listening (il_server x)" and c: "il_control x \<noteq> Start_listen"
  proof -
    obtain i where i: "to_listen x = {i}" using inv(2) l c by (auto simp: control_ok_def)
    have "Accepting j \<in> ts_pending (il_server x) \<and> (\<forall>e. il_accepts x j \<noteq> Some (Proceed e)) \<longleftrightarrow> j = i" for j
      using i by (auto simp: to_listen_def accepts_def)
    then show ?thesis by (intro ex1I [of _ i]) simp_all
  qed
  show ?thesis
    using inv one by (cases "il_control x") (auto simp: il_ok tracked_def accepts_def)
qed

lemma listen_conns:
  assumes "tracked s" "listen s = Ts_ok s'" "i \<in> op_conn ` ts_pending s"
  shows "ts_conns s' i = ts_conns s i"
proof -
  have "i \<in> ts_conn_pool s" using assms(1,3) by (auto simp: tracked_def)
  then have "i \<noteq> ts_next s" using assms(1) by (auto simp: tracked_def)
  then show ?thesis
    using assms by (auto simp: listen_def prune_connections_def referenced_def server_ops Let_def split: if_splits)
qed

text \<open>A run to a connection that is being handled, when handling starts with an operation.\<close>

lemma first_connection:
  "start None (new_tcp_server 2 False) = Ts_ok s \<Longrightarrow> ts_conns s 0 = async_accept (new_tcp_connection False (Address_v4 0))"
  by (auto simp: start_def listen_def bind_outcome_def new_tcp_server_def prune_connections_def referenced_def server_ops Let_def)

lemma handling_reach:
  assumes "\<And>c. \<not> is_pipelined c \<Longrightarrow> \<exists>c'. hc c = In_progress c'"
  shows "\<exists>x. il_reach hc x \<and> ts_listening (il_server x) \<and> \<not> il_locked_up x \<and> il_finishing x = {} \<and> Handling 0 \<in> ts_pending (il_server x)"
proof -
  obtain s where s: "start None (new_tcp_server 2 False) = Ts_ok s" "ts_listening s" "ts_pending s = {Accepting 0}"
    "server_reach hc (s, False)"
    using started_server by blast
  define c where "c = (ts_conns s 0)\<lparr>tc_open := True, tc_remote_ip := Address_v4 0\<rparr>"
  have c: "\<not> tc_ssl_flag c" "\<not> is_pipelined c"
    using first_connection [OF s(1)] by (simp_all add: c_def new_tcp_connection_def conn_defs)
  let ?s = "set_conn 0 c s"
  have t: "tracked ?s" "Accepting 0 \<in> ts_pending ?s" "ts_conns ?s 0 = c" "ts_listening ?s"
    using server_reach_inv [OF s(4)] s(2,3) by simp_all (simp_all add: set_conn_def)
  obtain s1 where s1: "(il_step hc)\<^sup>*\<^sup>* (at_phase 0 ?s False (Check_listening False)) (at_phase 0 s1 False (Proceed False))"
    "tracked s1" "Accepting 0 \<in> ts_pending s1" "listen ?s = Ts_ok s1"
    using accept_listens [OF t(1,2), of hc False False] t(4) by metis
  have c1: "ts_conns s1 0 = c" using listen_conns [OF t(1) s1(4), of 0] t(2,3) by force
  obtain c' where c': "hc c = In_progress c'" using assms [OF c(2)] by blast
  define y where "y = at_rest (begin_op (Handling 0) (set_conn 0 c' (end_op (Accepting 0) s1)), False)"
  have "il_step hc (at_rest (s, False)) (at_phase 0 ?s False (Check_listening False))"
    using il_accept [of 0 "at_rest (s, False)" c False "Address_v4 0" hc] s(3) by (simp add: c_def)
  moreover have "accept_proceed hc 0 False (at_phase 0 s1 False (Proceed False)) = y"
    using c1 c c' by (simp add: accept_proceed_def handle_unlocked_def Let_def y_def)
  then have "il_step hc (at_phase 0 s1 False (Proceed False)) y"
    using il_proceed [of "at_phase 0 s1 False (Proceed False)" 0 False hc] by simp
  ultimately have "(il_step hc)\<^sup>*\<^sup>* (at_rest (s, False)) y"
    using s1(1) by (meson converse_rtranclp_into_rtranclp r_into_rtranclp rtranclp_trans)
  then have "il_reach hc y" using il_reach_run [OF server_reach_il [OF s(4)]] by blast
  moreover have "ts_listening s1" using listen_eq [OF t(1,4)] s1(4) by auto
  ultimately show ?thesis by (intro exI [of _ y]) (simp add: y_def server_ops)
qed

lemma accepted_reach:
  "\<exists>x. il_reach hc x \<and> ts_listening (il_server x) \<and> il_control x = Control_idle \<and> il_accepts x 0 = Some (Check_listening False)"
proof -
  obtain s where s: "ts_listening s" "ts_pending s = {Accepting 0}" "server_reach hc (s, False)"
    using started_server by blast
  have reach: "il_reach hc (at_rest (s, False))" by (rule server_reach_il [OF s(3)])
  define c where "c = (ts_conns s 0)\<lparr>tc_open := True, tc_remote_ip := Address_v4 0\<rparr>"
  have "il_step hc (at_rest (s, False)) (at_phase 0 (set_conn 0 c s) False (Check_listening False))"
    using il_accept [of 0 "at_rest (s, False)" c False "Address_v4 0" hc] s(2) by (simp add: c_def)
  with reach have "il_reach hc (at_phase 0 (set_conn 0 c s) False (Check_listening False))"
    by (rule il_reach_step)
  with s(1) show ?thesis
    by (intro exI [of _ "at_phase 0 (set_conn 0 c s) False (Check_listening False)"]) (simp add: set_conn_def)
qed

theorem interleaved_invariant_witness:
  "\<exists>x. il_reach base_handle_connection x \<and> il_accepts x 0 = Some (Check_listening False)
     \<and> Accepting 0 \<in> ts_pending (il_server x)
     \<and> (\<exists>!i. Accepting i \<in> ts_pending (il_server x) \<and> (\<forall>e. il_accepts x i \<noteq> Some (Proceed e)))"
proof -
  obtain x where x: "il_reach base_handle_connection x" "ts_listening (il_server x)" "il_control x = Control_idle"
    "il_accepts x 0 = Some (Check_listening False)"
    using accepted_reach by blast
  from interleaved_invariant [OF x(1)] x show ?thesis by (intro exI [of _ x]) simp
qed

text \<open>
  C10: also with all interleavings the server refines the abstract server. Seen as a mode (stopped,
  running, stopping) and a set of connections something is going on with, every run is a run of the
  abstract server: from stopped only \<open>start\<close> leads on, with one connection; while running, connections
  are opened, replaced and closed one at a time; when stopping they are only closed; and the server
  is stopped only when none is left.
\<close>

theorem interleaved_refines_pool:
  assumes "il_reach hc x"
  shows "pool_step\<^sup>*\<^sup>* (Stopped, {}) (il_abs x)"
proof -
  obtain n ssl where "(il_step hc)\<^sup>*\<^sup>* (at_rest (new_tcp_server n ssl, False)) x"
    using assms by (auto simp: il_reach_def)
  from interleaving.simulated_run [OF this il_init] show ?thesis
    by (simp add: il_abs_def new_tcp_server_def live_def)
qed

theorem interleaved_refines_pool_witness:
  "\<exists>x. il_accepts x 0 = Some (Check_listening False) \<and> fst (il_abs x) = Running \<and> pool_step\<^sup>*\<^sup>* (Stopped, {}) (il_abs x)"
proof -
  obtain x where x: "il_reach base_handle_connection x" "ts_listening (il_server x)" "il_control x = Control_idle"
    "il_accepts x 0 = Some (Check_listening False)"
    using accepted_reach by blast
  from interleaved_refines_pool [OF x(1)] x show ?thesis by (intro exI [of _ x]) (simp add: il_abs_def)
qed

end
