(* ===== verification/Server_System.thy ===== *)
theory Server_System
  imports Request_Service Tcp_Interleaving
begin

text \<open>
  \<open>http_server\<close> as a \<open>tcp_server\<close>: its \<open>handle_connection\<close>, and what follows for the server from
  what the reader does.
\<close>

section \<open>The connection handler of the HTTP server\<close>

text \<open>The events a call has added to those of the connection it was given.\<close>

definition new_events :: "tcp_connection \<Rightarrow> tcp_connection \<Rightarrow> conn_event list" where
  "new_events c c' = drop (length (tc_events c)) (tc_events c')"

text \<open>
  What \<open>handle_connection\<close> comes to: operations in flight, a connection finished before it
  returns (\<open>finish\<close> was called), or an exception.
\<close>

definition conn_result_of :: "tcp_connection \<Rightarrow> 'ws reader_outcome \<Rightarrow> conn_result" where
  "conn_result_of c out =
     (case out of
        Reading r c' \<Rightarrow> In_progress c'
      | Reader_threw e c' \<Rightarrow> Raises e c'
      | Completed (Threw e c') \<Rightarrow> Raises e c'
      | Completed (Upgraded path ident hs req c') \<Rightarrow> In_progress c'
      | Completed (Handled c') \<Rightarrow> if Finished \<in> set (new_events c c') then Finishes c' else In_progress c')"

definition http_connection_handler ::
  "sl_utils \<Rightarrow> 'ws \<Rightarrow> 'ws \<Rightarrow> nat \<Rightarrow> nat \<Rightarrow> bool \<Rightarrow> 'ws http_server \<Rightarrow> connection_handler" where
  "http_connection_handler E rf nf g1 g2 g3 s c = conn_result_of c (handle_connection E rf nf g1 g2 g3 s c)"

text \<open>A connection without pipelined bytes only starts a read.\<close>

lemma http_handler_reads:
  "\<not> is_pipelined c \<Longrightarrow> \<exists>c'. http_connection_handler E rf nf g1 g2 g3 s c = In_progress c'"
  by (simp add: http_connection_handler_def handle_connection_def receive_def read_bytes_with_timeout_def conn_result_of_def)

section \<open>The configuration of SSL\<close>

text \<open>
  What the constructor of \<open>http_server\<close> asks of the SSL context, in order, and the SSL flag of the
  server. The options and callbacks belong to asio.
\<close>

datatype ssl_setting =
    Set_options
  | Set_password_callback
  | Use_certificate_file byte_string
  | Use_private_key_file byte_string
  | Load_verify_file byte_string
  | Set_verify_callback
  | Set_verify_mode_peer
  | Set_session_id_context byte_string

definition configure_ssl :: "byte_string \<Rightarrow> byte_string \<Rightarrow> bool \<times> ssl_setting list" where
  "configure_ssl ssl_key_file ssl_verify_file =
     (if ssl_key_file \<noteq> [] then
        (True,
         [Set_options, Set_password_callback, Use_certificate_file ssl_key_file, Use_private_key_file ssl_key_file]
         @ (if ssl_verify_file \<noteq> []
            then [Load_verify_file ssl_verify_file, Set_verify_callback, Set_verify_mode_peer, Set_session_id_context ''pion'']
            else []))
      else (False, []))"

text \<open>
  Certificates of clients are asked for exactly when both files are given; then the server speaks
  SSL, with its own certificate and the file to verify against. A file to verify against without a
  key file changes nothing: such a server accepts plain connections from anybody.
\<close>

lemma client_certificates:
  "Set_verify_mode_peer \<in> set (snd (configure_ssl key verify)) \<longleftrightarrow> key \<noteq> [] \<and> verify \<noteq> []"
  "Set_verify_mode_peer \<in> set (snd (configure_ssl key verify)) \<Longrightarrow>
     fst (configure_ssl key verify) \<and> {Use_certificate_file key, Use_private_key_file key, Load_verify_file verify}
       \<subseteq> set (snd (configure_ssl key verify))"
  "fst (configure_ssl [] verify) = False" "snd (configure_ssl [] verify) = []"
  by (auto simp: configure_ssl_def split: if_splits)

text \<open>So all connections of a server with a key file start with a handshake, and only those.\<close>

lemma accepted_by_ssl:
  assumes "listen s = Ts_ok s'" and "ts_listening s" and "ts_ssl_flag s = fst (configure_ssl key verify)"
  shows "tc_ssl_flag (ts_conns s' (ts_next s)) \<longleftrightarrow> key \<noteq> []"
proof -
  have "tc_ssl_flag (ts_conns s' (ts_next s)) = ts_ssl_flag s"
    using assms(1,2) by (auto simp: listen_def prune_connections_def server_ops Let_def new_tcp_connection_def conn_defs split: if_splits)
  then show ?thesis using assms(3) by (simp add: configure_ssl_def)
qed

section \<open>A payload handler that throws\<close>

lemma content_loop_rejected:
  assumes "hp_message_state p = PARSE_CONTENT" "hp_bytes_content_remaining p > 0"
    and "hp_payload_handler p = Some h" "\<And>seen b. \<not> h seen b"
  shows "\<exists>p'. parse_loop E hook w k p m ec = (w, Inr (TFalse, k, ec, p', m))"
  using assms
  by (subst parse_loop.simps)
     (auto simp: parse_pass_def content_pass_def consume_content_def bytes_available_def Let_def)

lemma parse_rejected:
  assumes "hp_message_state p = PARSE_START" and "\<not> m_has_missing_packets m"
    and "parse_headers (p\<lparr>hp_message_state := PARSE_HEADERS\<rparr>) m None = (TTrue, None, p1, m1)"
    and "finish_header_parsing E hook w p1 m1 None = (w', Inr (Indeterminate, None, p2, m2))"
    and "hp_message_state p2 = PARSE_CONTENT" "hp_bytes_content_remaining p2 > 0" "hp_read p2 \<noteq> []"
    and "hp_payload_handler p2 = Some h" "\<And>seen b. \<not> h seen b"
  shows "\<exists>p3. parse E hook w p m None = (w', Inr (TFalse, None, p3, compute_msg_status m2 False))"
proof -
  let ?k = "hp_bytes_last_read p1"
  have "hp_message_state p1 = PARSE_HEADERS"
    using parse_headers_keeps(1) [OF assms(3)] by (simp add: head_frame_def)
  with assms(1,3,4) have pass: "parse_pass E hook w p m None = (w', Inr (Indeterminate, ?k, None, p2, m2))"
    by (simp add: parse_pass_def headers_pass_def Let_def)
  obtain p3 where p3: "parse_loop E hook w' ?k p2 m2 None = (w', Inr (TFalse, ?k, None, p3, m2))"
    using content_loop_rejected [OF assms(5,6,8,9), of E hook w' ?k m2 None] by blast
  have "\<not> eof p2" using assms(7) by (simp add: eof_def)
  with pass p3 assms(2) have "parse E hook w p m None
      = (w', Inr (TFalse, None, p3\<lparr>hp_bytes_last_read := ?k\<rparr>, compute_msg_status m2 False))"
    by (simp add: parse_def parse_loop.simps [of E hook w 0 p m] parse_end_def)
  then show ?thesis by blast
qed

text \<open>A request marked invalid without an error code is finished at once.\<close>

lemma invalid_finishes:
  "handle_request E rf nf s (set_is_valid False m) c EC_none = Handled (finish_conn (set_lifecycle Lifecycle_close c))"
  by (simp add: handle_request_def set_is_valid_def Let_def)

lemma new_events_finish:
  "Finished \<in> set (new_events c (finish_conn (set_lifecycle l2 (set_lifecycle l1 (continue_sent E hs (set_lifecycle l c))))))"
  by (simp add: new_events_def continue_sent_def conn_defs)

text \<open>
  A pipelined request whose payload handler throws: let a connection be kept alive with the text of a
  well-formed request with a body, or the beginning of one, left in its buffer, and let the payload
  handler of its path throw on its first block. When the previous request on the connection is
  finished, \<open>finish_connection\<close> holds the mutex of the server, parses the pipelined request, and
  finishes the connection again: it never returns.
\<close>

lemma pipelined_rejection_deadlocks:
  fixes s :: "'ws http_server"
  assumes "line_ok meth res query" and "list_all header_ok hs" and "ver \<noteq> 0"
    and "dict_find E hs HEADER_TRANSFER_ENCODING = None"
    and "dict_find E hs HEADER_CONTENT_LENGTH = Some kv" "parse_uint64 E (snd kv) = Some len" "len \<noteq> 0"
    and "choose_payloads meth s = Inr payloads"
    and "find_submatch payloads (strip_trailing_slash res) = Some (q, creator)"
    and "\<forall>m. creator m = Inr h" and "\<forall>seen blk. \<not> h seen blk" and "body \<noteq> []"
    and "\<not> ts_locked ts" "ts_listening ts" "is_pipelined (ts_conns ts i)"
    and "load_read_pos (ts_conns ts i) = request_text meth res query ver sub hs @ body"
  shows "finish_connection (http_connection_handler E rf nf g1 g2 g3 s) i ts = Ts_deadlock"
proof -
  define c where "c = ts_conns ts i"
  let ?c1 = "set_lifecycle Lifecycle_close c"
  define r where "r = new_http_request_reader g1 g2 g3 (hs_read_timeout s) c"
  let ?hook = "handle_request_after_headers_parsed E s"
  let ?p0 = "set_read_buffer (request_text meth res query ver sub hs @ body) (rd_parser r)"
  let ?c = "continue_sent E hs ?c1"
  obtain p1 m1 p2 m2 where
    head: "parse_headers (?p0\<lparr>hp_message_state := PARSE_HEADERS\<rparr>) (rd_request r) None = (TTrue, None, p1, m1)"
    and fin: "finish_header_parsing E ?hook ?c1 p1 m1 None = (?c, Inr (Indeterminate, None, set_payload_handler h p2, m2))"
    and p2: "hp_message_state p2 = PARSE_CONTENT" "hp_bytes_content_remaining p2 = unat len" "hp_read p2 = body"
    by (rule payload_head [OF assms(1-10) r_def, of sub body ?c1])
  have fresh: "hp_message_state ?p0 = PARSE_START" "\<not> m_has_missing_packets (rd_request r)"
    by (simp_all add: r_def new_reader_simps set_read_buffer_def)
  have "unat len > 0" using assms(7) by (simp add: unat_gt_0)
  then obtain p3 where "parse E ?hook ?c1 ?p0 (rd_request r) None = (?c, Inr (TFalse, None, p3, compute_msg_status m2 False))"
    using parse_rejected [OF fresh head fin, of h] p2 assms(11,12) by (auto simp: set_payload_handler_def)
  then have out: "handle_connection E rf nf g1 g2 g3 s c
      = Completed (Handled (finish_conn (set_lifecycle Lifecycle_close (set_lifecycle Lifecycle_close ?c))))"
    using assms(15,16)
    by (simp add: handle_connection_def receive_def r_def [symmetric] c_def [symmetric] load_read_pos_def set_lifecycle_def
        consume_bytes_def finished_reading_def invalid_finishes of_error_code_def Let_def)
  then have "http_connection_handler E rf nf g1 g2 g3 s c
      = Finishes (finish_conn (set_lifecycle Lifecycle_close (set_lifecycle Lifecycle_close ?c)))"
    using new_events_finish [of c Lifecycle_close Lifecycle_close E hs Lifecycle_close]
    by (simp add: http_connection_handler_def conn_result_of_def)
  moreover have "get_keep_alive c" using assms(15) by (simp add: c_def get_keep_alive_def is_pipelined_def)
  ultimately show ?thesis
    using assms(13,14) by (simp add: finish_connection_eq c_def)
qed

definition rejecting_server :: "unit http_server" where
  "rejecting_server = (new_http_server utils_ref 1000)\<lparr>hs_post_payloads := [''/x'' \<mapsto> (\<lambda>r. Inr (\<lambda>seen b. False))]\<rparr>"

section \<open>Properties\<close>

text \<open>
  C36: a pipelined request whose payload handler throws locks up the server for good. Let a thread be
  about to finish a connection that is kept alive with the text of a well-formed request with a
  body, or the beginning of one, left in its buffer, and let the payload handler of its path throw on
  its first block. The call of \<open>finish_connection\<close> never returns; the mutex of the server stays
  locked; and whatever the other threads do from then on, the server never accepts another
  connection (it stays at the connections it has, no object for a new one is made), no connection
  leaves the pool, and \<open>stop\<close> neither gets to its loop nor out of it.
\<close>

theorem pipelined_rejection_locks_up:
  fixes s :: "'ws http_server"
  assumes "line_ok meth res query" and "list_all header_ok hs" and "ver \<noteq> 0"
    and "dict_find E hs HEADER_TRANSFER_ENCODING = None"
    and "dict_find E hs HEADER_CONTENT_LENGTH = Some kv" "parse_uint64 E (snd kv) = Some len" "len \<noteq> 0"
    and "choose_payloads meth s = Inr payloads"
    and "find_submatch payloads (strip_trailing_slash res) = Some (q, creator)"
    and "\<forall>m. creator m = Inr h" and "\<forall>seen blk. \<not> h seen blk" and "body \<noteq> []"
    and "hc = http_connection_handler E rf nf g1 g2 g3 s" and "il_reach hc x" and "\<not> il_locked_up x"
    and "i \<in> il_finishing x" and "ts_listening (il_server x)" and "is_pipelined (ts_conns (il_server x) i)"
    and "load_read_pos (ts_conns (il_server x) i) = request_text meth res query ver sub hs @ body"
  shows "finish_connection hc i (end_op (Handling i) (il_server x)) = Ts_deadlock
    \<and> (\<exists>y. il_step hc x y \<and> il_locked_up y
        \<and> (\<forall>z. (il_step hc)\<^sup>*\<^sup>* y z \<longrightarrow> il_locked_up z
            \<and> ts_conn_pool (il_server z) = ts_conn_pool (il_server x)
            \<and> ts_next (il_server z) = ts_next (il_server x)
            \<and> ts_listening (il_server z) \<and> il_control z \<noteq> Stop_waiting))"
proof -
  let ?s = "end_op (Handling i) (il_server x)"
  have inv: "tracked (il_server x)" "il_control x \<noteq> Stop_waiting"
    using il_reach_inv [OF assms(14)] assms(17) by (auto simp: il_inv_def il_ok)
  have dead: "finish_connection hc i ?s = Ts_deadlock"
    unfolding assms(13) using assms(17-19) inv(1)
    by (intro pipelined_rejection_deadlocks [OF assms(1-12)]) (simp_all add: end_op_def tracked_def)
  then obtain c where "hc (ts_conns (il_server x) i) = Finishes c"
    using finish_connection_deadlock [of ?s hc i] inv(1) by (auto simp: end_op_def tracked_def)
  from il_lock_up [OF assms(16,15) dead this]
  have step: "il_step hc x (x\<lparr>il_server := set_conn i c (il_server x), il_locked_up := True\<rparr>)" (is "il_step hc x ?y") .
  have "frozen ?y z" if "(il_step hc)\<^sup>*\<^sup>* ?y z" for z by (rule locked_up_frozen [OF that]) simp
  then show ?thesis
    using dead step inv(2) assms(17) by (intro conjI exI [of _ ?y]) (auto simp: frozen_def set_conn_def)
qed

theorem pipelined_rejection_locks_up_witness:
  "\<exists>x y. il_reach (http_connection_handler utils_ref () () 0 0 False rejecting_server) x
     \<and> il_step (http_connection_handler utils_ref () () 0 0 False rejecting_server) x y \<and> il_locked_up y"
proof -
  let ?hc = "http_connection_handler utils_ref () () 0 0 False rejecting_server"
  have tbl: "choose_payloads ''POST'' rejecting_server = Inr [''/x'' \<mapsto> (\<lambda>r. Inr (\<lambda>seen b. False))]"
    by (simp add: choose_payloads_def choose_map_by_method_def rejecting_server_def method_names)
  have found: "find_submatch [''/x'' \<mapsto> (\<lambda>r. Inr (\<lambda>seen b. False))] (strip_trailing_slash ''/x'')
      = Some (''/x'', (\<lambda>r. Inr (\<lambda>seen b. False)))"
    by (subst find_submatch.simps) (simp add: strip_trailing_slash_def)
  have num: "(1 :: 16 word) \<noteq> 0" "(3 :: 64 word) \<noteq> 0" by simp_all
  obtain x where x: "il_reach ?hc x" "ts_listening (il_server x)" "\<not> il_locked_up x" "il_finishing x = {}"
    "Handling 0 \<in> ts_pending (il_server x)"
    using handling_reach [of ?hc, OF http_handler_reads] by blast
  define c where "c = save_read_pos (request_text ''POST'' ''/x'' [] 1 1 [(''Content-Length'', ''3'')] @ ''a'')
    (set_lifecycle Lifecycle_pipelined sample_conn)"
  let ?x1 = "x\<lparr>il_server := set_conn 0 c (il_server x)\<rparr>" let ?x2 = "?x1\<lparr>il_finishing := {0}\<rparr>"
  have "il_step ?hc x ?x1" using il_progress [OF x(5), of ?hc c] x(4) by simp
  moreover have "il_step ?hc ?x1 ?x2" using il_complete [of 0 ?x1 ?hc] x(4,5) by (simp add: set_conn_def)
  ultimately have reach: "il_reach ?hc ?x2" using x(1) by (blast intro: il_reach_step)
  have conn: "is_pipelined (ts_conns (il_server ?x2) 0)"
    "load_read_pos (ts_conns (il_server ?x2) 0) = request_text ''POST'' ''/x'' [] 1 1 [(''Content-Length'', ''3'')] @ ''a''"
    "ts_listening (il_server ?x2)" "\<not> il_locked_up ?x2" "0 \<in> il_finishing ?x2"
    using x(2,3) by (simp_all add: set_conn_def c_def conn_defs)
  from pipelined_rejection_locks_up [where h = "\<lambda>seen b. False", OF sample_head_ok num(1) sample_content_headers num(2) tbl found _ _ _ refl reach conn(4,5,3,1,2)]
  show ?thesis using reach by auto
qed

end
