(* ===== verification/Websocket.thy ===== *)
theory Websocket
  imports Http_Server
begin

text \<open>
  \<open>websocket.hpp\<close>: the connection after an upgrade. Frames are parsed and made by the library
  \<open>staticlib_websocket\<close>, which is not part of the sources: a parameter.
\<close>

section \<open>The frame library\<close>

datatype frame_type =
  Frame_continuation | Frame_text | Frame_binary | Frame_close | Frame_ping | Frame_pong | Frame_invalid

text \<open>
  A frame is a view of bytes that begin with it. The last three functions make the header of an
  outgoing frame and the parts of the handshake response.
\<close>

record ws_lib =
  fr_well_formed :: "byte_string \<Rightarrow> bool"
  fr_complete :: "byte_string \<Rightarrow> bool"
  fr_final :: "byte_string \<Rightarrow> bool"
  fr_type :: "byte_string \<Rightarrow> frame_type"
  fr_size :: "byte_string \<Rightarrow> nat"
  fr_payload :: "byte_string \<Rightarrow> byte_string"
  fr_make_header :: "frame_type \<Rightarrow> nat \<Rightarrow> byte_string"
  hs_response_line :: byte_string
  hs_response_headers :: "byte_string \<Rightarrow> (byte_string \<times> byte_string) list"

text \<open>The bytes of exactly one frame.\<close>

definition is_frame :: "ws_lib \<Rightarrow> byte_string \<Rightarrow> bool" where
  "is_frame L f \<longleftrightarrow> fr_well_formed L f \<and> fr_complete L f \<and> fr_size L f = length f"

text \<open>
  What the code relies on: what is said of a frame does not depend on the bytes after it, the
  beginning of a frame is well-formed and not complete, and a complete frame lies within the bytes.
\<close>

locale frame_laws =
  fixes L :: ws_lib
  assumes frame_view: "is_frame L f \<Longrightarrow>
      fr_well_formed L (f @ r) \<and> fr_complete L (f @ r) \<and> fr_size L (f @ r) = length f
      \<and> fr_final L (f @ r) = fr_final L f \<and> fr_type L (f @ r) = fr_type L f \<and> fr_payload L (f @ r) = fr_payload L f"
    and frame_prefix: "is_frame L f \<Longrightarrow> strict_prefix p f \<Longrightarrow> fr_well_formed L p \<and> \<not> fr_complete L p"
    and frame_front: "fr_well_formed L bs \<Longrightarrow> fr_complete L bs \<Longrightarrow>
      0 < fr_size L bs \<and> fr_size L bs \<le> length bs \<and> is_frame L (take (fr_size L bs) bs)"

section \<open>State\<close>

text \<open>The enumerators of \<open>close_status\<close>; their values are written to the connection as they lie in memory.\<close>

datatype close_status = Close_normal | Close_going_away | Close_protocol_error | Close_overflow | Close_error

fun close_value :: "close_status \<Rightarrow> 32 word" where
  "close_value Close_normal = 0xe8030288"
| "close_value Close_going_away = 0xe9030288"
| "close_value Close_protocol_error = 0xea030288"
| "close_value Close_overflow = 0xf1030288"
| "close_value Close_error = 0xf3030288"

text \<open>The four bytes of a 32 bit value in memory, lowest first (a little-endian machine).\<close>

definition memory_bytes :: "32 word \<Rightarrow> byte_string" where
  "memory_bytes w = map (\<lambda>k. char_of (unat (drop_bit (8 * k) w AND 0xff))) [0, 1, 2, 3]"

text \<open>
  \<open>ws_frames\<close> holds views of cached frames and, last, of a final frame at the front of the
  receive buffer; both by value. The connection is passed to the operations.
\<close>

record websocket =
  ws_request :: http_request
  ws_receive_buffer_max_size :: nat
  ws_frames_max_count :: nat
  ws_payload_buffers :: "byte_string list"
  ws_payload_cache :: "byte_string list"
  ws_payload_length :: nat
  ws_receive_buffer :: byte_string
  ws_frames_cache :: "byte_string list"
  ws_frames :: "byte_string list"

definition new_websocket :: "http_request \<Rightarrow> nat \<Rightarrow> nat \<Rightarrow> tcp_connection \<Rightarrow> websocket \<times> tcp_connection" where
  "new_websocket req max_receive max_frames c =
     (\<lparr>ws_request = req, ws_receive_buffer_max_size = max_receive, ws_frames_max_count = max_frames,
       ws_payload_buffers = [], ws_payload_cache = [], ws_payload_length = 0,
       ws_receive_buffer = [], ws_frames_cache = [], ws_frames = []\<rparr>,
      set_lifecycle Lifecycle_close c)"

definition destroy_websocket :: "tcp_connection \<Rightarrow> tcp_connection" where
  "destroy_websocket c = finish_conn c"

definition get_id :: "sl_utils \<Rightarrow> websocket \<Rightarrow> byte_string" where
  "get_id E w = get_header E (ws_request w) ''Sec-WebSocket-Key''"

definition message_type :: "ws_lib \<Rightarrow> websocket \<Rightarrow> frame_type" where
  "message_type L w = (case ws_frames w of f # _ \<Rightarrow> fr_type L f | [] \<Rightarrow> Frame_invalid)"

text \<open>All that \<open>msg_data_src\<close> yields: one source for one frame, else the sources one after the other.\<close>

definition message_data :: "ws_lib \<Rightarrow> websocket \<Rightarrow> byte_string" where
  "message_data L w =
     (if length (ws_frames w) = 1 then fr_payload L (ws_frames w ! 0)
      else concat (map (fr_payload L) (ws_frames w)))"

section \<open>Output\<close>

definition add_to_payload_cache :: "byte_string \<Rightarrow> websocket \<Rightarrow> byte_string \<times> websocket" where
  "add_to_payload_cache data w = (data, w\<lparr>ws_payload_cache := ws_payload_cache w @ [data]\<rparr>)"

definition ws_write :: "byte_string \<Rightarrow> websocket \<Rightarrow> websocket" where
  "ws_write data w =
     (if length data > 0
      then (case add_to_payload_cache data w of (buf, w1) \<Rightarrow>
              w1\<lparr>ws_payload_buffers := ws_payload_buffers w1 @ [buf],
                 ws_payload_length := ws_payload_length w1 + length data\<rparr>)
      else w)"

definition ws_write_nocopy :: "byte_string \<Rightarrow> websocket \<Rightarrow> websocket" where
  "ws_write_nocopy data w =
     (if length data > 0
      then w\<lparr>ws_payload_buffers := ws_payload_buffers w @ [data],
             ws_payload_length := ws_payload_length w + length data\<rparr>
      else w)"

definition clear_payload :: "websocket \<Rightarrow> websocket" where
  "clear_payload w = w\<lparr>ws_payload_buffers := [[]], ws_payload_cache := [], ws_payload_length := 0\<rparr>"

text \<open>\<open>payload_buffers[0]\<close> of an empty vector is outside of it.\<close>

definition prepare_header :: "ws_lib \<Rightarrow> frame_type \<Rightarrow> websocket \<Rightarrow> exn + websocket" where
  "prepare_header L msg_type w =
     (let header = fr_make_header L msg_type (ws_payload_length w);
          w1 = w\<lparr>ws_payload_cache := ws_payload_cache w @ [header]\<rparr>
      in if ws_payload_buffers w1 = [] then Inl Memory_fault
         else Inr (w1\<lparr>ws_payload_buffers := (ws_payload_buffers w1)[0 := header]\<rparr>))"

definition prepare_handshake :: "sl_utils \<Rightarrow> ws_lib \<Rightarrow> websocket \<Rightarrow> websocket" where
  "prepare_handshake E L w =
     (let w1 = ws_write (hs_response_line L) w;
          headers = hs_response_headers L (get_header E (ws_request w) ''Sec-WebSocket-Key'')
      in ws_write_nocopy STRING_CRLF
           (fold (\<lambda>ha v. ws_write_nocopy STRING_CRLF
                            (ws_write (snd ha) (ws_write_nocopy '': '' (ws_write (fst ha) v)))) headers w1))"

section \<open>Input\<close>

definition receive_buffer_overflow :: "nat \<Rightarrow> websocket \<Rightarrow> bool" where
  "receive_buffer_overflow addition w \<longleftrightarrow>
     length (ws_receive_buffer w) + addition > ws_receive_buffer_max_size w"

definition frames_cache_overflow :: "websocket \<Rightarrow> bool" where
  "frames_cache_overflow w \<longleftrightarrow> length (ws_frames w) \<ge> ws_frames_max_count w"

definition add_to_receive_buffer :: "byte_string \<Rightarrow> websocket \<Rightarrow> websocket" where
  "add_to_receive_buffer buf w = w\<lparr>ws_receive_buffer := ws_receive_buffer w @ buf\<rparr>"

text \<open>The size of the tail is unsigned: removing more than there is moves memory outside the buffer.\<close>

definition remove_frame_from_receive_buffer :: "nat \<Rightarrow> websocket \<Rightarrow> exn + websocket" where
  "remove_frame_from_receive_buffer sz w =
     (if sz > length (ws_receive_buffer w) then Inl Memory_fault
      else Inr (w\<lparr>ws_receive_buffer := drop sz (ws_receive_buffer w)\<rparr>))"

text \<open>The frame is a view of the receive buffer.\<close>

definition add_to_frames_cache :: "ws_lib \<Rightarrow> websocket \<Rightarrow> exn + websocket" where
  "add_to_frames_cache L w =
     (let sz = fr_size L (ws_receive_buffer w); frame = take sz (ws_receive_buffer w)
      in if sz > length (ws_receive_buffer w) then Inl Memory_fault
         else remove_frame_from_receive_buffer sz
                (w\<lparr>ws_frames_cache := ws_frames_cache w @ [frame], ws_frames := ws_frames w @ [frame]\<rparr>))"

definition clear_frames_cache :: "ws_lib \<Rightarrow> websocket \<Rightarrow> exn + websocket" where
  "clear_frames_cache L w =
     (case (if ws_frames w \<noteq> [] then remove_frame_from_receive_buffer (fr_size L (last (ws_frames w))) w else Inr w) of
        Inl e \<Rightarrow> Inl e
      | Inr w1 \<Rightarrow> Inr (w1\<lparr>ws_frames_cache := [], ws_frames := []\<rparr>))"

section \<open>Asynchronous operations\<close>

text \<open>
  What a step comes to: a write, a read or a posted call in flight with what follows it, or the
  object handed to the application, or a write of the close status after which the application's
  close handler gets the object, or an access outside a buffer. \<open>Ws_stale\<close> is the write of the close
  status of which asio has read bytes after the status was gone.
\<close>

datatype ws_next = Next_open | Next_receive | Next_app

datatype ws_event = Ev_open | Ev_message | Ev_sent | Ev_close

datatype ws_outcome =
    Ws_sending ws_next websocket
  | Ws_receiving websocket
  | Ws_posted_process websocket
  | Ws_posted_send ws_next websocket
  | Ws_closing close_status websocket
  | Ws_stale websocket
  | Ws_call ws_event websocket
  | Ws_fault exn

type_synonym ws_result = "ws_outcome \<times> tcp_connection"

definition send_internal :: "ws_next \<Rightarrow> websocket \<Rightarrow> tcp_connection \<Rightarrow> ws_result" where
  "send_internal next w c = (Ws_sending next w, async_write (ws_payload_buffers w) c)"

text \<open>
  \<open>send_close\<close> passes asio the address of its argument, a reference that the callers bind to a temporary: it
  is gone when they return.
\<close>

definition send_close :: "close_status \<Rightarrow> websocket \<Rightarrow> tcp_connection \<Rightarrow> ws_result" where
  "send_close status w c = (Ws_closing status w, async_write_borrowed c)"

definition on_close :: "close_status \<Rightarrow> websocket \<Rightarrow> tcp_connection \<Rightarrow> ws_result" where
  "on_close status w c = send_close status w c"

definition receive_internal :: "websocket \<Rightarrow> tcp_connection \<Rightarrow> ws_result" where
  "receive_internal w c = (Ws_receiving w, async_read_some c)"

definition on_open :: "websocket \<Rightarrow> tcp_connection \<Rightarrow> ws_result" where
  "on_open w c = (Ws_call Ev_open w, c)"

definition on_message :: "websocket \<Rightarrow> tcp_connection \<Rightarrow> ws_result" where
  "on_message w c = (Ws_call Ev_message w, c)"

text \<open>The payload of a ping is read through a buffer of 128 bytes.\<close>

definition on_ping :: "ws_lib \<Rightarrow> byte_string \<Rightarrow> websocket \<Rightarrow> tcp_connection \<Rightarrow> ws_result" where
  "on_ping L frame w c =
     (let w1 = (if length (fr_payload L frame) > 0 then ws_write (take 128 (fr_payload L frame)) w else w)
      in send_internal Next_receive w1 c)"

definition on_continuation :: "ws_lib \<Rightarrow> websocket \<Rightarrow> tcp_connection \<Rightarrow> ws_result" where
  "on_continuation L w c =
     (if frames_cache_overflow w then on_close Close_overflow w c
      else
        (case add_to_frames_cache L w of
           Inl e \<Rightarrow> (Ws_fault e, c)
         | Inr w1 \<Rightarrow> (Ws_posted_process w1, c)))"

definition process_final_frame :: "ws_lib \<Rightarrow> websocket \<Rightarrow> tcp_connection \<Rightarrow> ws_result" where
  "process_final_frame L w c =
     (let frame = take (fr_size L (ws_receive_buffer w)) (ws_receive_buffer w);
          w1 = w\<lparr>ws_frames := ws_frames w @ [frame]\<rparr>
      in case fr_type L (ws_receive_buffer w) of
           Frame_text \<Rightarrow> on_message w1 c
         | Frame_binary \<Rightarrow> on_message w1 c
         | Frame_continuation \<Rightarrow> on_message w1 c
         | Frame_ping \<Rightarrow> on_ping L frame w1 c
         | Frame_close \<Rightarrow> on_close Close_normal w1 c
         | _ \<Rightarrow> on_close Close_protocol_error w1 c)"

definition process_receive_buffer :: "ws_lib \<Rightarrow> websocket \<Rightarrow> tcp_connection \<Rightarrow> ws_result" where
  "process_receive_buffer L w c =
     (let frame = ws_receive_buffer w
      in if \<not> fr_well_formed L frame then on_close Close_protocol_error w c
         else if \<not> fr_complete L frame then receive_internal w c
         else if \<not> fr_final L frame then on_continuation L w c
         else process_final_frame L w c)"

definition ws_receive :: "ws_lib \<Rightarrow> websocket \<Rightarrow> tcp_connection \<Rightarrow> ws_result" where
  "ws_receive L w c =
     (case clear_frames_cache L w of
        Inl e \<Rightarrow> (Ws_fault e, c)
      | Inr w1 \<Rightarrow> process_receive_buffer L w1 c)"

definition ws_consume :: "ws_lib \<Rightarrow> byte_string \<Rightarrow> websocket \<Rightarrow> tcp_connection \<Rightarrow> ws_result" where
  "ws_consume L buf w c =
     (if receive_buffer_overflow (length buf) w then on_close Close_overflow w c
      else process_receive_buffer L (add_to_receive_buffer buf w) c)"

definition ws_start :: "sl_utils \<Rightarrow> ws_lib \<Rightarrow> websocket \<Rightarrow> tcp_connection \<Rightarrow> ws_result" where
  "ws_start E L w c = send_internal Next_open (prepare_handshake E L w) c"

definition send_message :: "ws_lib \<Rightarrow> frame_type \<Rightarrow> ws_next \<Rightarrow> websocket \<Rightarrow> tcp_connection \<Rightarrow> ws_result" where
  "send_message L msg_type next w c =
     (case prepare_header L msg_type w of
        Inl e \<Rightarrow> (Ws_fault e, c)
      | Inr w1 \<Rightarrow> (Ws_posted_send next w1, c))"

definition ws_send :: "ws_lib \<Rightarrow> frame_type \<Rightarrow> websocket \<Rightarrow> tcp_connection \<Rightarrow> ws_result" where
  "ws_send L msg_type w c = send_message L msg_type Next_receive w c"

definition ws_close :: "websocket \<Rightarrow> tcp_connection \<Rightarrow> ws_result" where
  "ws_close w c = on_close Close_normal w c"

text \<open>The completion handlers: of a write, of a read, of a posted call, of the write of the close status.\<close>

definition on_sent :: "ws_lib \<Rightarrow> bool \<Rightarrow> ws_next \<Rightarrow> websocket \<Rightarrow> tcp_connection \<Rightarrow> ws_result" where
  "on_sent L failed next w c =
     (let w1 = clear_payload w
      in if failed then on_close Close_error w1 c
         else
           (case next of
              Next_open \<Rightarrow> on_open w1 c
            | Next_receive \<Rightarrow> ws_receive L w1 c
            | Next_app \<Rightarrow> (Ws_call Ev_sent w1, c)))"

definition on_received :: "ws_lib \<Rightarrow> byte_string option \<Rightarrow> websocket \<Rightarrow> tcp_connection \<Rightarrow> ws_result" where
  "on_received L res w c = (case res of Some buf \<Rightarrow> ws_consume L buf w c | None \<Rightarrow> on_close Close_error w c)"

definition on_close_sent :: "websocket \<Rightarrow> tcp_connection \<Rightarrow> ws_result" where
  "on_close_sent w c = (Ws_call Ev_close w, c)"

text \<open>\<open>broadcast\<close>: header and message in one block, posted to each connection.\<close>

definition send_broadcast :: "byte_string \<Rightarrow> tcp_connection \<Rightarrow> tcp_connection" where
  "send_broadcast data c = async_write [data] c"

definition broadcast :: "ws_lib \<Rightarrow> byte_string \<Rightarrow> frame_type \<Rightarrow> tcp_connection list \<Rightarrow> tcp_connection list" where
  "broadcast L msg msg_type conns =
     (let holder = fr_make_header L msg_type (length msg) @ msg
      in map (send_broadcast holder) conns)"

definition broadcast_websocket ::
  "ws_lib \<Rightarrow> byte_string \<Rightarrow> byte_string \<Rightarrow> frame_type \<Rightarrow> byte_string list \<Rightarrow> tcp_connection ws_registry
   \<Rightarrow> (tcp_connection list \<times> tcp_connection ws_registry) option" where
  "broadcast_websocket L path msg msg_type dest_ids reg =
     map_option (\<lambda>(conns, reg'). (if length conns > 0 then broadcast L msg msg_type conns else conns, reg'))
       (find_ws_conns path dest_ids reg)"

section \<open>Steps\<close>

text \<open>
  The steps of a WebSocket: completions by asio, and calls by the application while it owns the
  object. The close status is written as it was when asio has taken it before the call returned; what
  asio reads later may be any four bytes. It may write content any number of times, and give the object back with \<open>receive\<close>,
  \<open>send\<close>, \<open>send_message\<close> or \<open>close\<close>.
\<close>

inductive ws_step :: "ws_lib \<Rightarrow> ws_result \<Rightarrow> ws_result \<Rightarrow> bool" for L where
  ws_sent: "ws_step L (Ws_sending next w, c) (on_sent L failed next w c)"
| ws_received: "ws_step L (Ws_receiving w, c) (on_received L res w c)"
| ws_process: "ws_step L (Ws_posted_process w, c) (process_receive_buffer L w c)"
| ws_do_send: "ws_step L (Ws_posted_send next w, c) (send_internal next w c)"
| ws_close_sent: "ws_step L (Ws_closing st w, c) (on_close_sent w (borrowed_read (memory_bytes (close_value st)) c))"
| ws_close_stale: "length bs = 4 \<Longrightarrow> ws_step L (Ws_closing st w, c) (Ws_stale w, borrowed_read bs c)"
| ws_stale_sent: "ws_step L (Ws_stale w, c) (on_close_sent w c)"
| app_write: "ev \<noteq> Ev_close \<Longrightarrow> ws_step L (Ws_call ev w, c) (Ws_call ev (ws_write data w), c)"
| app_write_nocopy: "ev \<noteq> Ev_close \<Longrightarrow> ws_step L (Ws_call ev w, c) (Ws_call ev (ws_write_nocopy data w), c)"
| app_receive: "ev \<noteq> Ev_close \<Longrightarrow> ws_step L (Ws_call ev w, c) (ws_receive L w c)"
| app_send: "ev \<noteq> Ev_close \<Longrightarrow> ws_step L (Ws_call ev w, c) (send_message L ty next w c)"
| app_close: "ev \<noteq> Ev_close \<Longrightarrow> ws_step L (Ws_call ev w, c) (on_close st w c)"

inductive_cases ws_step_closedE: "ws_step L (Ws_call Ev_close w, c) r"
inductive_cases ws_step_faultE: "ws_step L (Ws_fault e, c) r"

text \<open>
  The close handler is the end: it must not use the object to send or receive, and the object is
  destroyed when it returns.
\<close>

lemma ws_close_is_final: "\<not> ws_step L (Ws_call Ev_close w, c) r" "\<not> ws_step L (Ws_fault e, c) r"
  by (auto elim: ws_step_closedE ws_step_faultE)

inductive ws_reach :: "sl_utils \<Rightarrow> ws_lib \<Rightarrow> nat \<Rightarrow> nat \<Rightarrow> ws_result \<Rightarrow> bool" for E L mx k where
  ws_reach_start: "new_websocket req mx k c = (w, c1) \<Longrightarrow> ws_reach E L mx k (ws_start E L w c1)"
| ws_reach_step: "ws_reach E L mx k r \<Longrightarrow> ws_step L r r' \<Longrightarrow> ws_reach E L mx k r'"

text \<open>
  What holds of the object at all times: the limits, and a buffer to put the header into. While
  it is with the application or sends, its last frame lies at the front of the receive buffer.
\<close>

definition ws_limits :: "nat \<Rightarrow> nat \<Rightarrow> websocket \<Rightarrow> bool" where
  "ws_limits mx k w \<longleftrightarrow>
     ws_receive_buffer_max_size w = mx \<and> ws_frames_max_count w = k
     \<and> length (ws_receive_buffer w) \<le> mx \<and> length (ws_frames w) \<le> Suc k \<and> ws_payload_buffers w \<noteq> []"

definition front_frame :: "ws_lib \<Rightarrow> websocket \<Rightarrow> bool" where
  "front_frame L w \<longleftrightarrow> (ws_frames w \<noteq> [] \<longrightarrow> fr_size L (last (ws_frames w)) \<le> length (ws_receive_buffer w))"

fun ws_inv :: "ws_lib \<Rightarrow> nat \<Rightarrow> nat \<Rightarrow> ws_outcome \<Rightarrow> bool" where
  "ws_inv L mx k (Ws_sending next w) \<longleftrightarrow> ws_limits mx k w \<and> front_frame L w"
| "ws_inv L mx k (Ws_receiving w) \<longleftrightarrow> ws_limits mx k w \<and> length (ws_frames w) \<le> k"
| "ws_inv L mx k (Ws_posted_process w) \<longleftrightarrow> ws_limits mx k w \<and> length (ws_frames w) \<le> k"
| "ws_inv L mx k (Ws_posted_send next w) \<longleftrightarrow> ws_limits mx k w \<and> front_frame L w"
| "ws_inv L mx k (Ws_closing st w) \<longleftrightarrow> ws_limits mx k w"
| "ws_inv L mx k (Ws_stale w) \<longleftrightarrow> ws_limits mx k w"
| "ws_inv L mx k (Ws_call ev w) \<longleftrightarrow> ws_limits mx k w \<and> (ev \<noteq> Ev_close \<longrightarrow> front_frame L w)"
| "ws_inv L mx k (Ws_fault e) \<longleftrightarrow> False"

text \<open>Writing content does not touch the input side.\<close>

definition input_of :: "websocket \<Rightarrow> byte_string \<times> byte_string list \<times> nat \<times> nat \<times> http_request" where
  "input_of w = (ws_receive_buffer w, ws_frames w, ws_receive_buffer_max_size w, ws_frames_max_count w, ws_request w)"

lemma input_of_write [simp]:
  "input_of (ws_write data w) = input_of w" "input_of (ws_write_nocopy data w) = input_of w"
  by (simp_all add: input_of_def ws_write_def ws_write_nocopy_def add_to_payload_cache_def)

lemma input_of_handshake: "input_of (prepare_handshake E L w) = input_of w"
proof -
  have "input_of (fold (\<lambda>ha v. ws_write_nocopy STRING_CRLF (ws_write (snd ha) (ws_write_nocopy '': '' (ws_write (fst ha) v)))) hs v)
      = input_of v" for hs v
    by (induction hs arbitrary: v) simp_all
  then show ?thesis by (simp add: prepare_handshake_def Let_def)
qed

lemma write_keeps:
  "ws_limits mx k w \<Longrightarrow> ws_limits mx k (ws_write data w)" "ws_limits mx k w \<Longrightarrow> ws_limits mx k (ws_write_nocopy data w)"
  "front_frame L (ws_write data w) = front_frame L w" "front_frame L (ws_write_nocopy data w) = front_frame L w"
  by (simp_all add: ws_limits_def front_frame_def ws_write_def ws_write_nocopy_def add_to_payload_cache_def)

lemma close_inv: "ws_limits mx k w \<Longrightarrow> ws_inv L mx k (fst (on_close st w c))"
  by (simp add: on_close_def send_close_def)

text \<open>asio reads a buffer that is gone only in the write of a close status.\<close>

lemma never_stale:
  "fst (on_close st w c) \<noteq> Ws_stale v" "fst (process_receive_buffer L w c) \<noteq> Ws_stale v"
  "fst (ws_receive L w c) \<noteq> Ws_stale v" "fst (ws_consume L buf w c) \<noteq> Ws_stale v"
  "fst (on_sent L failed next w c) \<noteq> Ws_stale v" "fst (on_received L res w c) \<noteq> Ws_stale v"
  "fst (send_message L ty next w c) \<noteq> Ws_stale v" "fst (ws_start E L w c) \<noteq> Ws_stale v"
proof -
  show close: "fst (on_close st w c) \<noteq> Ws_stale v" for st w c by (simp add: on_close_def send_close_def)
  show process: "fst (process_receive_buffer L w c) \<noteq> Ws_stale v" for w c
    using close
    by (auto simp: process_receive_buffer_def receive_internal_def on_continuation_def process_final_frame_def on_message_def
        on_ping_def send_internal_def Let_def split: frame_type.split sum.split)
  show receive: "fst (ws_receive L w c) \<noteq> Ws_stale v" for w c
    using process by (auto simp: ws_receive_def split: sum.split)
  show consume: "fst (ws_consume L buf w c) \<noteq> Ws_stale v" for buf w c
    using process close by (auto simp: ws_consume_def)
  show "fst (on_sent L failed next w c) \<noteq> Ws_stale v"
    using receive close by (auto simp: on_sent_def on_open_def Let_def split: ws_next.split)
  show "fst (on_received L res w c) \<noteq> Ws_stale v"
    using consume close by (auto simp: on_received_def split: option.split)
  show "fst (send_message L ty next w c) \<noteq> Ws_stale v" "fst (ws_start E L w c) \<noteq> Ws_stale v"
    by (auto simp: send_message_def ws_start_def send_internal_def split: sum.split)
qed

lemma ws_step_stale:
  assumes "ws_step L r r'" and "fst r' = Ws_stale w"
  shows "\<exists>st c0 bs. r = (Ws_closing st w, c0) \<and> length bs = 4 \<and> snd r' = borrowed_read bs c0"
  using assms by (induction rule: ws_step.induct) (auto simp: never_stale on_close_sent_def send_internal_def)

lemma ws_reach_stale:
  assumes "ws_reach E L mx k r" and "fst r = Ws_stale w"
  shows "\<exists>st c0 bs. ws_reach E L mx k (Ws_closing st w, c0) \<and> length bs = 4 \<and> snd r = borrowed_read bs c0"
  using assms
proof (induction rule: ws_reach.induct)
  case (ws_reach_step r r')
  then show ?case using ws_step_stale [OF ws_reach_step.hyps(2)] by fastforce
qed (simp add: never_stale)

context frame_laws
begin

lemma process_inv:
  assumes "ws_limits mx k w" "length (ws_frames w) \<le> k"
  shows "ws_inv L mx k (fst (process_receive_buffer L w c))"
proof -
  let ?b = "ws_receive_buffer w"
  let ?n = "fr_size L ?b"
  consider (bad) "\<not> fr_well_formed L ?b" | (more) "fr_well_formed L ?b" "\<not> fr_complete L ?b"
    | (frame) "fr_well_formed L ?b" "fr_complete L ?b" by blast
  then show ?thesis
  proof cases
    case frame
    note f = frame_front [OF frame]
    then have size: "?n \<le> length ?b" "fr_size L (take ?n ?b) = ?n" by (simp_all add: is_frame_def)
    show ?thesis
    proof (cases "fr_final L ?b")
      case True
      let ?w = "w\<lparr>ws_frames := ws_frames w @ [take ?n ?b]\<rparr>"
      have w: "ws_limits mx k ?w" "front_frame L ?w" using assms size by (simp_all add: ws_limits_def front_frame_def)
      show ?thesis
        using frame True w close_inv
        by (cases "fr_type L ?b")
           (auto simp: write_keeps process_receive_buffer_def process_final_frame_def on_message_def on_ping_def send_internal_def Let_def)
    next
      case False
      then show ?thesis
        using frame assms size close_inv [OF assms(1)]
        by (auto simp: process_receive_buffer_def on_continuation_def frames_cache_overflow_def add_to_frames_cache_def
            remove_frame_from_receive_buffer_def ws_limits_def Let_def)
    qed
  qed (use assms close_inv in \<open>auto simp: process_receive_buffer_def receive_internal_def\<close>)
qed

lemma receive_inv:
  assumes "ws_limits mx k w" "front_frame L w"
  shows "ws_inv L mx k (fst (ws_receive L w c))"
proof -
  obtain n where n: "clear_frames_cache L w = Inr (w\<lparr>ws_receive_buffer := drop n (ws_receive_buffer w), ws_frames_cache := [], ws_frames := []\<rparr>)"
  proof (cases "ws_frames w = []")
    case True
    then have "clear_frames_cache L w = Inr (w\<lparr>ws_receive_buffer := drop 0 (ws_receive_buffer w), ws_frames_cache := [], ws_frames := []\<rparr>)"
      by (simp add: clear_frames_cache_def)
    then show thesis by (rule that)
  next
    case False
    with assms(2) show thesis
      by (intro that [of "fr_size L (last (ws_frames w))"])
         (simp add: clear_frames_cache_def remove_frame_from_receive_buffer_def front_frame_def)
  qed
  have "ws_limits mx k (w\<lparr>ws_receive_buffer := drop n (ws_receive_buffer w), ws_frames_cache := [], ws_frames := []\<rparr>)"
    using assms(1) by (auto simp: ws_limits_def)
  from process_inv [OF this] n show ?thesis by (simp add: ws_receive_def)
qed

lemma ws_step_inv: "ws_step L r r' \<Longrightarrow> ws_inv L mx k (fst r) \<Longrightarrow> ws_inv L mx k (fst r')"
proof (induction rule: ws_step.induct)
  case (ws_sent "next" w c failed)
  then have w: "ws_limits mx k (clear_payload w)" "front_frame L (clear_payload w)"
    by (simp_all add: ws_limits_def front_frame_def clear_payload_def)
  then show ?case
    using receive_inv [OF w] close_inv [OF w(1)]
    by (cases "next") (auto simp: on_sent_def on_open_def Let_def)
next
  case (ws_received w c res)
  show ?case
  proof (cases res)
    case (Some buf)
    show ?thesis
    proof (cases "receive_buffer_overflow (length buf) w")
      case False
      then have "ws_limits mx k (add_to_receive_buffer buf w)" "length (ws_frames (add_to_receive_buffer buf w)) \<le> k"
        using ws_received by (simp_all add: ws_limits_def add_to_receive_buffer_def receive_buffer_overflow_def)
      from process_inv [OF this] Some False show ?thesis by (simp add: on_received_def ws_consume_def)
    qed (use Some ws_received close_inv in \<open>simp add: on_received_def ws_consume_def\<close>)
  qed (use ws_received close_inv in \<open>simp add: on_received_def\<close>)
next
  case (app_send ev w c ty "next")
  then show ?case
    by (simp add: send_message_def prepare_header_def ws_limits_def front_frame_def Let_def)
qed (auto simp: process_inv receive_inv close_inv send_internal_def on_close_sent_def write_keeps)

lemma ws_reach_inv: "ws_reach E L mx k r \<Longrightarrow> ws_inv L mx k (fst r)"
proof (induction rule: ws_reach.induct)
  case (ws_reach_start req c w c1)
  have "ws_payload_buffers (prepare_handshake E L w) \<noteq> []"
    by (simp add: prepare_handshake_def ws_write_nocopy_def STRING_CRLF_def Let_def)
  moreover note input_of_handshake [of E L w]
  ultimately show ?case using ws_reach_start
    by (auto simp: ws_start_def send_internal_def ws_limits_def front_frame_def new_websocket_def input_of_def)
qed (rule ws_step_inv)

end

end
