(* ===== verification/Websocket_Laws.thy ===== *)
theory Websocket_Laws
  imports Websocket
begin

text \<open>
  Properties of \<open>websocket\<close>: memory safety and limits, reassembly of fragmented messages from any
  splitting of the incoming bytes, the bytes of outgoing frames, pings and broadcasts. A reference
  frame library shows that what is assumed of the library can hold.
\<close>

section \<open>A reference frame library\<close>

text \<open>Frames of RFC 6455 with a payload below 126 bytes, masked or not.\<close>

abbreviation byte_at :: "byte_string \<Rightarrow> nat \<Rightarrow> nat" where
  "byte_at bs i \<equiv> of_char (bs ! i)"

definition ref_length :: "byte_string \<Rightarrow> nat" where
  "ref_length bs = byte_at bs 1 mod 128"

definition ref_masked :: "byte_string \<Rightarrow> bool" where
  "ref_masked bs \<longleftrightarrow> byte_at bs 1 \<ge> 128"

definition ref_header :: "byte_string \<Rightarrow> nat" where
  "ref_header bs = (if ref_masked bs then 6 else 2)"

definition ref_unmask :: "byte_string \<Rightarrow> byte_string \<Rightarrow> byte_string" where
  "ref_unmask key bs = map (\<lambda>i. char_of (xor (of_char (bs ! i)) (of_char (key ! (i mod 4)) :: nat))) [0 ..< length bs]"

definition ref_type :: "byte_string \<Rightarrow> frame_type" where
  "ref_type bs =
     (let op = byte_at bs 0 mod 16 in
      if op = 0 then Frame_continuation else if op = 1 then Frame_text else if op = 2 then Frame_binary
      else if op = 8 then Frame_close else if op = 9 then Frame_ping else if op = 10 then Frame_pong
      else Frame_invalid)"

fun ref_opcode :: "frame_type \<Rightarrow> nat" where
  "ref_opcode Frame_continuation = 0"
| "ref_opcode Frame_text = 1"
| "ref_opcode Frame_binary = 2"
| "ref_opcode Frame_close = 8"
| "ref_opcode Frame_ping = 9"
| "ref_opcode Frame_pong = 10"
| "ref_opcode Frame_invalid = 15"

definition ws_ref :: ws_lib where
  "ws_ref =
     \<lparr>fr_well_formed = (\<lambda>bs. length bs < 2 \<or> ref_length bs < 126),
      fr_complete = (\<lambda>bs. 2 \<le> length bs \<and> ref_header bs + ref_length bs \<le> length bs),
      fr_final = (\<lambda>bs. byte_at bs 0 \<ge> 128),
      fr_type = ref_type,
      fr_size = (\<lambda>bs. ref_header bs + ref_length bs),
      fr_payload = (\<lambda>bs. let p = take (ref_length bs) (drop (ref_header bs) bs)
                          in if ref_masked bs then ref_unmask (take 4 (drop 2 bs)) p else p),
      fr_make_header = (\<lambda>ty n. [char_of (128 + ref_opcode ty), char_of n]),
      hs_response_line = ''HTTP/1.1 101 Switching Protocols'' @ [CR, LF],
      hs_response_headers = (\<lambda>key. [(''Upgrade'', ''websocket''), (''Connection'', ''Upgrade'')])\<rparr>"

lemma ref_frame_length: "is_frame ws_ref f \<Longrightarrow> 2 \<le> length f \<and> length f = ref_header f + ref_length f \<and> ref_length f < 126"
  by (auto simp: is_frame_def ws_ref_def)

lemma ref_append:
  assumes "2 \<le> length f"
  shows "ref_length (f @ r) = ref_length f" "ref_masked (f @ r) = ref_masked f" "ref_header (f @ r) = ref_header f"
    "ref_type (f @ r) = ref_type f" "byte_at (f @ r) 0 = byte_at f 0"
proof -
  have "f \<noteq> []" "1 < length f" using assms by auto
  then show "ref_length (f @ r) = ref_length f" "ref_masked (f @ r) = ref_masked f" "ref_header (f @ r) = ref_header f"
    "ref_type (f @ r) = ref_type f" "byte_at (f @ r) 0 = byte_at f 0"
    by (simp_all add: ref_length_def ref_masked_def ref_header_def ref_type_def nth_append)
qed

interpretation rfc: frame_laws ws_ref
proof unfold_locales
  fix f r
  assume f: "is_frame ws_ref f"
  note l = ref_frame_length [OF f]
  then show "fr_well_formed ws_ref (f @ r) \<and> fr_complete ws_ref (f @ r) \<and> fr_size ws_ref (f @ r) = length f
      \<and> fr_final ws_ref (f @ r) = fr_final ws_ref f \<and> fr_type ws_ref (f @ r) = fr_type ws_ref f
      \<and> fr_payload ws_ref (f @ r) = fr_payload ws_ref f"
    using ref_append [of f r] by (auto simp: ws_ref_def ref_header_def Let_def)
next
  fix f p
  assume f: "is_frame ws_ref f" and "strict_prefix p f"
  then obtain r where r: "f = p @ r" "r \<noteq> []" by (auto simp: strict_prefix_def prefix_def)
  show "fr_well_formed ws_ref p \<and> \<not> fr_complete ws_ref p"
  proof (cases "length p < 2")
    case False
    then have "2 \<le> length p" by simp
    from ref_append [OF this, of r] ref_frame_length [OF f] r have
      "ref_header p + ref_length p = length p + length r" "ref_length p < 126" by auto
    moreover have "0 < length r" using r(2) by simp
    ultimately have "length p < ref_header p + ref_length p" by linarith
    with \<open>ref_length p < 126\<close> show ?thesis by (simp add: ws_ref_def)
  qed (simp add: ws_ref_def)
next
  fix bs
  assume "fr_well_formed ws_ref bs" "fr_complete ws_ref bs"
  then have l: "2 \<le> length bs" "ref_length bs < 126" "ref_header bs + ref_length bs \<le> length bs"
    by (auto simp: ws_ref_def)
  let ?n = "ref_header bs + ref_length bs"
  have h: "2 \<le> ref_header bs" by (simp add: ref_header_def)
  have "ref_length (take ?n bs) = ref_length bs" "ref_header (take ?n bs) = ref_header bs"
    using ref_append [of "take ?n bs" "drop ?n bs"] l h by simp_all
  then show "0 < fr_size ws_ref bs \<and> fr_size ws_ref bs \<le> length bs \<and> is_frame ws_ref (take (fr_size ws_ref bs) bs)"
    using l h by (simp add: is_frame_def ws_ref_def)
qed

section \<open>Reading a message\<close>

text \<open>
  The reader side run on its own: posted calls are executed, and a read delivers the next piece
  of the incoming bytes. It stops when the object is handed over, sends or closes, or when there
  are no more pieces.
\<close>

lemma posted_progress:
  assumes "process_receive_buffer L w c = (Ws_posted_process w', c')"
  shows "length (ws_frames w') = Suc (length (ws_frames w))" "length (ws_frames w) < ws_frames_max_count w"
    "ws_frames_max_count w' = ws_frames_max_count w"
  using assms
  by (auto simp: process_receive_buffer_def on_close_def send_close_def receive_internal_def on_continuation_def
      process_final_frame_def on_message_def on_ping_def send_internal_def frames_cache_overflow_def
      add_to_frames_cache_def remove_frame_from_receive_buffer_def Let_def
      split: if_splits frame_type.splits sum.splits)

fun posted_rank :: "ws_outcome \<Rightarrow> nat" where
  "posted_rank (Ws_posted_process w) = Suc (ws_frames_max_count w - length (ws_frames w))"
| "posted_rank _ = 0"

lemma posted_rank_less:
  "posted_rank (fst (process_receive_buffer L w c)) < posted_rank (Ws_posted_process w)"
proof (cases "\<exists>w'. fst (process_receive_buffer L w c) = Ws_posted_process w'")
  case True
  then obtain w' c' where "process_receive_buffer L w c = (Ws_posted_process w', c')" by (metis prod.collapse)
  from posted_progress [OF this] \<open>process_receive_buffer L w c = _\<close> show ?thesis by simp
next
  case False
  then show ?thesis by (cases "fst (process_receive_buffer L w c)") auto
qed

function ws_drive :: "ws_lib \<Rightarrow> ws_result \<Rightarrow> byte_string list \<Rightarrow> ws_result" where
  "ws_drive L r pieces =
     (case fst r of
        Ws_posted_process w \<Rightarrow> ws_drive L (process_receive_buffer L w (snd r)) pieces
      | Ws_receiving w \<Rightarrow>
          (case pieces of [] \<Rightarrow> r | b # bs \<Rightarrow> ws_drive L (ws_consume L b w (snd r)) bs)
      | _ \<Rightarrow> r)"
  by pat_completeness auto
termination
  by (relation "measures [\<lambda>(L, r, pieces). length pieces, \<lambda>(L, r, pieces). posted_rank (fst r)]")
     (use posted_rank_less in auto)

declare ws_drive.simps [simp del]

text \<open>The object after it has cached some frames from its receive buffer.\<close>

definition cached :: "byte_string list \<Rightarrow> websocket \<Rightarrow> websocket \<Rightarrow> bool" where
  "cached gs w w' \<longleftrightarrow>
     ws_frames w' = ws_frames w @ gs \<and> ws_receive_buffer_max_size w' = ws_receive_buffer_max_size w
     \<and> ws_frames_max_count w' = ws_frames_max_count w \<and> length (ws_receive_buffer w') \<le> length (ws_receive_buffer w)"

text \<open>
  What becomes of a message whose fragments \<open>fs\<close> and last frame \<open>f\<close> begin in the receive buffer and go
  on with \<open>todo\<close>: it is handed over when nothing is to come, else the complete fragments are cached
  and the object reads on.
\<close>

definition drained ::
  "ws_lib \<Rightarrow> byte_string list \<Rightarrow> byte_string list \<Rightarrow> byte_string \<Rightarrow> byte_string \<Rightarrow> websocket \<Rightarrow> tcp_connection \<Rightarrow> bool" where
  "drained L pieces fs f todo w c \<longleftrightarrow>
     (if todo = []
      then \<exists>w'. ws_drive L (process_receive_buffer L w c) pieces = (Ws_call Ev_message w', c)
              \<and> ws_frames w' = ws_frames w @ fs @ [f] \<and> ws_receive_buffer w' = f
      else \<exists>w' gs gs' c'. ws_drive L (process_receive_buffer L w c) pieces = ws_drive L (Ws_receiving w', c') pieces
              \<and> fs = gs @ gs' \<and> cached gs w w' \<and> concat gs' @ f = ws_receive_buffer w' @ todo \<and> sent_bytes c' = sent_bytes c)"

context frame_laws
begin

text \<open>What is left of the buffer behind the complete frames: the beginning of the next frame.\<close>

lemma process_non_final:
  assumes "is_frame L f" "\<not> fr_final L f" "ws_receive_buffer w = f @ bs" "length (ws_frames w) < ws_frames_max_count w"
  shows "process_receive_buffer L w c
    = (Ws_posted_process (w\<lparr>ws_receive_buffer := bs, ws_frames_cache := ws_frames_cache w @ [f], ws_frames := ws_frames w @ [f]\<rparr>), c)"
  using assms frame_view [OF assms(1), of bs]
  by (simp add: process_receive_buffer_def on_continuation_def frames_cache_overflow_def add_to_frames_cache_def
      remove_frame_from_receive_buffer_def)

lemma process_final_message:
  assumes "is_frame L f" "fr_final L f" "fr_type L f \<in> {Frame_text, Frame_binary, Frame_continuation}"
    and "ws_receive_buffer w = f @ bs"
  shows "process_receive_buffer L w c = (Ws_call Ev_message (w\<lparr>ws_frames := ws_frames w @ [f]\<rparr>), c)"
  using assms frame_view [OF assms(1), of bs]
  by (auto simp: process_receive_buffer_def process_final_frame_def on_message_def Let_def)

lemma process_partial:
  assumes "is_frame L f" "strict_prefix (ws_receive_buffer w) f"
  shows "process_receive_buffer L w c = (Ws_receiving w, async_read_some c)"
  using frame_prefix [OF assms] by (simp add: process_receive_buffer_def receive_internal_def)

text \<open>The buffer ends within the next frame, or it begins with the whole of it.\<close>

lemma process_part_of:
  assumes "is_frame L g" "g @ later = ws_receive_buffer w @ todo" "length (ws_receive_buffer w) < length g"
  shows "process_receive_buffer L w c = (Ws_receiving w, async_read_some c)" "todo \<noteq> []"
proof -
  have "prefix (ws_receive_buffer w) g"
  proof (rule prefix_length_prefix)
    show "prefix (ws_receive_buffer w) (g @ later)" unfolding assms(2) by simp
    show "prefix g (g @ later)" by simp
  qed (use assms(3) in simp)
  then have "strict_prefix (ws_receive_buffer w) g" using assms(3) by (auto simp: strict_prefix_def)
  then show "process_receive_buffer L w c = (Ws_receiving w, async_read_some c)" by (rule process_partial [OF assms(1)])
  have "length (g @ later) = length (ws_receive_buffer w @ todo)" using assms(2) by simp
  then show "todo \<noteq> []" using assms(3) by auto
qed

lemma drive_non_final:
  assumes "is_frame L g" "\<not> fr_final L g" "g @ later = ws_receive_buffer w @ todo"
    and "length g \<le> length (ws_receive_buffer w)" "length (ws_frames w) < ws_frames_max_count w"
  obtains bs where "ws_receive_buffer w = g @ bs" "later = bs @ todo"
    "ws_drive L (process_receive_buffer L w c) pieces = ws_drive L (process_receive_buffer L
       (w\<lparr>ws_receive_buffer := bs, ws_frames_cache := ws_frames_cache w @ [g], ws_frames := ws_frames w @ [g]\<rparr>) c) pieces"
proof -
  define bs where "bs = drop (length g) (ws_receive_buffer w)"
  have "g = take (length g) (ws_receive_buffer w) \<and> later = bs @ todo"
    using assms(3,4) unfolding bs_def by (subst (asm) append_eq_append_conv_if) simp
  then have bs: "ws_receive_buffer w = g @ bs" "later = bs @ todo"
    using append_take_drop_id [of "length g" "ws_receive_buffer w"] by (simp_all add: bs_def)
  show thesis
    by (rule that [OF bs], subst process_non_final [OF assms(1,2) bs(1) assms(5)], subst ws_drive.simps) simp
qed

text \<open>
  One burst of processing on a buffer that begins with some of the awaited frames: they are cached
  one after the other, until the message is complete or the buffer ends within a frame.
\<close>

lemma drained_last:
  assumes "is_frame L f" "fr_final L f" "fr_type L f \<in> {Frame_text, Frame_binary, Frame_continuation}"
    and "f = ws_receive_buffer w @ todo"
  shows "drained L pieces [] f todo w c"
proof (cases "todo = []")
  case True
  with process_final_message [OF assms(1-3), of w "[]" c] assms(4) show ?thesis by (simp add: ws_drive.simps drained_def)
next
  case False
  with assms(4) have "length (ws_receive_buffer w) < length f" by simp
  from process_part_of(1) [OF assms(1) _ this, of "[]"] False assms(4) show ?thesis
    by (auto simp: cached_def drained_def intro!: exI [of _ w] exI [of _ "async_read_some c"]) (auto simp: sent_bytes_def conn_defs)
qed

text \<open>A fragment that is complete in the buffer is cached, then the rest is drained.\<close>

lemma drained_fragment:
  assumes same: "ws_drive L (process_receive_buffer L w c) pieces = ws_drive L (process_receive_buffer L
        (w\<lparr>ws_receive_buffer := bs, ws_frames_cache := ws_frames_cache w @ [g], ws_frames := ws_frames w @ [g]\<rparr>) c) pieces"
    and bs: "ws_receive_buffer w = g @ bs"
    and rest: "drained L pieces fs f todo
        (w\<lparr>ws_receive_buffer := bs, ws_frames_cache := ws_frames_cache w @ [g], ws_frames := ws_frames w @ [g]\<rparr>) c"
  shows "drained L pieces (g # fs) f todo w c"
proof (cases "todo = []")
  case False
  let ?w = "w\<lparr>ws_receive_buffer := bs, ws_frames_cache := ws_frames_cache w @ [g], ws_frames := ws_frames w @ [g]\<rparr>"
  from rest False obtain w' gs gs' c' where d: "ws_drive L (process_receive_buffer L ?w c) pieces = ws_drive L (Ws_receiving w', c') pieces"
    "g # fs = (g # gs) @ gs'" "cached gs ?w w'" "concat gs' @ f = ws_receive_buffer w' @ todo" "sent_bytes c' = sent_bytes c"
    by (auto simp: drained_def)
  have "cached (g # gs) w w'" using d(3) bs by (simp add: cached_def)
  with d False same show ?thesis unfolding drained_def by metis
qed (use rest same in \<open>simp add: drained_def\<close>)

lemma drain:
  assumes "list_all (\<lambda>g. is_frame L g \<and> \<not> fr_final L g) fs"
    and "is_frame L f" "fr_final L f" "fr_type L f \<in> {Frame_text, Frame_binary, Frame_continuation}"
    and "length (ws_frames w) + length fs \<le> ws_frames_max_count w"
    and "concat fs @ f = ws_receive_buffer w @ todo"
  shows "drained L pieces fs f todo w c"
  using assms
proof (induction fs arbitrary: w)
  case Nil
  then show ?case by (intro drained_last) simp_all
next
  case (Cons g fs)
  then have g: "is_frame L g" "\<not> fr_final L g" "g @ (concat fs @ f) = ws_receive_buffer w @ todo"
    "length (ws_frames w) < ws_frames_max_count w" by simp_all
  show ?case
  proof (cases "length g \<le> length (ws_receive_buffer w)")
    case True
    from drive_non_final [OF g(1-3) True g(4), of c pieces] obtain bs where
      bs: "ws_receive_buffer w = g @ bs" "concat fs @ f = bs @ todo" and
      same: "ws_drive L (process_receive_buffer L w c) pieces = ws_drive L (process_receive_buffer L
        (w\<lparr>ws_receive_buffer := bs, ws_frames_cache := ws_frames_cache w @ [g], ws_frames := ws_frames w @ [g]\<rparr>) c) pieces" .
    show ?thesis
      by (rule drained_fragment [OF same bs(1)], rule Cons.IH) (use Cons.prems bs(2) in simp_all)
  next
    case False
    then have short: "length (ws_receive_buffer w) < length g" by simp
    note p = process_part_of [OF g(1,3) short]
    show ?thesis
      unfolding drained_def if_not_P [OF p(2)] p(1)
      by (intro exI [of _ w] exI [of _ "[]"] exI [of _ "g # fs"] exI [of _ "async_read_some c"] conjI)
         (use Cons.prems(6) in \<open>simp_all add: cached_def sent_bytes_def conn_defs\<close>)
  qed
qed

text \<open>The message in any splitting.\<close>

lemma drive_message:
  assumes "list_all (\<lambda>g. is_frame L g \<and> \<not> fr_final L g) fs"
    and "is_frame L f" "fr_final L f" "fr_type L f \<in> {Frame_text, Frame_binary, Frame_continuation}"
    and "length (ws_frames w) + length fs \<le> ws_frames_max_count w"
    and "concat fs @ f = ws_receive_buffer w @ concat pieces" "concat pieces \<noteq> []" "[] \<notin> set pieces"
    and "length (ws_receive_buffer w @ concat pieces) \<le> ws_receive_buffer_max_size w"
  shows "\<exists>w' c'. ws_drive L (Ws_receiving w, c) pieces = (Ws_call Ev_message w', c')
    \<and> ws_frames w' = ws_frames w @ fs @ [f] \<and> ws_receive_buffer w' = f \<and> sent_bytes c' = sent_bytes c"
  using assms
proof (induction pieces arbitrary: w fs c)
  case (Cons b pieces)
  let ?w = "add_to_receive_buffer b w"
  have "ws_consume L b w c = process_receive_buffer L ?w c"
    using Cons.prems(9) by (simp add: ws_consume_def receive_buffer_overflow_def)
  then have step: "ws_drive L (Ws_receiving w, c) (b # pieces) = ws_drive L (process_receive_buffer L ?w c) pieces"
    by (subst ws_drive.simps) simp
  have w: "ws_receive_buffer ?w = ws_receive_buffer w @ b" "ws_frames ?w = ws_frames w"
    "ws_frames_max_count ?w = ws_frames_max_count w" "ws_receive_buffer_max_size ?w = ws_receive_buffer_max_size w"
    by (simp_all add: add_to_receive_buffer_def)
  have split: "concat fs @ f = ws_receive_buffer ?w @ concat pieces" using Cons.prems(6) w by simp
  have fits: "length (ws_frames ?w) + length fs \<le> ws_frames_max_count ?w" using Cons.prems(5) w by simp
  consider (last) "concat pieces = []" | (go) "concat pieces \<noteq> []" by blast
  then show ?case
  proof cases
    case last
    with drain [OF Cons.prems(1-4) fits split, of pieces c] w step show ?thesis by (auto simp: drained_def)
  next
    case go
    then obtain w' gs gs' c' where d:
      "ws_drive L (process_receive_buffer L ?w c) pieces = ws_drive L (Ws_receiving w', c') pieces"
      "fs = gs @ gs'" "ws_frames w' = ws_frames ?w @ gs" "concat gs' @ f = ws_receive_buffer w' @ concat pieces"
      "ws_receive_buffer_max_size w' = ws_receive_buffer_max_size ?w" "ws_frames_max_count w' = ws_frames_max_count ?w"
      "length (ws_receive_buffer w') \<le> length (ws_receive_buffer ?w)" "sent_bytes c' = sent_bytes c"
      using drain [OF Cons.prems(1-4) fits split, of pieces c] unfolding drained_def if_not_P [OF go] cached_def by blast
    have 1: "list_all (\<lambda>g. is_frame L g \<and> \<not> fr_final L g) gs'" using Cons.prems(1) d(2) by simp
    have 2: "length (ws_frames w') + length gs' \<le> ws_frames_max_count w'" using fits d(2,3,6) by simp
    have 3: "[] \<notin> set pieces" "length (ws_receive_buffer w' @ concat pieces) \<le> ws_receive_buffer_max_size w'"
      using Cons.prems(8,9) d(5,7) w by simp_all
    from Cons.IH [OF 1 Cons.prems(2-4) 2 d(4) go 3, of c'] d(1,2,3,8) step w show ?thesis by auto
  qed
qed simp

end

section \<open>Properties\<close>

text \<open>
  C15: a WebSocket stays within its buffers and limits, and only the write of a close status
  reads memory that is gone. Whatever the peer sends, however reads, writes and calls of the
  application are interleaved: no step ends in an access outside a buffer, the receive buffer never
  holds more than \<open>receive_buffer_max_size\<close> bytes, and at most \<open>frames_max_count\<close> fragments and one
  final frame are kept. The exception is \<open>send_close\<close>: whenever a close status is being written, asio
  may come to read it after it is gone, and send any four bytes in its place; and this is the only way
  to such a read. (Assumed of the frame library: the laws of \<open>frame_laws\<close>. Part of the model: the
  memory of all other writes is held by their completion handlers, that of \<open>write_nocopy\<close> by the
  application.)
\<close>

theorem websocket_safe:
  assumes "frame_laws L" and "ws_reach E L mx k (out, c)"
  shows "case out of
      Ws_fault e \<Rightarrow> False
    | Ws_sending next w \<Rightarrow> length (ws_receive_buffer w) \<le> mx \<and> length (ws_frames w) \<le> Suc k
    | Ws_receiving w \<Rightarrow> length (ws_receive_buffer w) \<le> mx \<and> length (ws_frames w) \<le> k
    | Ws_posted_process w \<Rightarrow> length (ws_receive_buffer w) \<le> mx \<and> length (ws_frames w) \<le> k
    | Ws_posted_send next w \<Rightarrow> length (ws_receive_buffer w) \<le> mx \<and> length (ws_frames w) \<le> Suc k
    | Ws_closing st w \<Rightarrow> length (ws_receive_buffer w) \<le> mx \<and> length (ws_frames w) \<le> Suc k
        \<and> (\<forall>bs. length bs = 4 \<longrightarrow> ws_reach E L mx k (Ws_stale w, borrowed_read bs c))
    | Ws_stale w \<Rightarrow> length (ws_receive_buffer w) \<le> mx \<and> length (ws_frames w) \<le> Suc k
        \<and> (\<exists>st c0 bs. ws_reach E L mx k (Ws_closing st w, c0) \<and> length bs = 4 \<and> c = borrowed_read bs c0)
    | Ws_call ev w \<Rightarrow> length (ws_receive_buffer w) \<le> mx \<and> length (ws_frames w) \<le> Suc k"
proof -
  note inv = frame_laws.ws_reach_inv [OF assms]
  show ?thesis
  proof (cases out)
    case (Ws_closing st w)
    with assms(2) have "ws_reach E L mx k (Ws_stale w, borrowed_read bs c)" if "length bs = 4" for bs
      using that by (auto intro: ws_reach_step ws_close_stale)
    with inv Ws_closing show ?thesis by (simp add: ws_limits_def)
  next
    case (Ws_stale w)
    with ws_reach_stale [OF assms(2)] inv show ?thesis by (simp add: ws_limits_def)
  qed (use inv in \<open>simp_all add: ws_limits_def\<close>)
qed

theorem websocket_safe_witness:
  "\<exists>w c. ws_reach utils_ref ws_ref 100 3 (Ws_closing Close_error w, c) \<and> length (ws_receive_buffer w) \<le> 100
     \<and> ws_reach utils_ref ws_ref 100 3 (Ws_stale w, borrowed_read ''GET '' c)"
proof -
  let ?n = "new_websocket (new_http_request False) 100 3 sample_conn"
  have "ws_reach utils_ref ws_ref 100 3 (ws_start utils_ref ws_ref (fst ?n) (snd ?n))"
    by (rule ws_reach_start [of "new_http_request False" 100 3 sample_conn]) simp
  then obtain w c where "ws_reach utils_ref ws_ref 100 3 (Ws_sending Next_open w, c)"
    by (auto simp: ws_start_def send_internal_def)
  from ws_reach_step [OF this ws_sent [where failed = True]]
  obtain w c where closing: "ws_reach utils_ref ws_ref 100 3 (Ws_closing Close_error w, c)"
    by (auto simp: on_sent_def on_close_def send_close_def Let_def)
  with websocket_safe [OF rfc.frame_laws_axioms closing] show ?thesis by fastforce
qed

text \<open>
  C16: a fragmented message is put together, however its bytes arrive. For a message that is sent
  as some frames without the final flag and a final one, and that fits the limits: whatever the
  pieces in which its bytes are read, the message handler is called once, with exactly these
  frames, so that \<open>message_data\<close> yields the concatenation of their payloads and \<open>message_type\<close> the
  type of the first; nothing is sent meanwhile.
\<close>

theorem message_reassembly:
  assumes "frame_laws L"
    and "list_all (\<lambda>g. is_frame L g \<and> \<not> fr_final L g) fs"
    and "is_frame L f" "fr_final L f" "fr_type L f \<in> {Frame_text, Frame_binary, Frame_continuation}"
    and "ws_frames w = []" "ws_receive_buffer w = []" "length fs \<le> ws_frames_max_count w"
    and "concat pieces = concat fs @ f" "[] \<notin> set pieces" "f \<noteq> []"
    and "length (concat fs @ f) \<le> ws_receive_buffer_max_size w"
  shows "\<exists>w' c'. ws_drive L (Ws_receiving w, c) pieces = (Ws_call Ev_message w', c')
    \<and> message_data L w' = concat (map (fr_payload L) fs) @ fr_payload L f
    \<and> message_type L w' = fr_type L (hd (fs @ [f])) \<and> sent_bytes c' = sent_bytes c"
proof -
  obtain w' c' where "ws_drive L (Ws_receiving w, c) pieces = (Ws_call Ev_message w', c')"
    "ws_frames w' = fs @ [f]" "sent_bytes c' = sent_bytes c"
    using frame_laws.drive_message [OF assms(1-5), of w pieces c] assms(6-12) by auto
  moreover have "message_data L w' = concat (map (fr_payload L) fs) @ fr_payload L f"
    "message_type L w' = fr_type L (hd (fs @ [f]))" if "ws_frames w' = fs @ [f]" for w'
    using that by (auto simp: message_data_def message_type_def nth_append split: list.splits)
  ultimately show ?thesis by blast
qed

theorem message_reassembly_witness:
  "\<exists>w' c'. ws_drive ws_ref (Ws_receiving (fst (new_websocket (new_http_request False) 100 3 sample_conn)), sample_conn)
       [[CHR 0x01], [CHR 0x02, CHR ''a'', CHR ''b'', CHR 0x80], [CHR 0x01, CHR ''c'']] = (Ws_call Ev_message w', c')
     \<and> message_data ws_ref w' = ''abc'' \<and> message_type ws_ref w' = Frame_text"
proof -
  let ?g = "[CHR 0x01, CHR 0x02, CHR ''a'', CHR ''b'']" and ?f = "[CHR 0x80, CHR 0x01, CHR ''c'']"
  let ?w = "fst (new_websocket (new_http_request False) 100 3 sample_conn)"
  have fr: "list_all (\<lambda>g. is_frame ws_ref g \<and> \<not> fr_final ws_ref g) [?g]" "is_frame ws_ref ?f" "fr_final ws_ref ?f"
    "fr_type ws_ref ?f \<in> {Frame_text, Frame_binary, Frame_continuation}"
    by (simp_all add: is_frame_def ws_ref_def ref_length_def ref_header_def ref_masked_def ref_type_def)
  have w: "ws_frames ?w = []" "ws_receive_buffer ?w = []" "length [?g] \<le> ws_frames_max_count ?w"
    "length (concat [?g] @ ?f) \<le> ws_receive_buffer_max_size ?w"
    by (simp_all add: new_websocket_def)
  have pay: "fr_payload ws_ref ?g = ''ab''" "fr_payload ws_ref ?f = ''c''" "fr_type ws_ref ?g = Frame_text"
    by (simp_all add: ws_ref_def ref_length_def ref_header_def ref_masked_def ref_type_def)
  from message_reassembly [OF rfc.frame_laws_axioms fr w(1-3) _ _ _ w(4),
      of "[[CHR 0x01], [CHR 0x02, CHR ''a'', CHR ''b'', CHR 0x80], [CHR 0x01, CHR ''c'']]" sample_conn]
  show ?thesis by (auto simp: pay)
qed

text \<open>
  C33: an outgoing message is one frame. What the application writes before \<open>send\<close> goes out as the
  header of a frame of the given type and the total length, followed by the data, after which
  the object receives again.
\<close>

theorem message_framing:
  assumes "send_message L ty next (fold ws_write ds (clear_payload w)) c = (out, c1)"
  shows "\<exists>w1. out = Ws_posted_send next w1 \<and> c1 = c
    \<and> sent_bytes (snd (send_internal next w1 c)) = sent_bytes c @ fr_make_header L ty (length (concat ds)) @ concat ds"
proof -
  have one: "ws_payload_buffers (ws_write d v) = ws_payload_buffers v @ (if d = [] then [] else [d])"
    "ws_payload_length (ws_write d v) = ws_payload_length v + length d" for d v
    by (simp_all add: ws_write_def add_to_payload_cache_def)
  have wr: "\<exists>bufs. ws_payload_buffers (fold ws_write ds v) = ws_payload_buffers v @ bufs \<and> concat bufs = concat ds
      \<and> ws_payload_length (fold ws_write ds v) = ws_payload_length v + length (concat ds)" for v
  proof (induction ds arbitrary: v)
    case (Cons d ds)
    obtain bufs where b: "ws_payload_buffers (fold ws_write ds (ws_write d v)) = ws_payload_buffers (ws_write d v) @ bufs"
      "concat bufs = concat ds"
      "ws_payload_length (fold ws_write ds (ws_write d v)) = ws_payload_length (ws_write d v) + length (concat ds)"
      using Cons.IH by blast
    then show ?case
      by (intro exI [of _ "(if d = [] then [] else [d]) @ bufs"])
         (auto simp: one)
  qed simp
  let ?v = "fold ws_write ds (clear_payload w)"
  obtain bufs where b: "ws_payload_buffers ?v = [] # bufs" "concat bufs = concat ds" "ws_payload_length ?v = length (concat ds)"
    using wr [of "clear_payload w"] by (auto simp: clear_payload_def)
  then show ?thesis
    using assms by (auto simp: send_message_def prepare_header_def Let_def send_internal_def)
qed

theorem message_framing_witness:
  "\<exists>w1. fst (send_message ws_ref Frame_text Next_receive (fold ws_write [''ab'', ''c'']
         (clear_payload (fst (new_websocket (new_http_request False) 100 3 sample_conn)))) sample_conn) = Ws_posted_send Next_receive w1
     \<and> sent_bytes (snd (send_internal Next_receive w1 sample_conn))
       = sent_bytes sample_conn @ [CHR 0x81, CHR 0x03] @ ''abc''"
proof -
  have h: "fr_make_header ws_ref Frame_text (length (concat [''ab'', ''c''])) = [CHR 0x81, CHR 0x03]"
    by code_simp
  from message_framing [OF surjective_pairing, of ws_ref Frame_text Next_receive "[''ab'', ''c'']"
      "fst (new_websocket (new_http_request False) 100 3 sample_conn)" sample_conn]
  show ?thesis unfolding h by auto
qed

text \<open>
  C37: the answer to a ping is not a frame. A ping is answered by writing the beginning of its
  payload (at most 128 bytes) without any frame header; and when it arrives between the fragments
  of a message, the fragments received so far are dropped when the answer is sent.
\<close>

theorem ping_answer:
  assumes "frame_laws L" and "is_frame L f" "fr_final L f" "fr_type L f = Frame_ping"
    and "ws_receive_buffer w = f @ rest" "ws_payload_buffers w = [[]]"
  shows "\<exists>w1 c1. process_receive_buffer L w c = (Ws_sending Next_receive w1, c1)
    \<and> sent_bytes c1 = sent_bytes c @ take 128 (fr_payload L f)
    \<and> on_sent L False Next_receive w1 c1
        = process_receive_buffer L ((clear_payload w1)\<lparr>ws_receive_buffer := rest, ws_frames_cache := [], ws_frames := []\<rparr>) c1"
proof -
  note v = frame_laws.frame_view [OF assms(1,2), of rest]
  let ?w = "w\<lparr>ws_frames := ws_frames w @ [f]\<rparr>"
  let ?w1 = "if length (fr_payload L f) > 0 then ws_write (take 128 (fr_payload L f)) ?w else ?w"
  have p: "process_receive_buffer L w c = send_internal Next_receive ?w1 c"
    using assms(2-5) v by (simp add: process_receive_buffer_def process_final_frame_def on_ping_def Let_def)
  have bufs: "concat (ws_payload_buffers ?w1) = take 128 (fr_payload L f)"
    using assms(6) by (simp add: ws_write_def add_to_payload_cache_def)
  have inp: "ws_frames ?w1 = ws_frames w @ [f]" "ws_receive_buffer ?w1 = f @ rest"
    using assms(5) by (simp_all add: ws_write_def add_to_payload_cache_def)
  have "fr_size L f = length f" using assms(2) by (simp add: is_frame_def)
  then have "on_sent L False Next_receive ?w1 c1
        = process_receive_buffer L ((clear_payload ?w1)\<lparr>ws_receive_buffer := rest, ws_frames_cache := [], ws_frames := []\<rparr>) c1" for c1
    using inp by (simp add: on_sent_def ws_receive_def clear_frames_cache_def remove_frame_from_receive_buffer_def
        clear_payload_def Let_def)
  then show ?thesis using p bufs by (auto simp: send_internal_def)
qed

theorem ping_answer_witness:
  "\<exists>w1 c1. process_receive_buffer ws_ref
       ((clear_payload (fst (new_websocket (new_http_request False) 100 3 sample_conn)))
          \<lparr>ws_receive_buffer := [CHR 0x89, CHR 0x01, CHR ''p''] @ []\<rparr>) sample_conn = (Ws_sending Next_receive w1, c1)
     \<and> sent_bytes c1 = sent_bytes sample_conn @ ''p''"
proof -
  let ?f = "[CHR 0x89, CHR 0x01, CHR ''p'']"
  let ?w = "(clear_payload (fst (new_websocket (new_http_request False) 100 3 sample_conn)))\<lparr>ws_receive_buffer := ?f @ []\<rparr>"
  have f: "is_frame ws_ref ?f" "fr_final ws_ref ?f" "fr_type ws_ref ?f = Frame_ping" "fr_payload ws_ref ?f = ''p''"
    by (simp_all add: is_frame_def ws_ref_def ref_length_def ref_header_def ref_masked_def ref_type_def)
  have "ws_receive_buffer ?w = ?f @ []" "ws_payload_buffers ?w = [[]]" by (simp_all add: clear_payload_def)
  from ping_answer [OF rfc.frame_laws_axioms f(1-3) this, of sample_conn] f(4) show ?thesis by auto
qed

text \<open>The status codes of RFC 6455.\<close>

fun close_code :: "close_status \<Rightarrow> nat" where
  "close_code Close_normal = 1000"
| "close_code Close_going_away = 1001"
| "close_code Close_protocol_error = 1002"
| "close_code Close_overflow = 1009"
| "close_code Close_error = 1011"

text \<open>
  The close status, when asio takes it before the call returns, is written as a close frame. On a
  little-endian machine the bytes of each enumerator are the header of a final, unmasked close frame with two bytes of
  payload, and the status code (1000, 1001, 1002, 1009 or 1011) in network byte order.
\<close>

lemma close_frame_bytes:
  "ws_step L (send_close status w c) (on_close_sent w (borrowed_read (memory_bytes (close_value status)) (async_write_borrowed c)))"
  "sent_bytes (borrowed_read (memory_bytes (close_value status)) (async_write_borrowed c))
     = sent_bytes c @ [CHR 0x88, CHR 0x02, char_of (close_code status div 256), char_of (close_code status mod 256)]"
proof -
  have "char_of (136 :: nat) = CHR 0x88" "char_of (2 :: nat) = CHR 0x02" by code_simp+
  then show "sent_bytes (borrowed_read (memory_bytes (close_value status)) (async_write_borrowed c))
     = sent_bytes c @ [CHR 0x88, CHR 0x02, char_of (close_code status div 256), char_of (close_code status mod 256)]"
    by (cases status) (simp_all add: memory_bytes_def sent_bytes_def conn_defs)
qed (simp add: send_close_def ws_close_sent)

text \<open>
  C34: broadcasting. When every registered connection of the path is wanted, each of them that is
  still open gets the header of a frame and the message in one write, and the others are
  forgotten; otherwise the call does not return.
\<close>

theorem broadcast_outcome:
  "broadcast_websocket L path msg ty ids reg =
     (if ids \<noteq> [] \<and> (\<exists>e\<in>set reg. fst e = path \<and> fst (snd e) \<notin> set ids) then None
      else Some (map (async_write [fr_make_header L ty (length msg) @ msg])
                   (List.map_filter (\<lambda>e. snd (snd e)) (filter (\<lambda>e. fst e = path) reg)),
                 filter (\<lambda>e. fst e \<noteq> path) reg
                 @ filter (\<lambda>e. snd (snd e) \<noteq> None) (filter (\<lambda>e. fst e = path) reg)))"
  by (auto simp: broadcast_websocket_def find_ws_conns_eq broadcast_def send_broadcast_def)

end
