(* ===== verification/Websocket_Upgrade.thy ===== *)
theory Websocket_Upgrade
  imports Request_Service Websocket_Laws
begin

text \<open>
  The branch of \<open>http_server::handle_request\<close> that turns a connection into a WebSocket, and the
  handshake that follows from the text of the request.
\<close>

section \<open>Starting a WebSocket\<close>

text \<open>
  What \<open>handle_request\<close> does after it has found handlers for an upgrade: the object is made with
  the default limits of its constructor, started, and its connection registered. \<open>weak_conn\<close> is
  the weak pointer put into the registry.
\<close>

definition start_websocket ::
  "sl_utils \<Rightarrow> ws_lib \<Rightarrow> byte_string \<Rightarrow> byte_string \<Rightarrow> http_request \<Rightarrow> tcp_connection \<Rightarrow> 'c \<Rightarrow> 'c ws_registry
   \<Rightarrow> ws_result \<times> 'c ws_registry" where
  "start_websocket E L path ident req c weak_conn reg =
     (case new_websocket req (1024 * 1024) 1024 c of (ws, c1) \<Rightarrow>
        (ws_start E L ws c1, register_ws_conn path ident weak_conn reg))"

section \<open>The handshake\<close>

text \<open>Whether a request is an upgrade depends on its headers only.\<close>

definition upgrade_head :: "sl_utils \<Rightarrow> dict \<Rightarrow> bool" where
  "upgrade_head E hs \<longleftrightarrow> is_websocket_upgrade E ((new_http_request False)\<lparr>m_headers := hs\<rparr>)"

lemma upgrade_head_iff: "m_headers m = hs \<Longrightarrow> is_websocket_upgrade E m \<longleftrightarrow> upgrade_head E hs"
  by (simp add: upgrade_head_def is_websocket_upgrade_def has_header_value_def get_header_def)

lemma written_bytes [simp]:
  "concat (ws_payload_buffers (ws_write data w)) = concat (ws_payload_buffers w) @ data"
  "concat (ws_payload_buffers (ws_write_nocopy data w)) = concat (ws_payload_buffers w) @ data"
  by (simp_all add: ws_write_def ws_write_nocopy_def add_to_payload_cache_def)

definition handshake_text :: "ws_lib \<Rightarrow> byte_string \<Rightarrow> byte_string" where
  "handshake_text L key =
     hs_response_line L
     @ concat (map (\<lambda>ha. fst ha @ '': '' @ snd ha @ [CR, LF]) (hs_response_headers L key)) @ [CR, LF]"

lemma handshake_bytes:
  "concat (ws_payload_buffers (prepare_handshake E L w))
     = concat (ws_payload_buffers w) @ handshake_text L (get_header E (ws_request w) ''Sec-WebSocket-Key'')"
proof -
  have "concat (ws_payload_buffers (fold (\<lambda>ha v. ws_write_nocopy STRING_CRLF
            (ws_write (snd ha) (ws_write_nocopy '': '' (ws_write (fst ha) v)))) hs v))
      = concat (ws_payload_buffers v) @ concat (map (\<lambda>ha. fst ha @ '': '' @ snd ha @ [CR, LF]) hs)" for hs v
    by (induction hs arbitrary: v) (simp_all add: STRING_CRLF_def)
  then show ?thesis by (simp add: prepare_handshake_def handshake_text_def STRING_CRLF_def Let_def)
qed

lemma start_websocket_result:
  obtains ws c' where
    "start_websocket E L path ident req c wc reg
       = ((Ws_sending Next_open ws, c'), filter (\<lambda>e. snd (snd e) \<noteq> None) reg @ [(path, ident, Some wc)])"
    "sent_bytes c' = sent_bytes c @ handshake_text L (get_header E req ''Sec-WebSocket-Key'')"
    "\<not> get_keep_alive c'" "ws_receive_buffer ws = []" "ws_request ws = req"
    "ws_reach E L (1024 * 1024) 1024 (Ws_sending Next_open ws, c')"
proof -
  obtain w c1 where n: "new_websocket req (1024 * 1024) 1024 c = (w, c1)" by (metis surj_pair)
  let ?ws = "prepare_handshake E L w"
  let ?c' = "async_write (ws_payload_buffers ?ws) c1"
  have w: "ws_payload_buffers w = []" "ws_request w = req" "ws_receive_buffer w = []" "c1 = set_lifecycle Lifecycle_close c"
    using n by (auto simp: new_websocket_def)
  have inp: "ws_receive_buffer ?ws = []" "ws_request ?ws = req"
    using input_of_handshake [of E L w] w by (simp_all add: input_of_def)
  have start: "ws_start E L w c1 = (Ws_sending Next_open ?ws, ?c')" by (simp add: ws_start_def send_internal_def)
  show thesis
  proof (rule that [OF _ _ _ inp])
    show "start_websocket E L path ident req c wc reg
       = ((Ws_sending Next_open ?ws, ?c'), filter (\<lambda>e. snd (snd e) \<noteq> None) reg @ [(path, ident, Some wc)])"
      unfolding start_websocket_def n by (simp add: start register_ws_conn_def)
    show "sent_bytes ?c' = sent_bytes c @ handshake_text L (get_header E req ''Sec-WebSocket-Key'')"
      using handshake_bytes [of E L w] w by (simp add: sent_bytes_def conn_defs)
    show "\<not> get_keep_alive ?c'" using w by (simp add: conn_defs)
    show "ws_reach E L (1024 * 1024) 1024 (Ws_sending Next_open ?ws, ?c')"
      using ws_reach_start [OF n, of E L] by (simp add: start)
  qed
qed

section \<open>Properties\<close>

text \<open>
  C24: the WebSocket handshake, from the text of the request to the answer. When a new reader
  gets a well-formed head that asks for an upgrade on a path with a WebSocket handler (and no
  payload handler), the connection becomes a WebSocket: the answer on the wire is the response
  line and headers the frame library makes for the key, the connection will be closed after it,
  it is registered under its path and the key, registrations of dead connections are purged, and
  the object is in a state from which its reachable states start. Bytes that came with the head
  are not taken over into the receive buffer of the WebSocket.
\<close>

theorem websocket_handshake:
  fixes s :: "'ws http_server"
  assumes "line_ok meth res query" and "list_all header_ok hs" and "ver \<noteq> 0" and "content_length_ok E hs"
    and "\<not> form_type E hs"
    and "choose_payloads meth s = Inr payloads" and "find_submatch payloads (strip_trailing_slash res) = None"
    and "r = new_http_request_reader g1 g2 g3 t c0"
    and "upgrade_head E hs" and "find_ws_handlers rf nf res s = (True, handlers)"
    and "key = get_value E hs ''Sec-WebSocket-Key''"
  shows "\<exists>m c' ws c''.
      on_read E rf nf s r c (Read_ok (request_text meth res query ver sub hs @ extra))
        = Completed (Upgraded res key handlers m c')
      \<and> start_websocket E L res key m c' wc reg
        = ((Ws_sending Next_open ws, c''), filter (\<lambda>e. snd (snd e) \<noteq> None) reg @ [(res, key, Some wc)])
      \<and> sent_bytes c'' = sent_bytes c
          @ (if iequals E ''100-continue'' (get_value E hs ''Expect'') then RESPONSE_FULLMESSAGE_100_CONTINUE else [])
          @ handshake_text L key
      \<and> \<not> get_keep_alive c'' \<and> ws_receive_buffer ws = [] \<and> get_id E ws = key
      \<and> ws_reach E L (1024 * 1024) 1024 (Ws_sending Next_open ws, c'')"
proof -
  obtain m c' where read: "on_read E rf nf s r c (Read_ok (request_text meth res query ver sub hs @ extra))
        = Completed (handle_request E rf nf s m c' EC_none)"
    and m: "m_is_valid m" "headed_message E meth res query ver sub hs m"
    and sent: "sent_bytes c' = sent_bytes c
          @ (if iequals E ''100-continue'' (get_value E hs ''Expect'') then RESPONSE_FULLMESSAGE_100_CONTINUE else [])"
    using served_request [OF assms(1-8), of rf nf c sub extra] by blast
  have hd: "m_headers m = hs" "rq_resource m = res" using m(2) by (simp_all add: headed_message_def)
  have key: "get_header E m ''Sec-WebSocket-Key'' = key" using hd assms(11) by (simp add: get_header_def)
  have up: "handle_request E rf nf s m c' EC_none = Upgraded res key handlers m c'"
    using m(1) assms(9,10) hd key by (simp add: handle_request_def upgrade_head_iff)
  show ?thesis
    by (rule start_websocket_result [of E L res key m c' wc reg])
       (use read up sent key in \<open>auto simp: get_id_def\<close>)
qed

definition upgrade_headers :: dict where
  "upgrade_headers = [(''Host'', ''h''), (''Upgrade'', ''websocket''), (''Connection'', ''keep-alive, Upgrade''),
     (''Sec-WebSocket-Version'', ''13''), (''Sec-WebSocket-Key'', ''dGhlIHNhbXBsZSBub25jZQ=='')]"

definition chat_server :: "unit http_server" where
  "chat_server = (new_http_server utils_ref 1000)\<lparr>hs_wsopen_handlers := [''/w'' \<mapsto> ()]\<rparr>"

lemma upgrade_headers_ok:
  "line_ok ''GET'' ''/w'' []" "list_all header_ok upgrade_headers"
  by (simp_all add: upgrade_headers_def line_ok_def token_text_def not_token_def is_char_def is_control_def is_special_def
      char_value_def no_control_def METHOD_MAX_def RESOURCE_MAX_def QUERY_STRING_MAX_def header_ok_def header_text_def
      HEADER_NAME_MAX_def HEADER_VALUE_MAX_def)

lemmas header_lookup = dict_find_def equal_range_def iequal_to_def header_name_consts HEADER_CONTENT_TYPE_def
  iequals_ref_def upper_string_def toupper_def char_value_def

lemma upgrade_headers_values:
  "content_length_ok utils_ref upgrade_headers" "\<not> form_type utils_ref upgrade_headers"
  by (simp_all add: upgrade_headers_def content_length_ok_def form_type_def get_value_def header_lookup
      STRING_EMPTY_def CONTENT_TYPE_URLENCODED_def CONTENT_TYPE_MULTIPART_FORM_DATA_def)

lemma upgrade_headers_upgrade: "upgrade_head utils_ref upgrade_headers"
  by (simp add: upgrade_headers_def upgrade_head_def is_websocket_upgrade_def has_header_value_def get_header_def get_value_def
      header_lookup STRING_EMPTY_def trim_ref_def)

theorem websocket_handshake_witness:
  "\<exists>m c' ws c''.
      on_read utils_ref () () chat_server (new_http_request_reader 0 0 False 1000 sample_conn) sample_conn
        (Read_ok (request_text ''GET'' ''/w'' [] 1 1 upgrade_headers @ []))
        = Completed (Upgraded ''/w'' (get_value utils_ref upgrade_headers ''Sec-WebSocket-Key'') ((), (), ()) m c')
      \<and> fst (start_websocket utils_ref ws_ref ''/w'' (get_value utils_ref upgrade_headers ''Sec-WebSocket-Key'') m c' (0::nat) [])
        = (Ws_sending Next_open ws, c'')
      \<and> ws_receive_buffer ws = []"
proof -
  have tbl: "choose_payloads ''GET'' chat_server = Inr Map.empty"
    by (simp add: choose_payloads_def choose_map_by_method_def chat_server_def new_http_server_def method_names)
  have none: "find_submatch Map.empty (strip_trailing_slash ''/w'') = None" by (simp add: find_submatch_None)
  have found: "find_ws_handlers () () ''/w'' chat_server = (True, (), (), ())"
    by (simp add: find_ws_handlers_def chat_server_def)
  have "(1 :: 16 word) \<noteq> 0" by simp
  from websocket_handshake [OF upgrade_headers_ok this upgrade_headers_values tbl none refl upgrade_headers_upgrade
      found refl, of 0 0 False 1000 sample_conn sample_conn 1 "[]" ws_ref "0 :: nat" "[]"]
  show ?thesis by (metis fst_conv)
qed

end
