(* ===== verification/Http_System.thy ===== *)
theory Http_System
  imports Server_System Websocket_Upgrade
begin

text \<open>
  The running HTTP server: the \<open>tcp_server\<close> with its connections, what each connection is busy
  with (a reader, a response, a WebSocket), and the registry of WebSocket connections. A step is one
  completion or call with all it does; completions come in any order.
\<close>

section \<open>State\<close>

text \<open>
  What does not change while the server runs: the helpers, the frame library, the two built-in
  WebSocket handlers, what the uninitialised members of a reader hold, and the handlers registered.
\<close>

record 'ws http_config =
  cf_utils :: sl_utils
  cf_frames :: ws_lib
  cf_receive_fun :: 'ws
  cf_noop_fun :: 'ws
  cf_garbage1 :: nat
  cf_garbage2 :: nat
  cf_garbage3 :: bool
  cf_http :: "'ws http_server"

text \<open>Who owns a connection that an operation of \<open>handle_connection\<close> is in flight for.\<close>

datatype conn_task =
    Task_reading http_request_reader
  | Task_responding
  | Task_websocket ws_outcome

text \<open>
  \<open>sy_stopping\<close> is true while the thread that called \<open>stop\<close> waits; \<open>sy_errors\<close> are the exceptions
  that reached the loop of a scheduler thread. An entry of the registry refers to a connection by
  its number.
\<close>

record http_system =
  sy_server :: tcp_server
  sy_stopping :: bool
  sy_tasks :: "nat \<rightharpoonup> conn_task"
  sy_registry :: "nat ws_registry"
  sy_errors :: "exn list"

definition new_http_system :: "32 word \<Rightarrow> bool \<Rightarrow> http_system" where
  "new_http_system number_of_threads ssl =
     \<lparr>sy_server = new_tcp_server number_of_threads ssl, sy_stopping = False, sy_tasks = Map.empty,
      sy_registry = [], sy_errors = []\<rparr>"

definition connection_outcome :: "'ws http_config \<Rightarrow> tcp_connection \<Rightarrow> 'ws reader_outcome" where
  "connection_outcome C c =
     handle_connection (cf_utils C) (cf_receive_fun C) (cf_noop_fun C) (cf_garbage1 C) (cf_garbage2 C) (cf_garbage3 C)
       (cf_http C) c"

definition server_handler :: "'ws http_config \<Rightarrow> connection_handler" where
  "server_handler C c = conn_result_of c (connection_outcome C c)"

definition conn_of :: "nat \<Rightarrow> http_system \<Rightarrow> tcp_connection" where
  "conn_of i y = ts_conns (sy_server y) i"

definition with_server :: "tcp_server \<Rightarrow> http_system \<Rightarrow> http_system" where
  "with_server s y = y\<lparr>sy_server := s\<rparr>"

definition with_conn :: "nat \<Rightarrow> tcp_connection \<Rightarrow> http_system \<Rightarrow> http_system" where
  "with_conn i c y = y\<lparr>sy_server := set_conn i c (sy_server y)\<rparr>"

definition set_task :: "nat \<Rightarrow> conn_task \<Rightarrow> http_system \<Rightarrow> http_system" where
  "set_task i t y = y\<lparr>sy_tasks := (sy_tasks y)(i \<mapsto> t)\<rparr>"

definition clear_task :: "nat \<Rightarrow> http_system \<Rightarrow> http_system" where
  "clear_task i y = y\<lparr>sy_tasks := (sy_tasks y)(i := None)\<rparr>"

definition log_error :: "exn \<Rightarrow> http_system \<Rightarrow> http_system" where
  "log_error e y = y\<lparr>sy_errors := sy_errors y @ [e]\<rparr>"

section \<open>Operations\<close>

text \<open>
  The weak pointers of the registry: \<open>lock\<close> succeeds while the pool or an operation in flight holds
  the connection.
\<close>

definition conn_alive :: "tcp_server \<Rightarrow> nat \<Rightarrow> bool" where
  "conn_alive s i \<longleftrightarrow> i \<in> ts_conn_pool s \<or> referenced s i"

definition weak_registry :: "tcp_server \<Rightarrow> nat ws_registry \<Rightarrow> nat ws_registry" where
  "weak_registry s reg =
     map (\<lambda>(path, ident, w). (path, ident, case w of Some i \<Rightarrow> if conn_alive s i then w else None | None \<Rightarrow> None)) reg"

text \<open>An exception leaves the callback: it drops its reference to the connection.\<close>

definition drop_connection :: "nat \<Rightarrow> http_system \<Rightarrow> http_system" where
  "drop_connection i y = clear_task i (with_server (end_op (Handling i) (sy_server y)) y)"

text \<open>
  What the reader has come to, for a connection with an operation in flight: it reads on, the
  application has the request, the connection becomes a WebSocket, or an exception leaves.
\<close>

definition continue_with :: "'ws http_config \<Rightarrow> nat \<Rightarrow> 'ws reader_outcome \<Rightarrow> http_system \<Rightarrow> http_system" where
  "continue_with C i out y =
     (case out of
        Reading r c \<Rightarrow> set_task i (Task_reading r) (with_conn i c y)
      | Reader_threw e c \<Rightarrow> log_error e (drop_connection i (with_conn i c y))
      | Completed (Threw e c) \<Rightarrow> log_error e (drop_connection i (with_conn i c y))
      | Completed (Handled c) \<Rightarrow> set_task i Task_responding (with_conn i c y)
      | Completed (Upgraded path ident hs req c) \<Rightarrow>
          (case start_websocket (cf_utils C) (cf_frames C) path ident req c i
                  (weak_registry (sy_server y) (sy_registry y)) of
             ((w, c1), reg) \<Rightarrow> (set_task i (Task_websocket w) (with_conn i c1 y))\<lparr>sy_registry := reg\<rparr>))"

text \<open>
  After an operation of the \<open>tcp_server\<close> that may have called \<open>handle_connection\<close> for connection
  \<open>i\<close>: when it did, and left an operation in flight, the outcome of that call on \<open>c\<close> goes on.
\<close>

definition after_operation :: "'ws http_config \<Rightarrow> nat \<Rightarrow> tcp_connection \<Rightarrow> tcp_server \<Rightarrow> http_system \<Rightarrow> http_system" where
  "after_operation C i c s' y =
     (if Handling i \<in> ts_pending s' then continue_with C i (connection_outcome C c) (with_server s' y)
      else clear_task i (with_server s' y))"

text \<open>
  A call that waits for a mutex its thread holds never returns: it is not a step of this system. What it
  does to the other threads is modelled in \<open>Tcp_Interleaving\<close>.
\<close>

definition server_outcome ::
  "'ws http_config \<Rightarrow> nat \<Rightarrow> tcp_connection \<Rightarrow> ts_outcome \<Rightarrow> http_system \<Rightarrow> http_system option" where
  "server_outcome C i c r y =
     (case r of
        Ts_ok s' \<Rightarrow> Some (after_operation C i c s' y)
      | Ts_raised e s' \<Rightarrow> Some (log_error e (clear_task i (with_server s' y)))
      | Ts_deadlock \<Rightarrow> None)"

text \<open>\<open>tcp_connection::finish\<close>: the handler of the server is called; \<open>None\<close> never returns.\<close>

definition finish_task :: "'ws http_config \<Rightarrow> nat \<Rightarrow> http_system \<Rightarrow> http_system option" where
  "finish_task C i y =
     server_outcome C i (conn_of i y)
       (finish_connection (server_handler C) i (end_op (Handling i) (sy_server y))) y"

text \<open>The completion of a read: the connection is finished at once, or goes on.\<close>

definition read_completed :: "'ws http_config \<Rightarrow> nat \<Rightarrow> http_request_reader \<Rightarrow> read_result \<Rightarrow> http_system \<Rightarrow> http_system option" where
  "read_completed C i r res y =
     (let out = on_read (cf_utils C) (cf_receive_fun C) (cf_noop_fun C) (cf_http C) r (conn_of i y) res
      in case conn_result_of (conn_of i y) out of
           Finishes c \<Rightarrow> finish_task C i (with_conn i c y)
         | _ \<Rightarrow> Some (continue_with C i out y))"

text \<open>
  The completion of an accept or of a handshake. When \<open>handle_connection\<close> finishes the connection
  before it returns and it is taken up again, the second call gets what the first one left.
\<close>

definition restarted_from :: "'ws http_config \<Rightarrow> tcp_connection \<Rightarrow> tcp_connection" where
  "restarted_from C c = (case server_handler C c of Finishes c' \<Rightarrow> c' | _ \<Rightarrow> c)"

definition accept_completed :: "'ws http_config \<Rightarrow> nat \<Rightarrow> bool \<Rightarrow> ip_address \<Rightarrow> http_system \<Rightarrow> http_system option" where
  "accept_completed C i accept_error ip y =
     server_outcome C i
       (if accept_error then conn_of i y
        else restarted_from C ((conn_of i y)\<lparr>tc_open := True, tc_remote_ip := ip\<rparr>))
       (handle_accept (server_handler C) i accept_error ip (sy_server y)) y"

definition handshake_completed :: "'ws http_config \<Rightarrow> nat \<Rightarrow> bool \<Rightarrow> http_system \<Rightarrow> http_system option" where
  "handshake_completed C i handshake_error y =
     server_outcome C i (if handshake_error then conn_of i y else restarted_from C (conn_of i y))
       (handle_ssl_handshake (server_handler C) i handshake_error (sy_server y)) y"

text \<open>\<open>broadcast_websocket\<close>, called by any thread: \<open>None\<close> when the search of the registry never ends.\<close>

definition system_broadcast ::
  "'ws http_config \<Rightarrow> byte_string \<Rightarrow> byte_string \<Rightarrow> frame_type \<Rightarrow> byte_string list \<Rightarrow> http_system \<Rightarrow> http_system option" where
  "system_broadcast C path msg ty ids y =
     map_option
       (\<lambda>(conns, reg). (fold (\<lambda>i z. with_conn i (send_broadcast (fr_make_header (cf_frames C) ty (length msg) @ msg) (conn_of i z)) z)
                          conns y)\<lparr>sy_registry := reg\<rparr>)
       (find_ws_conns path ids (weak_registry (sy_server y) (sy_registry y)))"

section \<open>Steps\<close>

text \<open>
  While the application has a request it may do anything to the connection, most of all write the
  response; it then finishes the connection, or drops it. A WebSocket object is destroyed by the
  application that owns it, which finishes its connection. The handler of the timer may run when the
  read is over and the timer cancelled, if it had expired before.
\<close>

inductive sys_step :: "'ws http_config \<Rightarrow> http_system \<Rightarrow> http_system \<Rightarrow> bool" for C where
  sys_start:
    "\<not> sy_stopping y \<Longrightarrow> start e (sy_server y) = Ts_ok s' \<or> start e (sy_server y) = Ts_raised x s'
     \<Longrightarrow> sys_step C y (with_server s' y)"
| sys_stop:
    "\<not> sy_stopping y \<Longrightarrow> ts_listening (sy_server y)
     \<Longrightarrow> sys_step C y ((with_server (stop_begin w (sy_server y)) y)\<lparr>sy_stopping := True\<rparr>)"
| sys_wait: "sy_stopping y \<Longrightarrow> stop_round (sy_server y) = Inl s' \<Longrightarrow> sys_step C y (with_server s' y)"
| sys_stopped:
    "sy_stopping y \<Longrightarrow> stop_round (sy_server y) = Inr s' \<Longrightarrow> sys_step C y ((with_server s' y)\<lparr>sy_stopping := False\<rparr>)"
| sys_accept:
    "Accepting i \<in> ts_pending (sy_server y) \<Longrightarrow> accept_completed C i err ip y = Some y' \<Longrightarrow> sys_step C y y'"
| sys_handshake:
    "Handshaking i \<in> ts_pending (sy_server y) \<Longrightarrow> handshake_completed C i err y = Some y' \<Longrightarrow> sys_step C y y'"
| sys_read:
    "sy_tasks y i = Some (Task_reading r) \<Longrightarrow> read_completed C i r res y = Some y' \<Longrightarrow> sys_step C y y'"
| sys_timeout:
    "sy_tasks y i = Some t \<Longrightarrow> sys_step C y (with_conn i (on_timeout aborted (conn_of i y)) y)"
| sys_application: "sy_tasks y i = Some Task_responding \<Longrightarrow> sys_step C y (with_conn i c y)"
| sys_responded: "sy_tasks y i = Some Task_responding \<Longrightarrow> finish_task C i y = Some y' \<Longrightarrow> sys_step C y y'"
| sys_dropped: "sy_tasks y i = Some Task_responding \<Longrightarrow> sys_step C y (drop_connection i y)"
| sys_websocket:
    "sy_tasks y i = Some (Task_websocket w) \<Longrightarrow> ws_step (cf_frames C) (w, conn_of i y) (w', c')
     \<Longrightarrow> sys_step C y (set_task i (Task_websocket w') (with_conn i c' y))"
| sys_ws_destroyed:
    "sy_tasks y i = Some (Task_websocket (Ws_call ev w))
     \<Longrightarrow> finish_task C i (with_conn i (destroy_websocket (conn_of i y)) y) = Some y' \<Longrightarrow> sys_step C y y'"
| sys_broadcast: "system_broadcast C path msg ty ids y = Some y' \<Longrightarrow> sys_step C y y'"


inductive sys_reach :: "'ws http_config \<Rightarrow> http_system \<Rightarrow> bool" for C where
  sys_init: "sys_reach C (new_http_system n ssl)"
| sys_next: "sys_reach C y \<Longrightarrow> sys_step C y y' \<Longrightarrow> sys_reach C y'"

section \<open>The server inside the system\<close>

text \<open>Every step of the system is a run of the \<open>tcp_server\<close> inside it.\<close>

definition sys_abs :: "http_system \<Rightarrow> server_state" where
  "sys_abs y = (sy_server y, sy_stopping y)"

lemmas sys_ops = with_server_def with_conn_def set_task_def clear_task_def log_error_def drop_connection_def

lemma sys_abs_simps [simp]:
  "sys_abs (with_server s y) = (s, sy_stopping y)" "sys_abs (with_conn i c y) = (set_conn i c (sy_server y), sy_stopping y)"
  "sys_abs (set_task i t y) = sys_abs y" "sys_abs (clear_task i y) = sys_abs y" "sys_abs (log_error e y) = sys_abs y"
  "sys_abs (y\<lparr>sy_registry := reg\<rparr>) = sys_abs y"
  "sys_abs (drop_connection i y) = (end_op (Handling i) (sy_server y), sy_stopping y)"
  by (simp_all add: sys_abs_def sys_ops)

lemma sy_server_simps [simp]:
  "sy_server (with_server s y) = s" "sy_server (with_conn i c y) = set_conn i c (sy_server y)"
  "sy_stopping (with_server s y) = sy_stopping y" "sy_stopping (with_conn i c y) = sy_stopping y"
  by (simp_all add: sys_ops)

lemma pending_set_conn [simp]: "ts_pending (set_conn i c s) = ts_pending s"
  by (simp add: set_conn_def)

lemma continue_sim:
  assumes "Handling i \<in> ts_pending (sy_server y)"
  shows "(server_step hc)\<^sup>*\<^sup>* (sys_abs y) (sys_abs (continue_with C i out y))"
proof -
  have go: "(server_step hc)\<^sup>*\<^sup>* (sys_abs y) (set_conn i c (sy_server y), sy_stopping y)" for c
    unfolding sys_abs_def by (rule r_into_rtranclp) (rule step_progress [OF assms])
  have gone: "(server_step hc)\<^sup>*\<^sup>* (sys_abs y) (end_op (Handling i) (set_conn i c (sy_server y)), sy_stopping y)" for c
    using go [of c] by (rule rtranclp.rtrancl_into_rtrancl) (rule step_lost, simp add: assms)
  with go show ?thesis
    by (auto simp: continue_with_def split: reader_outcome.split request_outcome.split prod.split)
qed

lemma server_outcome_sim:
  assumes "\<And>s'. returned r = Some s' \<Longrightarrow> server_step hc (sys_abs y) (s', sy_stopping y)"
    and "server_outcome C i c r y = Some y'"
  shows "(server_step hc)\<^sup>*\<^sup>* (sys_abs y) (sys_abs y')"
proof (cases r)
  case (Ts_ok s')
  then have first: "server_step hc (sys_abs y) (sys_abs (with_server s' y))" using assms(1) by simp
  show ?thesis
  proof (cases "Handling i \<in> ts_pending s'")
    case True
    with continue_sim [of i "with_server s' y"] first show ?thesis
      using assms(2) Ts_ok by (auto simp: server_outcome_def after_operation_def intro: converse_rtranclp_into_rtranclp)
  qed (use first assms(2) Ts_ok in \<open>auto simp: server_outcome_def after_operation_def\<close>)
qed (use assms in \<open>auto simp: server_outcome_def\<close>)

lemma finish_sim:
  assumes "Handling i \<in> ts_pending (sy_server y)" and "finish_task C i y = Some y'"
  shows "(server_step (server_handler C))\<^sup>*\<^sup>* (sys_abs y) (sys_abs y')"
proof (rule server_outcome_sim [OF _ assms(2) [unfolded finish_task_def]])
  fix s'
  assume "returned (finish_connection (server_handler C) i (end_op (Handling i) (sy_server y))) = Some s'"
  then show "server_step (server_handler C) (sys_abs y) (s', sy_stopping y)"
    unfolding sys_abs_def returned_iff by (auto intro: step_finish [OF assms(1)])
qed

lemma finish_after_conn_sim:
  assumes "Handling i \<in> ts_pending (sy_server y)" and "finish_task C i (with_conn i c y) = Some y'"
  shows "(server_step (server_handler C))\<^sup>*\<^sup>* (sys_abs y) (sys_abs y')"
proof -
  have "server_step (server_handler C) (sys_abs y) (sys_abs (with_conn i c y))"
    using step_progress [OF assms(1)] by (simp add: sys_abs_def)
  moreover have "(server_step (server_handler C))\<^sup>*\<^sup>* (sys_abs (with_conn i c y)) (sys_abs y')"
    by (rule finish_sim [OF _ assms(2)]) (simp add: assms(1))
  ultimately show ?thesis by (rule converse_rtranclp_into_rtranclp)
qed

lemma read_sim:
  assumes "Handling i \<in> ts_pending (sy_server y)" and "read_completed C i r res y = Some y'"
  shows "(server_step (server_handler C))\<^sup>*\<^sup>* (sys_abs y) (sys_abs y')"
  using assms(2) continue_sim [OF assms(1)] finish_after_conn_sim [OF assms(1)]
  by (auto simp: read_completed_def Let_def split: conn_result.splits)

lemma find_ws_conns_alive:
  assumes "find_ws_conns path ids (weak_registry s reg) = Some (conns, reg')" and "i \<in> set conns"
  shows "conn_alive s i"
proof -
  have "Some i \<in> snd ` snd ` set (weak_registry s reg)"
    using assms unfolding find_ws_conns_eq
    by (auto simp: List.map_filter_def split: if_splits) force+
  then show ?thesis by (auto simp: weak_registry_def split: option.splits if_splits)
qed

lemma broadcast_sim:
  assumes "tracked (sy_server y)" and "system_broadcast C path msg ty ids y = Some y'"
  shows "(server_step hc)\<^sup>*\<^sup>* (sys_abs y) (sys_abs y')"
proof -
  let ?w = "\<lambda>i z. with_conn i (send_broadcast (fr_make_header (cf_frames C) ty (length msg) @ msg) (conn_of i z)) z"
  obtain conns reg where f: "find_ws_conns path ids (weak_registry (sy_server y) (sy_registry y)) = Some (conns, reg)"
    "y' = (fold ?w conns y)\<lparr>sy_registry := reg\<rparr>"
    using assms(2) by (auto simp: system_broadcast_def)
  have "(server_step hc)\<^sup>*\<^sup>* (sys_abs z) (sys_abs (fold ?w is z))"
    if "set is \<subseteq> ts_conn_pool (sy_server z)" for "is" and z :: http_system
    using that
  proof (induction "is" arbitrary: z)
    case (Cons i "is")
    have "server_step hc (sys_abs z) (sys_abs (?w i z))"
      using Cons.prems step_broadcast [of i "sy_server z"] by (simp add: sys_abs_def send_broadcast_def conn_of_def)
    moreover have "(server_step hc)\<^sup>*\<^sup>* (sys_abs (?w i z)) (sys_abs (fold ?w is (?w i z)))"
      by (rule Cons.IH) (use Cons.prems in \<open>simp add: set_conn_def\<close>)
    ultimately show ?case by (simp add: converse_rtranclp_into_rtranclp)
  qed simp
  moreover have "set conns \<subseteq> ts_conn_pool (sy_server y)"
    using find_ws_conns_alive [OF f(1)] assms(1) by (auto simp: conn_alive_def referenced_def tracked_def)
  ultimately show ?thesis using f(2) by simp
qed

section \<open>What the connections are busy with\<close>

text \<open>
  A task of every connection that has an operation of \<open>handle_connection\<close> in flight, each task in
  good order, and no access outside a buffer reported. The connections in \<open>X\<close> are left out.
\<close>

fun task_ok :: "'ws http_config \<Rightarrow> conn_task \<Rightarrow> bool" where
  "task_ok C (Task_reading r) \<longleftrightarrow> parser_inv (rd_parser r) (rd_request r)"
| "task_ok C Task_responding \<longleftrightarrow> True"
| "task_ok C (Task_websocket w) \<longleftrightarrow> ws_inv (cf_frames C) (1024 * 1024) 1024 w"

definition tasks_inv :: "'ws http_config \<Rightarrow> nat set \<Rightarrow> http_system \<Rightarrow> bool" where
  "tasks_inv C X y \<longleftrightarrow>
     (\<forall>j. j \<notin> X \<longrightarrow> (Handling j \<in> ts_pending (sy_server y) \<longleftrightarrow> sy_tasks y j \<noteq> None)
                  \<and> (\<forall>t. sy_tasks y j = Some t \<longrightarrow> task_ok C t))
     \<and> Memory_fault \<notin> set (sy_errors y)"

text \<open>
  What the development assumes of application code that can throw through the server: the handlers
  set with \<open>set_bad_request_handler\<close> and \<open>set_not_found_handler\<close> make no invalid access themselves.
\<close>

definition handlers_safe :: "'ws http_server \<Rightarrow> bool" where
  "handlers_safe s \<longleftrightarrow>
     (\<forall>req w c. fst (hs_bad_request_handler s req w c) \<noteq> Some Memory_fault
              \<and> fst (hs_not_found_handler s req w c) \<noteq> Some Memory_fault)"

fun outcome_ok :: "'ws reader_outcome \<Rightarrow> bool" where
  "outcome_ok (Completed (Threw e c)) \<longleftrightarrow> e \<noteq> Memory_fault"
| "outcome_ok out \<longleftrightarrow> reader_inv out"

lemma handle_request_ok:
  fixes s :: "'ws http_server"
  assumes "handlers_safe s"
  shows "outcome_ok (Completed (handle_request E rf nf s req c ec))"
proof -
  have called: "outcome_ok (Completed (call_handler (hs_bad_request_handler s req w c1)) :: 'ws reader_outcome)"
    "outcome_ok (Completed (call_handler (hs_not_found_handler s req w c1)) :: 'ws reader_outcome)" for w c1
    using assms by (auto simp: call_handler_def handlers_safe_def split: prod.splits option.splits) (metis fst_conv)+
  have root: "outcome_ok (Completed (call_handler (handle_root_options E req w c1)) :: 'ws reader_outcome)" for w c1
    by (simp add: handle_root_options_def call_handler_def split_beta)
  have unknown: "e \<noteq> Memory_fault" if "choose_handlers (rq_method req) s = Inl e" for e
    using that by (auto simp: choose_handlers_def choose_map_by_method_def invalid_method_def split: if_splits)
  have "outcome_ok (Completed (handle_http_request E s req c))"
    using called(2) root unknown
    by (simp add: handle_http_request_def call_app_handler_def Let_def split: option.split sum.split prod.split)
  with called show ?thesis
    by (auto simp: handle_request_def Let_def split: any_error.splits prod.splits)
qed

lemma consume_bytes_ok:
  assumes "handlers_safe s" and "parser_inv (rd_parser r) (rd_request r)"
  shows "outcome_ok (consume_bytes E rf nf s r c)"
proof -
  have "reader_inv (consume_bytes E rf nf s r c)" by (rule consume_bytes_inv [OF assms(2)])
  then show ?thesis
    using handle_request_ok [OF assms(1)]
    by (auto simp: consume_bytes_def finished_reading_def read_bytes_with_timeout_def Let_def
        split: prod.splits sum.splits tribool.splits)
qed

lemma on_read_ok:
  assumes "handlers_safe s" and "parser_inv (rd_parser r) (rd_request r)"
  shows "outcome_ok (on_read E rf nf s r c res)"
  using handle_request_ok [OF assms(1)] consume_bytes_ok [OF assms(1)] assms(2)
  by (auto simp: on_read_def handle_read_error_eq [OF assms(2)] split: read_result.split)

lemma connection_outcome_ok:
  assumes "handlers_safe (cf_http C)"
  shows "outcome_ok (connection_outcome C c)"
  using consume_bytes_ok [OF assms] parser_inv_new_reader
  by (auto simp: connection_outcome_def handle_connection_def receive_def read_bytes_with_timeout_def Let_def)

lemma server_handler_raises:
  assumes "handlers_safe (cf_http C)" and "server_handler C c = Raises e c'"
  shows "e \<noteq> Memory_fault"
  using connection_outcome_ok [OF assms(1), of c] assms(2)
  by (auto simp: server_handler_def conn_result_of_def split: reader_outcome.splits request_outcome.splits if_splits)

lemma continue_tasks:
  assumes laws: "frame_laws (cf_frames C)" and out: "outcome_ok out"
    and y: "tasks_inv C {i} y" "Handling i \<in> ts_pending (sy_server y)"
  shows "tasks_inv C {} (continue_with C i out y)"
proof -
  have set: "tasks_inv C {} (set_task i t (with_conn i c y))" if "task_ok C t" for t c
    using y that by (auto simp: tasks_inv_def sys_ops)
  have dropped: "tasks_inv C {} (log_error e (drop_connection i (with_conn i c y)))" if "e \<noteq> Memory_fault" for e c
    using y that by (auto simp: tasks_inv_def sys_ops end_op_def)
  have upgrade: "tasks_inv C {} (continue_with C i (Completed (Upgraded path ident hs req c)) y)" for path ident hs req c
  proof -
    let ?reg = "weak_registry (sy_server y) (sy_registry y)"
    obtain ws c1 reg where st: "start_websocket (cf_utils C) (cf_frames C) path ident req c i ?reg = ((Ws_sending Next_open ws, c1), reg)"
      "ws_reach (cf_utils C) (cf_frames C) (1024 * 1024) 1024 (Ws_sending Next_open ws, c1)"
      by (rule start_websocket_result [of "cf_utils C" "cf_frames C" path ident req c i ?reg]) blast
    from frame_laws.ws_reach_inv [OF laws st(2)] have "task_ok C (Task_websocket (Ws_sending Next_open ws))" by simp
    from set [OF this, of c1] st(1) show ?thesis by (simp add: continue_with_def tasks_inv_def)
  qed
  show ?thesis
    using out set dropped upgrade
    by (cases out rule: outcome_ok.cases) (auto simp: continue_with_def)
qed

text \<open>
  The operations of the \<open>tcp_server\<close> that may call \<open>handle_connection\<close> for connection \<open>i\<close> do not
  touch the operations of the others, and an exception that leaves them is one of the handler.
\<close>

definition only_handles :: "connection_handler \<Rightarrow> nat \<Rightarrow> tcp_server \<Rightarrow> ts_outcome \<Rightarrow> bool" where
  "only_handles hc i s r \<longleftrightarrow>
     (\<forall>s'. returned r = Some s' \<longrightarrow> (\<forall>j. j \<noteq> i \<longrightarrow> (Handling j \<in> ts_pending s' \<longleftrightarrow> Handling j \<in> ts_pending s)))
     \<and> (\<forall>e s'. r = Ts_raised e s' \<longrightarrow> Handling i \<notin> ts_pending s' \<and> (\<exists>c c'. hc c = Raises e c'))"

lemma finish_only_handles:
  assumes "tracked s" "Handling i \<notin> ts_pending s"
  shows "only_handles hc i s (finish_connection hc i s)"
proof -
  have "\<not> ts_locked s" using assms(1) by (simp add: tracked_def)
  with assms(2) show ?thesis
    by (auto simp: only_handles_def finish_connection_eq server_ops returned_iff split: if_splits conn_result.splits)
qed

lemma run_only_handles:
  assumes "tracked s" "Handling i \<notin> ts_pending s"
  shows "only_handles hc i s (run_handle_connection hc i s)"
proof (cases "hc (ts_conns s i)")
  case (Finishes c)
  with finish_only_handles [of "set_conn i c s" i hc] assms show ?thesis
    by (simp add: run_handle_connection_def only_handles_def)
qed (use assms in \<open>auto simp: run_handle_connection_def only_handles_def server_ops\<close>)

lemma only_handles_ended:
  assumes "only_handles hc i (end_op p s) r" and "\<And>j. j \<noteq> i \<Longrightarrow> p \<noteq> Handling j"
  shows "only_handles hc i s r"
  using assms by (auto simp: only_handles_def end_op_def)

lemma not_handling:
  assumes "tracked s" "p \<in> ts_pending s" "op_conn p = i"
  shows "Handling i \<notin> ts_pending (end_op p s)"
  using ended_unreferenced(3) [OF assms] by force

lemma accept_only_handles:
  assumes "tracked s" "Accepting i \<in> ts_pending s"
  shows "only_handles hc i s (handle_accept hc i err ip s)"
proof -
  obtain s0 f where ha: "handle_accept hc i err ip s = bind_outcome (accept_rest hc i err) (if ts_listening s0 then listen s0 else Ts_ok s0)" and s0: "s0 = s\<lparr>ts_conns := f\<rparr>"
    using handle_accept_form [of hc i err ip s] by blast
  obtain s1 where s1: "(if ts_listening s0 then listen s0 else Ts_ok s0) = Ts_ok s1" "tracked s1"
    "Accepting i \<in> ts_pending s1" "\<And>j. Handling j \<in> ts_pending s1 \<longleftrightarrow> Handling j \<in> ts_pending s"
    using listen_eq [of s0] assms by (cases "ts_listening s0") (auto simp: s0)
  note fresh = ended_unreferenced(1) [OF s1(2,3) op_conn.simps(1)] not_handling [OF s1(2,3) op_conn.simps(1)]
  let ?s2 = "end_op (Accepting i) s1"
  have shake: "only_handles hc i ?s2 (Ts_ok (begin_op (Handshaking i) (set_conn i c ?s2)))" for c
    by (simp add: only_handles_def server_ops)
  have "handle_accept hc i err ip s \<in> {finish_connection hc i ?s2, run_handle_connection hc i ?s2,
      Ts_ok (begin_op (Handshaking i) (set_conn i (async_handshake_server (ts_conns ?s2 i)) ?s2))}"
    by (simp add: ha s1(1) bind_outcome_def Let_def)
  then have "only_handles hc i ?s2 (handle_accept hc i err ip s)"
    using finish_only_handles [OF fresh, of hc] run_only_handles [OF fresh, of hc] shake by auto
  then have "only_handles hc i s1 (handle_accept hc i err ip s)" by (rule only_handles_ended) simp
  then show ?thesis using s1(4) by (simp add: only_handles_def)
qed

lemma handshake_only_handles:
  assumes "tracked s" "Handshaking i \<in> ts_pending s"
  shows "only_handles hc i s (handle_ssl_handshake hc i err s)"
proof (rule only_handles_ended [of _ _ "Handshaking i"])
  note fresh = ended_unreferenced(1) [OF assms op_conn.simps(2)] not_handling [OF assms op_conn.simps(2)]
  then show "only_handles hc i (end_op (Handshaking i) s) (handle_ssl_handshake hc i err s)"
    by (simp add: handle_ssl_handshake_def Let_def finish_only_handles run_only_handles)
qed simp

lemma outcome_tasks:
  assumes laws: "frame_laws (cf_frames C)" and safe: "handlers_safe (cf_http C)"
    and only: "only_handles (server_handler C) i (sy_server y) r" and y: "tasks_inv C {i} y"
    and r: "server_outcome C i c r y = Some y'"
  shows "tasks_inv C {} y'"
proof (cases r)
  case (Ts_ok s')
  have others: "tasks_inv C {i} (with_server s' y)" using y only Ts_ok by (auto simp: tasks_inv_def only_handles_def sys_ops)
  show ?thesis
  proof (cases "Handling i \<in> ts_pending s'")
    case True
    then show ?thesis
      using continue_tasks [OF laws connection_outcome_ok [OF safe] others] r Ts_ok
      by (auto simp: server_outcome_def after_operation_def)
  next
    case False
    then show ?thesis
      using others r Ts_ok by (auto simp: server_outcome_def after_operation_def tasks_inv_def sys_ops split: if_splits)
  qed
next
  case (Ts_raised e s')
  then have "e \<noteq> Memory_fault" using only server_handler_raises [OF safe] by (auto simp: only_handles_def)
  then show ?thesis using y only r Ts_raised by (auto simp: server_outcome_def tasks_inv_def only_handles_def sys_ops split: if_splits)
qed (use r in \<open>simp add: server_outcome_def\<close>)

section \<open>The invariant of the system\<close>

definition sys_inv :: "'ws http_config \<Rightarrow> http_system \<Rightarrow> bool" where
  "sys_inv C y \<longleftrightarrow> server_inv (sys_abs y) \<and> tasks_inv C {} y"

lemma sys_inv_D:
  assumes "sys_inv C y"
  shows "tracked (sy_server y)" and "sy_tasks y i = Some t \<Longrightarrow> Handling i \<in> ts_pending (sy_server y) \<and> task_ok C t"
    and "tasks_inv C {i} y"
  using assms by (auto simp: sys_inv_def sys_abs_def tasks_inv_def)

lemma sys_step_sim:
  assumes "sys_step C y y'" and "sys_inv C y"
  shows "(server_step (server_handler C))\<^sup>*\<^sup>* (sys_abs y) (sys_abs y')"
  using assms
proof (induction rule: sys_step.induct)
  case (sys_start y e s' x)
  then show ?case by (auto simp: sys_abs_def with_server_def intro: step_start)
next
  case (sys_stop y w)
  then show ?case by (auto simp: sys_abs_def with_server_def intro: step_stop)
next
  case (sys_wait y s')
  then show ?case by (auto simp: sys_abs_def with_server_def intro: step_wait)
next
  case (sys_stopped y s')
  then show ?case by (auto simp: sys_abs_def with_server_def intro: step_stopped)
next
  case (sys_accept i y err ip y')
  then show ?case
    by (intro server_outcome_sim [OF _ sys_accept(2) [unfolded accept_completed_def]])
       (auto simp: sys_abs_def returned_iff intro: step_accept)
next
  case (sys_handshake i y err y')
  then show ?case
    by (intro server_outcome_sim [OF _ sys_handshake(2) [unfolded handshake_completed_def]])
       (auto simp: sys_abs_def returned_iff intro: step_handshake)
next
  case (sys_read y i r res y')
  then show ?case using read_sim sys_inv_D(2) by blast
next
  case (sys_broadcast path msg ty ids y y')
  then show ?case using broadcast_sim sys_inv_D(1) by blast
next
  case (sys_responded y i y')
  then show ?case using finish_sim sys_inv_D(2) by blast
next
  case (sys_ws_destroyed y i ev w y')
  then show ?case using finish_after_conn_sim sys_inv_D(2) by blast
qed (auto simp: sys_abs_def sys_ops dest!: sys_inv_D(2) intro: step_progress step_lost)

lemma tasks_inv_other:
  assumes "tasks_inv C X y" and "\<And>j. Handling j \<in> ts_pending s' \<longleftrightarrow> Handling j \<in> ts_pending (sy_server y)"
  shows "tasks_inv C X (y\<lparr>sy_server := s', sy_stopping := b\<rparr>)" "tasks_inv C X (y\<lparr>sy_server := s', sy_registry := reg\<rparr>)"
    "tasks_inv C X (y\<lparr>sy_server := s'\<rparr>)"
  using assms by (simp_all add: tasks_inv_def)

lemma start_handling:
  assumes "tracked s" "returned (start e s) = Some s'"
  shows "Handling j \<in> ts_pending s' \<longleftrightarrow> Handling j \<in> ts_pending s"
proof -
  have "tracked (s\<lparr>ts_acceptor_open := True, ts_listening := True\<rparr>)" using assms(1) by (simp add: tracked_def)
  from listen_eq [OF this] assms(2) show ?thesis
    by (auto simp: start_def Let_def bind_outcome_def split: if_splits option.splits)
qed

lemma tasks_inv_with_conn [simp]: "tasks_inv C X (with_conn i c y) = tasks_inv C X y"
  by (simp add: tasks_inv_def sys_ops)

lemma finish_tasks:
  assumes laws: "frame_laws (cf_frames C)" and safe: "handlers_safe (cf_http C)" and inv: "sys_inv C y"
    and i: "Handling i \<in> ts_pending (sy_server y)" and step: "finish_task C i y = Some y'"
  shows "tasks_inv C {} y'"
proof (rule outcome_tasks [OF laws safe _ sys_inv_D(3) [OF inv] step [unfolded finish_task_def]])
  note t = ended_unreferenced(1) [OF sys_inv_D(1) [OF inv] i op_conn.simps(3)]
  show "only_handles (server_handler C) i (sy_server y)
     (finish_connection (server_handler C) i (end_op (Handling i) (sy_server y)))"
    by (rule only_handles_ended [OF finish_only_handles [OF t]]) (simp_all add: end_op_def)
qed

lemma finish_tasks_conn:
  assumes "frame_laws (cf_frames C)" and "handlers_safe (cf_http C)" and inv: "sys_inv C y"
    and i: "Handling i \<in> ts_pending (sy_server y)" and "finish_task C i (with_conn i c y) = Some y'"
  shows "tasks_inv C {} y'"
proof (rule finish_tasks [OF assms(1,2) _ _ assms(5)])
  have "server_step (server_handler C) (sys_abs y) (sys_abs (with_conn i c y))"
    using step_progress [OF i] by (simp add: sys_abs_def)
  then have "server_inv (sys_abs (with_conn i c y))"
    by (rule server_step_inv) (use inv in \<open>simp add: sys_inv_def\<close>)
  then show "sys_inv C (with_conn i c y)"
    using inv tasks_inv_with_conn by (simp add: sys_inv_def del: sys_abs_simps)
qed (simp add: i)

lemma broadcast_tasks:
  assumes "system_broadcast C path msg ty ids y = Some y'" and "tasks_inv C X y"
  shows "tasks_inv C X y'"
proof -
  have "tasks_inv C X (fold (\<lambda>i z. with_conn i (f i z) z) is z)" if "tasks_inv C X z" for "is" f and z :: http_system
    using that by (induction "is" arbitrary: z) simp_all
  with assms show ?thesis by (auto simp: system_broadcast_def tasks_inv_def)
qed

lemma read_tasks:
  assumes laws: "frame_laws (cf_frames C)" and safe: "handlers_safe (cf_http C)" and inv: "sys_inv C y"
    and task: "sy_tasks y i = Some (Task_reading r)" and step: "read_completed C i r res y = Some y'"
  shows "tasks_inv C {} y'"
proof -
  let ?out = "on_read (cf_utils C) (cf_receive_fun C) (cf_noop_fun C) (cf_http C) r (conn_of i y) res"
  have i: "Handling i \<in> ts_pending (sy_server y)" "parser_inv (rd_parser r) (rd_request r)"
    using sys_inv_D(2) [OF inv task] by simp_all
  note ok = on_read_ok [OF safe i(2), of "cf_utils C" "cf_receive_fun C" "cf_noop_fun C" "conn_of i y" res]
  show ?thesis
  proof (cases "conn_result_of (conn_of i y) ?out")
    case (Finishes c)
    then have fin: "finish_task C i (with_conn i c y) = Some y'" using step by (simp add: read_completed_def)
    then show ?thesis using finish_tasks_conn [OF laws safe inv i(1) fin] by simp
  qed (use step continue_tasks [OF laws ok sys_inv_D(3) [OF inv] i(1)] in \<open>auto simp: read_completed_def\<close>)
qed

lemma sys_step_tasks:
  assumes laws: "frame_laws (cf_frames C)" and safe: "handlers_safe (cf_http C)"
    and step: "sys_step C y y'" and inv: "sys_inv C y"
  shows "tasks_inv C {} y'"
  using step inv
proof (induction rule: sys_step.induct)
  case (sys_start y e s' x)
  then show ?case
    using start_handling [of "sy_server y" e s'] sys_inv_D(1) [of C y]
    by (auto simp: with_server_def returned_iff sys_inv_def intro!: tasks_inv_other(3))
next
  case (sys_stop y w)
  then show ?case by (auto simp: with_server_def stop_begin_def Let_def sys_inv_def intro!: tasks_inv_other(1))
next
  case (sys_wait y s')
  then have "ts_pending s' = ts_pending (sy_server y)"
    by (auto simp: stop_round_def prune_connections_def Let_def split: if_splits)
  with sys_wait show ?case by (auto simp: with_server_def sys_inv_def intro!: tasks_inv_other(3))
next
  case (sys_stopped y s')
  then have "ts_pending s' = ts_pending (sy_server y)"
    by (auto simp: stop_round_def prune_connections_def Let_def split: if_splits)
  with sys_stopped show ?case by (auto simp: with_server_def sys_inv_def intro!: tasks_inv_other(1))
next
  case (sys_accept i y err ip y')
  then show ?case
    using outcome_tasks [OF laws safe accept_only_handles [OF sys_inv_D(1)] sys_inv_D(3)]
    by (auto simp: accept_completed_def)
next
  case (sys_handshake i y err y')
  then show ?case
    using outcome_tasks [OF laws safe handshake_only_handles [OF sys_inv_D(1)] sys_inv_D(3)]
    by (auto simp: handshake_completed_def)
next
  case (sys_read y i r res y')
  then show ?case using read_tasks [OF laws safe] by blast
next
  case (sys_responded y i y')
  then show ?case using finish_tasks [OF laws safe] sys_inv_D(2) by blast
next
  case (sys_ws_destroyed y i ev w y')
  then show ?case using finish_tasks_conn [OF laws safe] sys_inv_D(2) by blast
next
  case (sys_websocket y i w w' c')
  then have "task_ok C (Task_websocket w')"
    using frame_laws.ws_step_inv [OF laws sys_websocket(2)] sys_inv_D(2) by fastforce
  with sys_websocket show ?case by (auto simp: tasks_inv_def sys_ops sys_inv_def)
next
  case (sys_broadcast path msg ty ids y y')
  then show ?case using broadcast_tasks by (auto simp: sys_inv_def)
qed (auto simp: tasks_inv_def sys_ops sys_inv_def end_op_def)

lemma sys_step_inv:
  assumes "frame_laws (cf_frames C)" "handlers_safe (cf_http C)" "sys_step C y y'" "sys_inv C y"
  shows "sys_inv C y'"
proof -
  have "server_inv (sys_abs y)" using assms(4) by (simp add: sys_inv_def)
  with sys_step_sim [OF assms(3,4)] have "server_inv (sys_abs y')" by (rule server_refinement.inv_run)
  with sys_step_tasks [OF assms] show ?thesis by (simp add: sys_inv_def)
qed

text \<open>
  The interface of a running system to its theorems: a configuration whose frame library obeys the
  laws and whose default handlers are safe.
\<close>

locale running_system =
  fixes C :: "'ws http_config"
  assumes laws: "frame_laws (cf_frames C)" and safe: "handlers_safe (cf_http C)"

sublocale running_system \<subseteq> system: refinement "sys_step C" "(server_step (server_handler C))\<^sup>*\<^sup>*" sys_abs "sys_inv C"
  by unfold_locales (use sys_step_inv [OF laws safe] sys_step_sim in blast)+

context running_system
begin

lemma initial_inv: "sys_inv C (new_http_system n ssl)"
proof -
  have "server_inv (new_tcp_server n ssl, False)" by (rule server_reach_inv [OF reach_init])
  then show ?thesis
    by (simp add: sys_inv_def sys_abs_def new_http_system_def tasks_inv_def) (simp add: new_tcp_server_def)
qed

lemma sys_reach_run: "sys_reach C y \<Longrightarrow> \<exists>n ssl. (sys_step C)\<^sup>*\<^sup>* (new_http_system n ssl) y"
  by (induction rule: sys_reach.induct) (auto intro: rtranclp.rtrancl_into_rtrancl)

lemma sys_reach_inv: "sys_reach C y \<Longrightarrow> sys_inv C y"
  using sys_reach_run system.inv_run initial_inv by blast

lemma sys_reach_server:
  assumes "sys_reach C y"
  shows "server_reach (server_handler C) (sys_abs y)"
proof -
  obtain n ssl where run: "(sys_step C)\<^sup>*\<^sup>* (new_http_system n ssl) y" using sys_reach_run [OF assms] by blast
  have "((server_step (server_handler C))\<^sup>*\<^sup>*)\<^sup>*\<^sup>* (sys_abs (new_http_system n ssl)) (sys_abs y)"
    by (rule system.simulated_run [OF run initial_inv])
  then show ?thesis by (auto simp: server_reach_iff sys_abs_def new_http_system_def)
qed

end

section \<open>Closing WebSockets\<close>

text \<open>A WebSocket of which asio has read a close status that was gone was closing before.\<close>

lemma continue_stale:
  assumes "sy_tasks (continue_with C j out y) i = Some (Task_websocket (Ws_stale w))"
  shows "sy_tasks y i = Some (Task_websocket (Ws_stale w))"
proof -
  have "fst (fst (start_websocket E L path ident req c wc reg)) \<noteq> Ws_stale w" for E L path ident req c reg and wc :: nat
    by (rule start_websocket_result [of E L path ident req c wc reg]) simp
  then show ?thesis
    using assms by (auto simp: continue_with_def sys_ops split: reader_outcome.splits request_outcome.splits prod.splits if_splits)
      (metis fst_conv)
qed

lemma server_outcome_stale:
  assumes "server_outcome C j c r y = Some y'" and "sy_tasks y' i = Some (Task_websocket (Ws_stale w))"
  shows "sy_tasks y i = Some (Task_websocket (Ws_stale w))"
proof (cases r)
  case (Ts_ok s')
  then have y': "y' = after_operation C j c s' y" using assms(1) by (simp add: server_outcome_def)
  show ?thesis
  proof (cases "Handling j \<in> ts_pending s'")
    case True
    then show ?thesis using assms(2) continue_stale [of C j _ "with_server s' y" i w] y' by (simp add: after_operation_def with_server_def)
  qed (use assms(2) y' in \<open>simp add: after_operation_def sys_ops split: if_splits\<close>)
qed (use assms in \<open>auto simp: server_outcome_def sys_ops split: if_splits\<close>)

lemma broadcast_keeps_tasks: "system_broadcast C path msg ty ids y = Some y' \<Longrightarrow> sy_tasks y' = sy_tasks y"
proof -
  have "sy_tasks (fold (\<lambda>i z. with_conn i (f i z) z) is z) = sy_tasks z" for f "is" and z :: http_system
    by (induction "is" arbitrary: z) (simp_all add: with_conn_def)
  then show "system_broadcast C path msg ty ids y = Some y' \<Longrightarrow> sy_tasks y' = sy_tasks y"
    by (auto simp: system_broadcast_def)
qed

lemma read_completed_stale:
  assumes "read_completed C j r res y = Some y'" and "sy_tasks y' i = Some (Task_websocket (Ws_stale w))"
  shows "sy_tasks y i = Some (Task_websocket (Ws_stale w))"
  using assms continue_stale
  by (auto simp: read_completed_def finish_task_def Let_def with_conn_def split: conn_result.splits dest!: server_outcome_stale)

lemma sys_step_stale:
  assumes "sys_step C y y'" and "sy_tasks y' i = Some (Task_websocket (Ws_stale w))"
  shows "sy_tasks y i = Some (Task_websocket (Ws_stale w)) \<or> (\<exists>st. sy_tasks y i = Some (Task_websocket (Ws_closing st w)))"
  using assms
proof (induction rule: sys_step.induct)
  case (sys_websocket y j v v' c')
  then show ?case using ws_step_stale [OF sys_websocket(2)] by (auto simp: sys_ops split: if_splits)
next
  case (sys_read y j r res y')
  then show ?case using read_completed_stale by blast
next
  case (sys_broadcast path msg ty ids y y')
  then show ?case by (simp add: broadcast_keeps_tasks)
qed (auto simp: sys_ops accept_completed_def handshake_completed_def finish_task_def split: if_splits dest!: server_outcome_stale)

lemma sys_reach_stale:
  assumes "sys_reach C y" and "sy_tasks y i = Some (Task_websocket (Ws_stale w))"
  shows "\<exists>y0 st. sys_reach C y0 \<and> sy_tasks y0 i = Some (Task_websocket (Ws_closing st w))"
  using assms
proof (induction rule: sys_reach.induct)
  case (sys_init n ssl)
  then show ?case by (simp add: new_http_system_def)
next
  case (sys_next y y')
  then show ?case using sys_step_stale [OF sys_next.hyps(2)] by blast
qed

section \<open>A new connection\<close>

lemma listen_conn:
  assumes "tracked s" "p \<in> ts_pending s" "listen s = Ts_ok s'"
  shows "ts_conns s' (op_conn p) = ts_conns s (op_conn p)"
proof -
  have "op_conn p \<noteq> ts_next s" "referenced s (op_conn p)"
    using assms(1,2) by (force simp: tracked_def referenced_def)+
  with assms(3) show ?thesis
    by (auto simp: listen_def prune_connections_def referenced_def server_ops Let_def split: if_splits)
qed

text \<open>A connection that is not pipelined gets a new reader, which waits for bytes.\<close>

definition new_reader_of :: "'ws http_config \<Rightarrow> tcp_connection \<Rightarrow> http_request_reader" where
  "new_reader_of C c =
     new_http_request_reader (cf_garbage1 C) (cf_garbage2 C) (cf_garbage3 C) (hs_read_timeout (cf_http C)) c"

lemma connection_outcome_reads:
  assumes "\<not> is_pipelined c"
  shows "\<exists>c'. connection_outcome C c = Reading (new_reader_of C c) c' \<and> server_handler C c = In_progress c'
    \<and> is_open c' = is_open c \<and> sent_bytes c' = sent_bytes c"
  using assms
  by (simp add: server_handler_def connection_outcome_def handle_connection_def receive_def read_bytes_with_timeout_def
      conn_result_of_def new_reader_of_def sent_bytes_def conn_defs)

lemma accept_reads:
  assumes t: "tracked (sy_server y)" "Accepting i \<in> ts_pending (sy_server y)" and l: "ts_listening (sy_server y)"
    and c: "\<not> is_pipelined (conn_of i y)" "\<not> tc_ssl_flag (conn_of i y)"
  shows "\<exists>y' c0. accept_completed C i False ip y = Some y' \<and> sy_tasks y' i = Some (Task_reading (new_reader_of C c0))
    \<and> is_open (conn_of i y') \<and> ts_listening (sy_server y')"
proof -
  let ?s = "sy_server y"
  let ?c = "(conn_of i y)\<lparr>tc_open := True, tc_remote_ip := ip\<rparr>"
  let ?opened = "set_conn i ?c ?s"
  have opened: "tracked ?opened" "ts_listening ?opened" "Accepting i \<in> ts_pending ?opened" using t l by (simp_all add: set_conn_def)
  obtain s1 where s1: "listen ?opened = Ts_ok s1" "ts_listening s1" using listen_eq [OF opened(1,2)] by blast
  have conn: "ts_conns s1 i = ?c" using listen_conn [OF opened(1,3) s1(1)] by (simp add: set_conn_def)
  obtain c' where out: "connection_outcome C ?c = Reading (new_reader_of C ?c) c'" "server_handler C ?c = In_progress c'" "is_open c'"
    using connection_outcome_reads [of ?c C] c(1) by (auto simp: is_pipelined_def is_open_def)
  have "handle_accept (server_handler C) i False ip ?s
      = Ts_ok (begin_op (Handling i) (set_conn i c' (end_op (Accepting i) s1)))"
    using l s1(1) conn c(2) out(2)
    by (simp add: handle_accept_def bind_outcome_def run_handle_connection_def Let_def end_op_def conn_of_def [symmetric] set_conn_def)
  then show ?thesis
    using out s1(2) by (auto simp: accept_completed_def restarted_from_def server_outcome_def after_operation_def
        continue_with_def set_task_def conn_of_def sys_ops server_ops)
qed

text \<open>So a started server is reached in which a new reader waits on a connection.\<close>

context running_system
begin

lemma accepted_connection:
  "\<exists>y c0. sys_reach C y \<and> ts_listening (sy_server y) \<and> sy_tasks y 0 = Some (Task_reading (new_reader_of C c0))
     \<and> is_open (conn_of 0 y)"
proof -
  let ?fresh = "new_http_system 2 False"
  obtain s where s: "start None (new_tcp_server 2 False) = Ts_ok s" "ts_listening s" "ts_pending s = {Accepting 0}"
    by (metis started_server)
  let ?y = "with_server s ?fresh"
  have "sys_step C ?fresh ?y" by (rule sys_start [of _ None]) (simp_all add: new_http_system_def s)
  then have y: "sys_reach C ?y" by (rule sys_next [OF sys_init])
  have t: "tracked s" using sys_inv_D(1) [OF sys_reach_inv [OF y]] by simp
  have c: "\<not> is_pipelined (ts_conns s 0)" "\<not> tc_ssl_flag (ts_conns s 0)"
    using s(1)
    by (auto simp: start_def new_tcp_server_def listen_def prune_connections_def server_ops Let_def bind_outcome_def
        conn_defs new_tcp_connection_def)
  obtain y' c0 where y': "accept_completed C 0 False (Address_v4 5) ?y = Some y'"
    "sy_tasks y' 0 = Some (Task_reading (new_reader_of C c0))" "is_open (conn_of 0 y')" "ts_listening (sy_server y')"
    using accept_reads [of ?y 0 C "Address_v4 5"] t s c by (auto simp: conn_of_def)
  then have "sys_reach C y'" using s(3) by (intro sys_next [OF y] sys_accept) simp_all
  with y' show ?thesis by blast
qed

end

section \<open>Properties\<close>

text \<open>
  C2: the running server accesses no memory outside its buffers, with one exception: the close status of
  a WebSocket, which asio may read after it is gone. From its construction on, whatever clients send on
  whatever connections, in whatever pieces and order, whichever reads, handshakes and accepts fail,
  whatever handlers the application has registered, whenever it is started and stopped, and whatever
  is broadcast: no exception that reaches a thread of the scheduler is an access outside a buffer;
  no WebSocket has made one; a WebSocket of which asio has read memory that was gone (\<open>Ws_stale\<close>) was writing
  a close status, the case in which this can happen (see C15; that the completion handlers hold the memory of all other writes is part of
  the model); every reader keeps the parser's invariant; every WebSocket keeps its
  limits; and a connection has an owner (a reader, the application or a WebSocket) exactly when an
  operation of its handler is in flight.
\<close>

theorem system_safe:
  assumes "frame_laws (cf_frames C)" and "handlers_safe (cf_http C)" and "sys_reach C y"
  shows "Memory_fault \<notin> set (sy_errors y)
    \<and> (\<forall>i. Handling i \<in> ts_pending (sy_server y) \<longleftrightarrow> sy_tasks y i \<noteq> None)
    \<and> (\<forall>i r. sy_tasks y i = Some (Task_reading r) \<longrightarrow> parser_inv (rd_parser r) (rd_request r))
    \<and> (\<forall>i w. sy_tasks y i = Some (Task_websocket w) \<longrightarrow> ws_inv (cf_frames C) (1024 * 1024) 1024 w)
    \<and> (\<forall>i w. sy_tasks y i = Some (Task_websocket (Ws_stale w))
         \<longrightarrow> (\<exists>y0 st. sys_reach C y0 \<and> sy_tasks y0 i = Some (Task_websocket (Ws_closing st w))))"
proof -
  have "running_system C" using assms(1,2) by (rule running_system.intro)
  from running_system.sys_reach_inv [OF this assms(3)] have "tasks_inv C {} y" by (simp add: sys_inv_def)
  with sys_reach_stale [OF assms(3)] show ?thesis unfolding tasks_inv_def by fastforce
qed

text \<open>The system of the WebSocket example, with the reference instances of the two libraries.\<close>

definition chat_config :: "unit http_config" where
  "chat_config = \<lparr>cf_utils = utils_ref, cf_frames = ws_ref, cf_receive_fun = (), cf_noop_fun = (), cf_garbage1 = 7,
     cf_garbage2 = 9, cf_garbage3 = True, cf_http = chat_server\<rparr>"

lemma default_handlers_safe: "handlers_safe (new_http_server E t)"
  by (simp add: handlers_safe_def new_http_server_def handle_bad_request_def handle_not_found_request_def Let_def)

interpretation chat: running_system chat_config
  by unfold_locales
     (use default_handlers_safe [of utils_ref 1000] rfc.frame_laws_axioms in
        \<open>simp_all add: chat_config_def chat_server_def handlers_safe_def frame_laws_def\<close>)

theorem system_safe_witness:
  "\<exists>y r. sys_reach chat_config y \<and> sy_tasks y 0 = Some (Task_reading r) \<and> parser_inv (rd_parser r) (rd_request r)
     \<and> Handling 0 \<in> ts_pending (sy_server y) \<and> Memory_fault \<notin> set (sy_errors y)"
proof -
  obtain y r where y: "sys_reach chat_config y" "sy_tasks y 0 = Some (Task_reading r)" using chat.accepted_connection by blast
  from system_safe [OF chat.laws chat.safe y(1)] y show ?thesis by auto
qed

text \<open>
  C8: the running HTTP server implements the \<open>tcp_server\<close> with its \<open>handle_connection\<close>, and so the
  abstract server. In every state it reaches, the \<open>tcp_server\<close> inside is in a state that its own
  transition system reaches with this handler, and in a state of the abstract server (stopped,
  running or stopping, with the set of busy connections). In particular, once \<open>stop\<close> has returned
  there is no reader, no response and no WebSocket left, and no connection in the pool.
\<close>

theorem system_refines_server:
  assumes "frame_laws (cf_frames C)" and "handlers_safe (cf_http C)" and "sys_reach C y"
  shows "server_reach (server_handler C) (sy_server y, sy_stopping y)
    \<and> pool_step\<^sup>*\<^sup>* (Stopped, {}) (server_abs (sy_server y, sy_stopping y))
    \<and> (\<not> ts_listening (sy_server y) \<and> \<not> sy_stopping y \<longrightarrow> sy_tasks y = Map.empty \<and> ts_conn_pool (sy_server y) = {})"
proof -
  have C: "running_system C" using assms(1,2) by (rule running_system.intro)
  have r: "server_reach (server_handler C) (sy_server y, sy_stopping y)"
    using running_system.sys_reach_server [OF C assms(3)] by (simp add: sys_abs_def)
  have inv: "server_inv (sy_server y, sy_stopping y)" "tasks_inv C {} y"
    using running_system.sys_reach_inv [OF C assms(3)] by (simp_all add: sys_inv_def sys_abs_def)
  have "sy_tasks y = Map.empty" if "ts_conn_pool (sy_server y) = {}"
    using inv that by (fastforce simp: tasks_inv_def tracked_def)
  with r server_reach_pool [OF r] inv(1) show ?thesis by auto
qed

theorem system_refines_server_witness:
  "\<exists>y. sys_reach chat_config y \<and> sy_tasks y 0 \<noteq> None \<and> server_reach (server_handler chat_config) (sy_server y, sy_stopping y)"
proof -
  obtain y r where y: "sys_reach chat_config y" "sy_tasks y 0 = Some (Task_reading r)" using chat.accepted_connection by blast
  from system_refines_server [OF chat.laws chat.safe y(1)] y show ?thesis by auto
qed

end
