(* ===== verification/Request_Pipeline.thy ===== *)
theory Request_Pipeline
  imports Http_System
begin

text \<open>
  Requests that arrive together on one connection of the running server: each is answered in its
  turn, the next one is taken from the buffer when the answer to the one before has been written.
\<close>

section \<open>An application that answers at once\<close>

text \<open>An application handler that answers with one block of content.\<close>

definition reply_handler :: "sl_utils \<Rightarrow> byte_string \<Rightarrow> request_handler_type" where
  "reply_handler E reply req w c = (None, fst (writer_send E c (writer_write reply w)))"

lemma reply_bytes:
  assumes "is_open c" and "reply \<noteq> []"
  shows "sent_bytes (snd (reply_handler E reply m (new_response_writer m) c)) = sent_bytes c
    @ (if rq_method m = REQUEST_METHOD_HEAD
       then response_head E (get_keep_alive c) False (new_http_response m)
       else response_head E (get_keep_alive c) False ((new_http_response m)\<lparr>m_content_length := length reply\<rparr>) @ reply)"
proof -
  let ?w = "writer_write reply (new_response_writer m)"
  have new: "w_response (new_response_writer m) = new_http_response m" "w_content_length (new_response_writer m) = 0"
    "\<not> w_sending_chunks (new_response_writer m)" "\<not> w_sent_headers (new_response_writer m)"
    "w_content_buffers (new_response_writer m) = []"
    by (simp_all add: new_response_writer_def supports_chunked_messages_def Let_def)
  have body: "is_body_allowed (new_http_response m) \<longleftrightarrow> rq_method m \<noteq> REQUEST_METHOD_HEAD"
    by (auto simp: is_body_allowed_def new_http_response_def update_request_info_def Let_def
        set_version_minor_def set_version_major_def set_status_message_def set_status_code_def clear_first_line_def)
  have w: "head_response ?w = (if rq_method m = REQUEST_METHOD_HEAD then new_http_response m
      else (new_http_response m)\<lparr>m_content_length := length reply\<rparr>)"
    "content_text ?w = (if rq_method m = REQUEST_METHOD_HEAD then [] else reply)"
    "\<not> w_sending_chunks ?w" "\<not> w_sent_headers ?w"
    using new body assms(2) by (simp_all add: writer_write_def add_to_cache_def head_response_def content_text_def)
  show ?thesis
    using prepare_write_buffers_bytes [of E "get_keep_alive c" False ?w] w assms(1)
    by (simp add: reply_handler_def writer_send_def send_more_data_def split_beta)
qed

text \<open>The answer is one write; the fate of the connection is left as the reader decided it.\<close>

lemma reply_conn:
  assumes "is_open c"
  obtains bs where "snd (reply_handler E reply m w c) = async_write bs c"
  by (rule that [of "fst (prepare_write_buffers E (get_keep_alive c) False (writer_write reply w))"])
     (use assms in \<open>simp add: reply_handler_def writer_send_def send_more_data_def split_beta\<close>)

section \<open>Requests on the wire\<close>

record wire_request =
  wq_method :: byte_string
  wq_resource :: byte_string
  wq_query :: byte_string
  wq_version :: "16 word"
  wq_subversion :: "16 word"
  wq_headers :: dict

definition wire_text :: "wire_request \<Rightarrow> byte_string" where
  "wire_text q =
     request_text (wq_method q) (wq_resource q) (wq_query q) (wq_version q) (wq_subversion q) (wq_headers q)"

text \<open>A request that asks to keep the connection, of HTTP/1.1 or later.\<close>

definition persistent :: "sl_utils \<Rightarrow> wire_request \<Rightarrow> bool" where
  "persistent E q \<longleftrightarrow>
     get_value E (wq_headers q) HEADER_CONNECTION \<noteq> ''close''
     \<and> (wq_version q > 1 \<or> (wq_version q \<ge> 1 \<and> wq_subversion q \<ge> 1))"

text \<open>
  A well-formed persistent request that is routed to a handler answering with \<open>reply\<close>, on a path
  without payload handler.
\<close>

definition answered_by :: "sl_utils \<Rightarrow> 'ws http_server \<Rightarrow> wire_request \<times> byte_string \<Rightarrow> bool" where
  "answered_by E s qr \<longleftrightarrow>
     (case qr of (q, reply) \<Rightarrow>
        line_ok (wq_method q) (wq_resource q) (wq_query q) \<and> list_all header_ok (wq_headers q) \<and> wq_version q \<noteq> 0
        \<and> content_length_ok E (wq_headers q) \<and> \<not> form_type E (wq_headers q) \<and> \<not> upgrade_head E (wq_headers q)
        \<and> persistent E q \<and> reply \<noteq> []
        \<and> \<not> (wq_method q = REQUEST_METHOD_OPTIONS \<and> strip_trailing_slash (wq_resource q) \<in> {''*'', ''/*''})
        \<and> map_sum id (\<lambda>t. find_submatch t (strip_trailing_slash (wq_resource q)) = None) (choose_payloads (wq_method q) s)
            = Inr True
        \<and> (\<exists>p. map_sum id (\<lambda>t. find_submatch t (strip_trailing_slash (wq_resource q))) (choose_handlers (wq_method q) s)
            = Inr (Some (p, reply_handler E reply))))"

text \<open>What goes out for such a request: the interim answer if it was asked for, the head, the content.\<close>

definition response_to :: "wire_request \<Rightarrow> http_response" where
  "response_to q =
     new_http_response ((new_http_request False)\<lparr>rq_method := wq_method q, m_version_major := wq_version q,
       m_version_minor := wq_subversion q\<rparr>)"

definition answer_text :: "sl_utils \<Rightarrow> wire_request \<times> byte_string \<Rightarrow> byte_string" where
  "answer_text E qr =
     (case qr of (q, reply) \<Rightarrow>
        (if iequals E ''100-continue'' (get_value E (wq_headers q) ''Expect'') then RESPONSE_FULLMESSAGE_100_CONTINUE else [])
        @ (if wq_method q = REQUEST_METHOD_HEAD then response_head E True False (response_to q)
           else response_head E True False ((response_to q)\<lparr>m_content_length := length reply\<rparr>) @ reply))"

lemma wire_text_nonempty: "wire_text q \<noteq> []"
  by (simp add: wire_text_def request_text_def)

lemma headed_wire:
  assumes "headed_message E (wq_method q) (wq_resource q) (wq_query q) (wq_version q) (wq_subversion q) (wq_headers q) m"
  shows "check_keep_alive E m = persistent E q" and "new_http_response m = response_to q"
  using assms
  by (simp_all add: headed_message_def check_keep_alive_def persistent_def get_header_def response_to_def
      new_http_response_def update_request_info_def Let_def)

section \<open>One request\<close>

text \<open>What the connection looks like while an answer is being written, with \<open>left\<close> still in the buffer.\<close>

definition awaiting :: "byte_string \<Rightarrow> byte_string \<Rightarrow> tcp_connection \<Rightarrow> bool" where
  "awaiting left out c \<longleftrightarrow>
     is_open c \<and> get_keep_alive c \<and> (is_pipelined c \<longleftrightarrow> left \<noteq> []) \<and> (left \<noteq> [] \<longrightarrow> load_read_pos c = left)
     \<and> sent_bytes c = out"

lemma request_answered:
  fixes s :: "'ws http_server"
  assumes qr: "answered_by E s (q, reply)" and r: "r = new_http_request_reader g1 g2 g3 t c0" and c: "is_open c"
  shows "\<exists>c'. consume_bytes E rf nf s (r\<lparr>rd_parser := set_read_buffer (wire_text q @ left) (rd_parser r)\<rparr>) c
        = Completed (Handled c')
      \<and> awaiting left (sent_bytes c @ answer_text E (q, reply)) c'
      \<and> (\<exists>evs. tc_events c' = tc_events c @ evs \<and> Finished \<notin> set evs)"
proof -
  let ?path = "strip_trailing_slash (wq_resource q)"
  have q: "line_ok (wq_method q) (wq_resource q) (wq_query q)" "list_all header_ok (wq_headers q)" "wq_version q \<noteq> 0"
    "content_length_ok E (wq_headers q)" "\<not> form_type E (wq_headers q)" "\<not> upgrade_head E (wq_headers q)"
    "persistent E q" "reply \<noteq> []" "\<not> (wq_method q = REQUEST_METHOD_OPTIONS \<and> ?path \<in> {''*'', ''/*''})"
    using qr by (simp_all add: answered_by_def)
  obtain payloads where pl: "choose_payloads (wq_method q) s = Inr payloads" "find_submatch payloads ?path = None"
    using qr by (cases "choose_payloads (wq_method q) s") (auto simp: answered_by_def)
  obtain p where found: "map_sum id (\<lambda>t. find_submatch t ?path) (choose_handlers (wq_method q) s) = Inr (Some (p, reply_handler E reply))"
    using qr by (auto simp: answered_by_def)
  obtain m c1 evs where read: "consume_bytes E rf nf s (r\<lparr>rd_parser := set_read_buffer (wire_text q @ left) (rd_parser r)\<rparr>) c
        = Completed (handle_request E rf nf s m c1 EC_none)"
    and m: "m_is_valid m" "headed_message E (wq_method q) (wq_resource q) (wq_query q) (wq_version q) (wq_subversion q) (wq_headers q) m"
    and c1: "sent_bytes c1 = sent_bytes c
          @ (if iequals E ''100-continue'' (get_value E (wq_headers q) ''Expect'') then RESPONSE_FULLMESSAGE_100_CONTINUE else [])"
      "get_keep_alive c1" "is_pipelined c1 \<longleftrightarrow> left \<noteq> []" "is_pipelined c1 \<longrightarrow> load_read_pos c1 = left" "is_open c1"
      "tc_events c1 = tc_events c @ evs" "Finished \<notin> set evs"
    using served_bytes [OF q(1-5) pl r, of rf nf "wq_subversion q" left c] c q(7) headed_wire(1) [of E q]
    by (fastforce simp: wire_text_def)
  let ?c' = "snd (reply_handler E reply m (new_response_writer m) c1)"
  obtain bs where bs: "?c' = async_write bs c1" using reply_conn [OF c1(5)] .
  have hd: "m_headers m = wq_headers q" "rq_resource m = wq_resource q" "rq_method m = wq_method q"
    using m(2) by (simp_all add: headed_message_def)
  have "handle_request E rf nf s m c1 EC_none = Handled ?c'"
    by (rule dispatch_found) (use m(1) q(6,9) hd found in \<open>simp_all add: upgrade_head_iff\<close>)
  moreover have "sent_bytes ?c' = sent_bytes c @ answer_text E (q, reply)"
    using reply_bytes [OF c1(5) q(8), of E m] c1(1,2) hd(3) headed_wire(2) [OF m(2)] by (simp add: answer_text_def)
  moreover have "\<exists>evs. tc_events ?c' = tc_events c @ evs \<and> Finished \<notin> set evs"
    using c1(6,7) by (intro exI [of _ "evs @ [Async_write (concat bs)]"]) (simp add: bs conn_defs)
  ultimately show ?thesis
    using read c1 bs by (auto simp: awaiting_def is_pipelined_def load_read_pos_def conn_defs)
qed

section \<open>One after the other\<close>

text \<open>The completions of the last \<open>n\<close> answers: each finishes the connection.\<close>

fun answers_written :: "'ws http_config \<Rightarrow> nat \<Rightarrow> nat \<Rightarrow> http_system \<Rightarrow> http_system option" where
  "answers_written C i 0 y = Some y"
| "answers_written C i (Suc n) y =
     (case finish_task C i (with_conn i (handle_write (conn_of i y)) y) of
        None \<Rightarrow> None
      | Some z \<Rightarrow> answers_written C i n z)"

definition serving :: "nat \<Rightarrow> http_system \<Rightarrow> bool" where
  "serving i y \<longleftrightarrow> ts_listening (sy_server y) \<and> \<not> ts_locked (sy_server y)"

lemma awaiting_write [simp]: "awaiting left out (handle_write c) = awaiting left out c"
  by (simp add: awaiting_def handle_write_def is_pipelined_def load_read_pos_def get_keep_alive_def finish_conn_def tc_log_def
      is_open_def sent_bytes_def)

lemma conn_of_simps [simp]:
  "conn_of i (with_conn i c y) = c" "conn_of i (set_task i t y) = conn_of i y"
  by (simp_all add: conn_of_def sys_ops set_conn_def)

text \<open>The connection is kept: \<open>finish_connection\<close> hands it to a new reader.\<close>

lemma finish_kept:
  assumes "serving i y" and "get_keep_alive (conn_of i y)" and "server_handler C (conn_of i y) = In_progress c'"
  obtains z where "finish_task C i y = Some (continue_with C i (connection_outcome C (conn_of i y)) z)"
    and "serving i z"
proof -
  let ?s = "begin_op (Handling i) (set_conn i c' (end_op (Handling i) (sy_server y)))"
  have "finish_connection (server_handler C) i (end_op (Handling i) (sy_server y)) = Ts_ok ?s"
    using assms by (subst finish_connection_eq) (simp_all add: serving_def conn_of_def end_op_def)
  then show thesis
    using assms(1)
    by (intro that [of "with_server ?s y"])
       (simp_all add: finish_task_def server_outcome_def after_operation_def begin_op_def serving_def server_ops)
qed

lemma next_request:
  assumes "serving i y" and "awaiting (wire_text q @ left) out (conn_of i y)"
    and "answered_by (cf_utils C) (cf_http C) (q, reply)"
  shows "\<exists>z. finish_task C i y = Some z \<and> serving i z \<and> sy_tasks z i = Some Task_responding
    \<and> awaiting left (out @ answer_text (cf_utils C) (q, reply)) (conn_of i z)"
proof -
  let ?c = "conn_of i y"
  let ?c1 = "set_lifecycle Lifecycle_close ?c"
  have c: "is_pipelined ?c" "load_read_pos ?c = wire_text q @ left" "is_open ?c" "sent_bytes ?c = out" "get_keep_alive ?c"
    using assms(2) by (auto simp: awaiting_def wire_text_nonempty)
  have c1: "is_open ?c1" "load_read_pos ?c1 = wire_text q @ left" using c by (simp_all add: conn_defs)
  obtain c' where c': "connection_outcome C ?c = Completed (Handled c')"
    "awaiting left (out @ answer_text (cf_utils C) (q, reply)) c'"
    "\<exists>evs. tc_events c' = tc_events ?c1 @ evs \<and> Finished \<notin> set evs"
    using request_answered [OF assms(3) refl c1(1)] c c1(2)
    unfolding connection_outcome_def handle_connection_def receive_def Let_def by fastforce
  have "Finished \<notin> set (new_events ?c c')" using c'(3) by (auto simp: new_events_def set_lifecycle_def)
  then have "server_handler C ?c = In_progress c'" using c' by (simp add: server_handler_def conn_result_of_def)
  from finish_kept [OF assms(1) c(5) this] obtain z where z:
    "finish_task C i y = Some (continue_with C i (connection_outcome C ?c) z)" "serving i z" by blast
  then show ?thesis
    using c' by (auto simp: continue_with_def serving_def set_task_def sys_ops set_conn_def conn_of_def)
qed

lemma all_answered:
  assumes "cf_utils C = E" "cf_http C = s"
  shows "list_all (answered_by E s) qrs \<Longrightarrow> serving i y \<Longrightarrow> awaiting (concat (map (wire_text \<circ> fst) qrs)) out (conn_of i y) \<Longrightarrow>
   \<exists>z r. answers_written C i (Suc (length qrs)) y = Some z \<and> sy_tasks z i = Some (Task_reading r)
     \<and> sent_bytes (conn_of i z) = out @ concat (map (answer_text E) qrs) \<and> is_open (conn_of i z)"
proof (induction qrs arbitrary: y out)
  case Nil
  let ?y = "with_conn i (handle_write (conn_of i y)) y"
  have y: "serving i ?y" "awaiting [] out (conn_of i ?y)" using Nil by (simp_all add: serving_def set_conn_def)
  then have "\<not> is_pipelined (conn_of i ?y)" "get_keep_alive (conn_of i ?y)" by (simp_all add: awaiting_def)
  then obtain r c' where out: "connection_outcome C (conn_of i ?y) = Reading r c'" "server_handler C (conn_of i ?y) = In_progress c'"
    and same: "is_open c' = is_open (conn_of i ?y)" "sent_bytes c' = sent_bytes (conn_of i ?y)"
    using connection_outcome_reads by blast
  have c': "sent_bytes c' = out" "is_open c'" using y(2) same by (simp_all add: awaiting_def)
  obtain z where "finish_task C i ?y = Some (continue_with C i (connection_outcome C (conn_of i ?y)) z)"
    using finish_kept [OF y(1) _ out(2)] \<open>get_keep_alive (conn_of i ?y)\<close> by blast
  then show ?case using out(1) c' by (simp add: continue_with_def set_task_def sys_ops set_conn_def conn_of_def)
next
  case (Cons qr qrs)
  obtain q reply where qr: "qr = (q, reply)" by (cases qr)
  let ?y = "with_conn i (handle_write (conn_of i y)) y"
  have y: "serving i ?y" "awaiting (wire_text q @ concat (map (wire_text \<circ> fst) qrs)) out (conn_of i ?y)"
    using Cons.prems qr by (simp_all add: serving_def set_conn_def o_def)
  have "answered_by (cf_utils C) (cf_http C) (q, reply)" using Cons.prems(1) qr assms by simp
  from next_request [OF y this] obtain z where z: "finish_task C i ?y = Some z" "serving i z"
    "awaiting (concat (map (wire_text \<circ> fst) qrs)) (out @ answer_text E (q, reply)) (conn_of i z)"
    using assms by auto
  from Cons.IH [OF _ z(2,3)] Cons.prems(1) z(1) show ?case by (simp add: qr)
qed

section \<open>Properties\<close>

text \<open>
  C3: pipelined requests are answered one after the other, in the order in which they came. In any
  reachable state of the listening server, let a new reader wait on an open connection, and let one
  read deliver the heads of any number of well-formed persistent requests, each routed to a handler
  that answers with one block of content. Then the first request is answered at once, and each
  time an answer has been written the next request is taken from the bytes left over; after the
  last answer a new reader waits for more. What has gone out are exactly the answers, complete and
  in order. (Reads, dispatch, response framing, keep-alive and the pool of connections together.)
\<close>

theorem pipelined_in_order:
  fixes C :: "'ws http_config"
  assumes "frame_laws (cf_frames C)" and "handlers_safe (cf_http C)" and "sys_reach C y"
    and "ts_listening (sy_server y)"
    and "sy_tasks y i = Some (Task_reading (new_http_request_reader g1 g2 g3 t c0))" and "is_open (conn_of i y)"
    and "list_all (answered_by (cf_utils C) (cf_http C)) (qr # qrs)"
  shows "\<exists>y1 y2 r. read_completed C i (new_http_request_reader g1 g2 g3 t c0)
            (Read_ok (concat (map (wire_text \<circ> fst) (qr # qrs)))) y = Some y1
      \<and> sy_tasks y1 i = Some Task_responding
      \<and> answers_written C i (length (qr # qrs)) y1 = Some y2
      \<and> sy_tasks y2 i = Some (Task_reading r)
      \<and> sent_bytes (conn_of i y2) = sent_bytes (conn_of i y) @ concat (map (answer_text (cf_utils C)) (qr # qrs))"
proof -
  obtain q reply where qr: "qr = (q, reply)" by (cases qr)
  let ?left = "concat (map (wire_text \<circ> fst) qrs)" and ?E = "cf_utils C"
  let ?c = "conn_of i y" and ?r = "new_http_request_reader g1 g2 g3 t c0"
  have timer: "is_open (cancel_timer ?c)" "sent_bytes (cancel_timer ?c) = sent_bytes ?c"
    using assms(6) by (simp_all add: sent_bytes_def conn_defs)
  obtain c' where c': "on_read ?E (cf_receive_fun C) (cf_noop_fun C) (cf_http C) ?r ?c (Read_ok (wire_text q @ ?left)) = Completed (Handled c')"
    "awaiting ?left (sent_bytes ?c @ answer_text ?E qr) c'"
    "\<exists>evs. tc_events c' = tc_events (cancel_timer ?c) @ evs \<and> Finished \<notin> set evs"
    using request_answered [of ?E "cf_http C" q reply ?r g1 g2 g3 t c0 "cancel_timer ?c" "cf_receive_fun C" "cf_noop_fun C" ?left]
      assms(7) qr timer by (auto simp: on_read_def)
  from c'(3) have open': "Finished \<notin> set (new_events ?c c')" by (auto simp: new_events_def conn_defs)
  let ?y1 = "set_task i Task_responding (with_conn i c' y)"
  have "read_completed C i ?r (Read_ok (wire_text q @ ?left)) y = Some ?y1"
    using c'(1) open' by (simp add: read_completed_def conn_result_of_def continue_with_def)
  moreover have "serving i ?y1"
  proof -
    have "running_system C" using assms(1,2) by (rule running_system.intro)
    from running_system.sys_reach_inv [OF this assms(3)] sys_inv_D(1) have "tracked (sy_server y)" by blast
    then show ?thesis using assms(4) by (simp add: serving_def set_task_def tracked_def set_conn_def)
  qed
  moreover have "awaiting ?left (sent_bytes ?c @ answer_text ?E qr) (conn_of i ?y1)" using c'(2) by simp
  moreover have "list_all (answered_by ?E (cf_http C)) qrs" using assms(7) by simp
  moreover obtain y2 r where "answers_written C i (Suc (length qrs)) ?y1 = Some y2" "sy_tasks y2 i = Some (Task_reading r)"
    "sent_bytes (conn_of i y2) = (sent_bytes ?c @ answer_text ?E qr) @ concat (map (answer_text ?E) qrs)"
    using all_answered [OF refl refl, OF calculation(4,2,3)] by blast
  moreover have "sy_tasks ?y1 i = Some Task_responding" by (simp add: set_task_def)
  ultimately show ?thesis
    using qr by (intro exI [of _ ?y1] exI [of _ y2] exI [of _ r]) (simp del: answers_written.simps)
qed

definition greeting_server :: "unit http_server" where
  "greeting_server = (new_http_server utils_ref 1000)\<lparr>hs_get_handlers := [''/a'' \<mapsto> reply_handler utils_ref ''hello'']\<rparr>"

definition greeting_config :: "unit http_config" where
  "greeting_config = chat_config\<lparr>cf_http := greeting_server\<rparr>"

interpretation greeting: running_system greeting_config
  by unfold_locales
     (use default_handlers_safe [of utils_ref 1000] rfc.frame_laws_axioms in
        \<open>simp_all add: greeting_config_def chat_config_def greeting_server_def handlers_safe_def frame_laws_def\<close>)

definition get_request :: wire_request where
  "get_request = \<lparr>wq_method = ''GET'', wq_resource = ''/a/b'', wq_query = [], wq_version = 1, wq_subversion = 1, wq_headers = []\<rparr>"

definition head_request :: wire_request where
  "head_request = get_request\<lparr>wq_method := ''HEAD''\<rparr>"

lemma no_headers:
  "content_length_ok utils_ref []" "\<not> form_type utils_ref []" "\<not> upgrade_head utils_ref []"
  "get_value utils_ref [] name = []"
  by (simp_all add: content_length_ok_def form_type_def upgrade_head_def is_websocket_upgrade_def has_header_value_def
      get_header_def get_value_def dict_find_def equal_range_def STRING_EMPTY_def
      CONTENT_TYPE_URLENCODED_def CONTENT_TYPE_MULTIPART_FORM_DATA_def)

lemma greeting_lines: "line_ok ''GET'' ''/a/b'' []" "line_ok ''HEAD'' ''/a/b'' []"
  by (simp_all add: line_ok_def token_text_def not_token_def is_char_def is_control_def is_special_def char_value_def
      no_control_def METHOD_MAX_def RESOURCE_MAX_def QUERY_STRING_MAX_def)

lemma greeting_tables:
  "choose_payloads ''GET'' greeting_server = Inr Map.empty" "choose_payloads ''HEAD'' greeting_server = Inr Map.empty"
  "choose_handlers ''GET'' greeting_server = Inr [''/a'' \<mapsto> reply_handler utils_ref ''hello'']"
  "choose_handlers ''HEAD'' greeting_server = Inr [''/a'' \<mapsto> reply_handler utils_ref ''hello'']"
  by (simp_all add: choose_handlers_def choose_payloads_def choose_map_by_method_def greeting_server_def
      new_http_server_def method_names)

lemma greeting_path:
  "strip_trailing_slash ''/a/b'' = ''/a/b''"
  "find_submatch [''/a'' \<mapsto> v] ''/a/b'' = Some (''/a'', v)"
  by (simp_all add: strip_trailing_slash_def find_submatch.simps)

lemma greeting_answered:
  "list_all (answered_by (cf_utils greeting_config) (cf_http greeting_config))
     [(get_request, ''hello''), (head_request, ''hello'')]"
  by (simp add: greeting_lines no_headers greeting_tables greeting_path answered_by_def get_request_def head_request_def greeting_config_def chat_config_def persistent_def
      find_submatch_None method_names)

theorem pipelined_in_order_witness:
  "\<exists>y y1 y2 r r2. sys_reach greeting_config y \<and> sy_tasks y 0 = Some (Task_reading r)
     \<and> read_completed greeting_config 0 r (Read_ok (wire_text get_request @ wire_text head_request)) y = Some y1
     \<and> answers_written greeting_config 0 2 y1 = Some y2 \<and> sy_tasks y2 0 = Some (Task_reading r2)
     \<and> sent_bytes (conn_of 0 y2) = sent_bytes (conn_of 0 y)
         @ answer_text utils_ref (get_request, ''hello'') @ answer_text utils_ref (head_request, ''hello'')"
proof -
  obtain y c0 where y: "sys_reach greeting_config y" "ts_listening (sy_server y)"
    "sy_tasks y 0 = Some (Task_reading (new_reader_of greeting_config c0))" "is_open (conn_of 0 y)"
    using greeting.accepted_connection by blast
  from pipelined_in_order [OF greeting.laws greeting.safe y(1,2) y(3) [unfolded new_reader_of_def] y(4) greeting_answered] y(1,3)
  show ?thesis
    by (auto simp: new_reader_of_def numeral_2_eq_2 greeting_config_def chat_config_def simp del: answers_written.simps)
qed

end
