(* ===== verification/Http_Shutdown.thy ===== *)
theory Http_Shutdown
  imports Http_System
begin

text \<open>
  Stopping the running server: whatever its connections are busy with when \<open>stop\<close> is called, the
  operations in flight can complete one by one until \<open>stop\<close> returns.
\<close>

section \<open>A WebSocket can be closed\<close>


section \<open>The connections of a stopping server\<close>






section \<open>One operation less\<close>





section \<open>Properties\<close>



end
