(* ===== verification/Http_Constants.thy ===== *)
theory Http_Constants
  imports Cookie_Parser Parser_State
begin

text \<open>
  The remaining constants of \<open>http_message\<close>: names of headers, content types, response messages and
  codes that the library offers to applications, and what the library itself does with them.
\<close>

section \<open>Definitions\<close>

definition HEADER_HOST :: byte_string where "HEADER_HOST = ''Host''"
definition HEADER_CONTENT_LOCATION :: byte_string where "HEADER_CONTENT_LOCATION = ''Content-Location''"
definition HEADER_CONTENT_ENCODING :: byte_string where "HEADER_CONTENT_ENCODING = ''Content-Encoding''"
definition HEADER_LAST_MODIFIED :: byte_string where "HEADER_LAST_MODIFIED = ''Last-Modified''"
definition HEADER_IF_MODIFIED_SINCE :: byte_string where "HEADER_IF_MODIFIED_SINCE = ''If-Modified-Since''"
definition HEADER_LOCATION :: byte_string where "HEADER_LOCATION = ''Location''"
definition HEADER_AUTHORIZATION :: byte_string where "HEADER_AUTHORIZATION = ''Authorization''"
definition HEADER_REFERER :: byte_string where "HEADER_REFERER = ''Referer''"
definition HEADER_USER_AGENT :: byte_string where "HEADER_USER_AGENT = ''User-Agent''"
definition HEADER_X_FORWARDED_FOR :: byte_string where "HEADER_X_FORWARDED_FOR = ''X-Forwarded-For''"
definition HEADER_CLIENT_IP :: byte_string where "HEADER_CLIENT_IP = ''Client-IP''"
definition CONTENT_TYPE_HTML :: byte_string where "CONTENT_TYPE_HTML = ''text/html''"
definition CONTENT_TYPE_TEXT :: byte_string where "CONTENT_TYPE_TEXT = ''text/plain''"
definition CONTENT_TYPE_XML :: byte_string where "CONTENT_TYPE_XML = ''text/xml''"
definition RESPONSE_MESSAGE_CREATED :: byte_string where "RESPONSE_MESSAGE_CREATED = ''Created''"
definition RESPONSE_MESSAGE_ACCEPTED :: byte_string where "RESPONSE_MESSAGE_ACCEPTED = ''Accepted''"
definition RESPONSE_MESSAGE_NO_CONTENT :: byte_string where "RESPONSE_MESSAGE_NO_CONTENT = ''No Content''"
definition RESPONSE_MESSAGE_FOUND :: byte_string where "RESPONSE_MESSAGE_FOUND = ''Found''"
definition RESPONSE_MESSAGE_UNAUTHORIZED :: byte_string where "RESPONSE_MESSAGE_UNAUTHORIZED = ''Unauthorized''"
definition RESPONSE_MESSAGE_FORBIDDEN :: byte_string where "RESPONSE_MESSAGE_FORBIDDEN = ''Forbidden''"
definition RESPONSE_MESSAGE_METHOD_NOT_ALLOWED :: byte_string where "RESPONSE_MESSAGE_METHOD_NOT_ALLOWED = ''Method Not Allowed''"
definition RESPONSE_MESSAGE_NOT_MODIFIED :: byte_string where "RESPONSE_MESSAGE_NOT_MODIFIED = ''Not Modified''"
definition RESPONSE_MESSAGE_SERVER_ERROR :: byte_string where "RESPONSE_MESSAGE_SERVER_ERROR = ''Server Error''"
definition RESPONSE_MESSAGE_NOT_IMPLEMENTED :: byte_string where "RESPONSE_MESSAGE_NOT_IMPLEMENTED = ''Not Implemented''"
definition RESPONSE_MESSAGE_CONTINUE :: byte_string where "RESPONSE_MESSAGE_CONTINUE = ''Continue''"
definition RESPONSE_CODE_CREATED :: "32 word" where "RESPONSE_CODE_CREATED = 201"
definition RESPONSE_CODE_ACCEPTED :: "32 word" where "RESPONSE_CODE_ACCEPTED = 202"
definition RESPONSE_CODE_NO_CONTENT :: "32 word" where "RESPONSE_CODE_NO_CONTENT = 204"
definition RESPONSE_CODE_FOUND :: "32 word" where "RESPONSE_CODE_FOUND = 302"
definition RESPONSE_CODE_UNAUTHORIZED :: "32 word" where "RESPONSE_CODE_UNAUTHORIZED = 401"
definition RESPONSE_CODE_FORBIDDEN :: "32 word" where "RESPONSE_CODE_FORBIDDEN = 403"
definition RESPONSE_CODE_METHOD_NOT_ALLOWED :: "32 word" where "RESPONSE_CODE_METHOD_NOT_ALLOWED = 405"
definition RESPONSE_CODE_NOT_MODIFIED :: "32 word" where "RESPONSE_CODE_NOT_MODIFIED = 304"
definition RESPONSE_CODE_SERVER_ERROR :: "32 word" where "RESPONSE_CODE_SERVER_ERROR = 500"
definition RESPONSE_CODE_NOT_IMPLEMENTED :: "32 word" where "RESPONSE_CODE_NOT_IMPLEMENTED = 501"
definition RESPONSE_CODE_CONTINUE :: "32 word" where "RESPONSE_CODE_CONTINUE = 100"

definition header_names :: "byte_string list" where
  "header_names =
     [HEADER_HOST, HEADER_COOKIE, HEADER_SET_COOKIE, HEADER_CONNECTION, HEADER_CONTENT_TYPE, HEADER_CONTENT_LENGTH,
      HEADER_CONTENT_LOCATION, HEADER_CONTENT_ENCODING, HEADER_CONTENT_DISPOSITION, HEADER_LAST_MODIFIED,
      HEADER_IF_MODIFIED_SINCE, HEADER_TRANSFER_ENCODING, HEADER_LOCATION, HEADER_AUTHORIZATION, HEADER_REFERER,
      HEADER_USER_AGENT, HEADER_X_FORWARDED_FOR, HEADER_CLIENT_IP]"

definition status_lines :: "(32 word \<times> byte_string) list" where
  "status_lines =
     [(RESPONSE_CODE_OK, RESPONSE_MESSAGE_OK), (RESPONSE_CODE_CREATED, RESPONSE_MESSAGE_CREATED),
      (RESPONSE_CODE_ACCEPTED, RESPONSE_MESSAGE_ACCEPTED), (RESPONSE_CODE_NO_CONTENT, RESPONSE_MESSAGE_NO_CONTENT),
      (RESPONSE_CODE_FOUND, RESPONSE_MESSAGE_FOUND), (RESPONSE_CODE_UNAUTHORIZED, RESPONSE_MESSAGE_UNAUTHORIZED),
      (RESPONSE_CODE_FORBIDDEN, RESPONSE_MESSAGE_FORBIDDEN), (RESPONSE_CODE_NOT_FOUND, RESPONSE_MESSAGE_NOT_FOUND),
      (RESPONSE_CODE_METHOD_NOT_ALLOWED, RESPONSE_MESSAGE_METHOD_NOT_ALLOWED),
      (RESPONSE_CODE_NOT_MODIFIED, RESPONSE_MESSAGE_NOT_MODIFIED), (RESPONSE_CODE_BAD_REQUEST, RESPONSE_MESSAGE_BAD_REQUEST),
      (RESPONSE_CODE_SERVER_ERROR, RESPONSE_MESSAGE_SERVER_ERROR),
      (RESPONSE_CODE_NOT_IMPLEMENTED, RESPONSE_MESSAGE_NOT_IMPLEMENTED), (RESPONSE_CODE_CONTINUE, RESPONSE_MESSAGE_CONTINUE)]"

lemmas header_name_defs =
  HEADER_HOST_def HEADER_COOKIE_def HEADER_SET_COOKIE_def HEADER_CONNECTION_def
  HEADER_CONTENT_TYPE_def HEADER_CONTENT_LENGTH_def HEADER_CONTENT_LOCATION_def
  HEADER_CONTENT_ENCODING_def HEADER_CONTENT_DISPOSITION_def HEADER_LAST_MODIFIED_def
  HEADER_IF_MODIFIED_SINCE_def HEADER_TRANSFER_ENCODING_def HEADER_LOCATION_def
  HEADER_AUTHORIZATION_def HEADER_REFERER_def HEADER_USER_AGENT_def HEADER_X_FORWARDED_FOR_def
  HEADER_CLIENT_IP_def

lemmas status_defs =
  RESPONSE_CODE_OK_def RESPONSE_CODE_CREATED_def RESPONSE_CODE_ACCEPTED_def
  RESPONSE_CODE_NO_CONTENT_def RESPONSE_CODE_FOUND_def RESPONSE_CODE_UNAUTHORIZED_def
  RESPONSE_CODE_FORBIDDEN_def RESPONSE_CODE_NOT_FOUND_def RESPONSE_CODE_METHOD_NOT_ALLOWED_def
  RESPONSE_CODE_NOT_MODIFIED_def RESPONSE_CODE_BAD_REQUEST_def RESPONSE_CODE_SERVER_ERROR_def
  RESPONSE_CODE_NOT_IMPLEMENTED_def RESPONSE_CODE_CONTINUE_def RESPONSE_MESSAGE_OK_def
  RESPONSE_MESSAGE_CREATED_def RESPONSE_MESSAGE_ACCEPTED_def RESPONSE_MESSAGE_NO_CONTENT_def
  RESPONSE_MESSAGE_FOUND_def RESPONSE_MESSAGE_UNAUTHORIZED_def RESPONSE_MESSAGE_FORBIDDEN_def
  RESPONSE_MESSAGE_NOT_FOUND_def RESPONSE_MESSAGE_METHOD_NOT_ALLOWED_def
  RESPONSE_MESSAGE_NOT_MODIFIED_def RESPONSE_MESSAGE_BAD_REQUEST_def
  RESPONSE_MESSAGE_SERVER_ERROR_def RESPONSE_MESSAGE_NOT_IMPLEMENTED_def
  RESPONSE_MESSAGE_CONTINUE_def

section \<open>What the library does with them\<close>

text \<open>
  Every header name of the library is one the header parser accepts: not empty, within the limit,
  and of token characters only. No two of them are the same for the case-insensitive map.
\<close>

lemma header_names_are_tokens:
  "n \<in> set header_names \<Longrightarrow>
     n \<noteq> [] \<and> length n \<le> HEADER_NAME_MAX
     \<and> list_all (\<lambda>c. is_char (char_value c) \<and> \<not> is_control (char_value c) \<and> \<not> is_special (char_value c)) n"
  by (auto simp: header_names_def header_name_defs HEADER_NAME_MAX_def is_char_def is_control_def is_special_def char_value_def)

lemma header_names_distinct: "distinct (map upper_string header_names)"
  by (simp add: header_names_def header_name_defs upper_string_def toupper_def char_value_def)

text \<open>
  Codes and messages correspond one to one; of the codes only \<open>100 Continue\<close>, \<open>204 No Content\<close> and
  \<open>304 Not Modified\<close> imply the length of the content, for any request but \<open>HEAD\<close>.
\<close>

lemma status_lines_distinct: "distinct (map fst status_lines)" "distinct (map snd status_lines)"
  by (simp_all add: status_lines_def status_defs)

lemma content_length_implied_codes:
  assumes "(code, msg) \<in> set status_lines" and "rs_request_method r \<noteq> REQUEST_METHOD_HEAD"
  shows "response_is_content_length_implied (set_status_code code r)
    \<longleftrightarrow> code \<in> {RESPONSE_CODE_CONTINUE, RESPONSE_CODE_NO_CONTENT, RESPONSE_CODE_NOT_MODIFIED}"
  using assms
  by (auto simp: status_lines_def status_defs response_is_content_length_implied_def set_status_code_def clear_first_line_def)

end
