(* ===== verification/Accessors.thy ===== *)
theory Accessors
  imports Http_Response_Writer Tcp_Server Websocket
begin

text \<open>
  The accessors of the classes. In the other theories a getter that returns a member is written as the
  selector of the record; here the getters have their names, with what they return after the
  constructors and the setters, and what the content of a message reads back as.
\<close>

section \<open>Definitions\<close>

subsection \<open>\<open>http_message\<close>\<close>

definition buffer_is_empty :: "content_buffer_t \<Rightarrow> bool" where
  "buffer_is_empty b = (cb_len b = 0)"

definition buffer_size :: "content_buffer_t \<Rightarrow> nat" where
  "buffer_size b = cb_len b"

definition buffer_get :: "content_buffer_t \<Rightarrow> byte_string" where
  "buffer_get b = cb_ptr b"

definition is_valid :: "'a http_message_scheme \<Rightarrow> bool" where
  "is_valid m = m_is_valid m"

definition get_chunks_supported :: "'a http_message_scheme \<Rightarrow> bool" where
  "get_chunks_supported m = m_chunks_supported m"

definition message_get_remote_ip :: "'a http_message_scheme \<Rightarrow> ip_address" where
  "message_get_remote_ip m = m_remote_ip m"

definition get_version_major :: "'a http_message_scheme \<Rightarrow> 16 word" where
  "get_version_major m = m_version_major m"

definition get_version_minor :: "'a http_message_scheme \<Rightarrow> 16 word" where
  "get_version_minor m = m_version_minor m"

definition get_content_length :: "'a http_message_scheme \<Rightarrow> nat" where
  "get_content_length m = m_content_length m"

definition is_chunked :: "'a http_message_scheme \<Rightarrow> bool" where
  "is_chunked m = m_is_chunked m"

definition is_content_buffer_allocated :: "'a http_message_scheme \<Rightarrow> bool" where
  "is_content_buffer_allocated m = (\<not> buffer_is_empty (m_content_buf m))"

definition get_content_buffer_size :: "'a http_message_scheme \<Rightarrow> nat" where
  "get_content_buffer_size m = buffer_size (m_content_buf m)"

definition get_content :: "'a http_message_scheme \<Rightarrow> byte_string" where
  "get_content m = buffer_get (m_content_buf m)"

definition get_chunk_cache :: "'a http_message_scheme \<Rightarrow> byte_string" where
  "get_chunk_cache m = m_chunk_cache m"

definition get_headers :: "'a http_message_scheme \<Rightarrow> dict" where
  "get_headers m = m_headers m"

definition get_cookies :: "'a http_message_scheme \<Rightarrow> dict" where
  "get_cookies m = m_cookie_params m"

definition has_missing_packets :: "'a http_message_scheme \<Rightarrow> bool" where
  "has_missing_packets m = m_has_missing_packets m"

definition has_data_after_missing_packets :: "'a http_message_scheme \<Rightarrow> bool" where
  "has_data_after_missing_packets m = m_has_data_after_missing m"

definition get_status :: "'a http_message_scheme \<Rightarrow> data_status_type" where
  "get_status m = m_status m"

subsection \<open>\<open>http_request\<close>, \<open>http_response\<close>, \<open>http_response_writer\<close>\<close>

definition get_method :: "http_request \<Rightarrow> byte_string" where
  "get_method r = rq_method r"

definition get_resource :: "http_request \<Rightarrow> byte_string" where
  "get_resource r = rq_resource r"

definition get_original_resource :: "http_request \<Rightarrow> byte_string" where
  "get_original_resource r = rq_original_resource r"

definition get_query_string :: "http_request \<Rightarrow> byte_string" where
  "get_query_string r = rq_query_string r"

definition get_queries :: "http_request \<Rightarrow> dict" where
  "get_queries r = rq_query_params r"

definition get_payload_handler_wrapper :: "http_request \<Rightarrow> payload_handler_type option" where
  "get_payload_handler_wrapper r = rq_payload_handler r"

definition get_status_code :: "http_response \<Rightarrow> 32 word" where
  "get_status_code r = rs_status_code r"

definition get_status_message :: "http_response \<Rightarrow> byte_string" where
  "get_status_message r = rs_status_message r"

definition get_response :: "http_response_writer \<Rightarrow> http_response" where
  "get_response w = w_response w"

definition writer_get_content_length :: "http_response_writer \<Rightarrow> nat" where
  "writer_get_content_length w = w_content_length w"

definition client_supports_chunked_messages :: "http_response_writer \<Rightarrow> bool" where
  "client_supports_chunked_messages w = w_client_supports_chunks w"

definition sending_chunked_message :: "http_response_writer \<Rightarrow> bool" where
  "sending_chunked_message w = w_sending_chunks w"

subsection \<open>\<open>http_parser\<close>\<close>

definition parser_load_read_pos :: "http_parser \<Rightarrow> byte_string" where
  "parser_load_read_pos p = hp_read p"

definition get_total_bytes_read :: "http_parser \<Rightarrow> nat" where
  "get_total_bytes_read p = hp_bytes_total_read p"

definition get_content_bytes_read :: "http_parser \<Rightarrow> nat" where
  "get_content_bytes_read p = hp_bytes_content_read p"

definition get_max_content_length :: "http_parser \<Rightarrow> nat" where
  "get_max_content_length p = hp_max_content_length p"

definition get_raw_headers :: "http_parser \<Rightarrow> byte_string" where
  "get_raw_headers p = hp_raw_headers p"

definition get_save_raw_headers :: "http_parser \<Rightarrow> bool" where
  "get_save_raw_headers p = hp_save_raw_headers p"

definition get_parse_headers_only :: "http_parser \<Rightarrow> bool" where
  "get_parse_headers_only p = hp_parse_headers_only p"

text \<open>The error code of a parse error: its number and the name of the category.\<close>

definition parser_category_name :: byte_string where
  "parser_category_name = ''parser''"

definition set_error :: "error_value_t \<Rightarrow> int \<times> byte_string" where
  "set_error ev = (error_int ev, parser_category_name)"

subsection \<open>\<open>scheduler\<close>, \<open>tcp_connection\<close>, \<open>tcp_server\<close>, \<open>websocket\<close>\<close>

definition is_running :: "scheduler \<Rightarrow> bool" where
  "is_running s = sc_running s"

definition get_ssl_flag :: "tcp_connection \<Rightarrow> bool" where
  "get_ssl_flag c = tc_ssl_flag c"

definition is_listening :: "tcp_server \<Rightarrow> bool" where
  "is_listening s = ts_listening s"

definition get_scheduler :: "tcp_server \<Rightarrow> scheduler" where
  "get_scheduler s = ts_scheduler s"

definition ws_get_request :: "websocket \<Rightarrow> http_request" where
  "ws_get_request w = ws_request w"

definition receive_buffer_span :: "websocket \<Rightarrow> byte_string" where
  "receive_buffer_span w = ws_receive_buffer w"

lemmas accessor_defs =
  buffer_is_empty_def buffer_size_def buffer_get_def is_valid_def get_chunks_supported_def message_get_remote_ip_def
  get_version_major_def get_version_minor_def get_content_length_def is_chunked_def is_content_buffer_allocated_def
  get_content_buffer_size_def get_content_def get_chunk_cache_def get_headers_def get_cookies_def
  has_missing_packets_def has_data_after_missing_packets_def get_status_def get_method_def get_resource_def
  get_original_resource_def get_query_string_def get_queries_def get_payload_handler_wrapper_def get_status_code_def
  get_status_message_def get_response_def writer_get_content_length_def client_supports_chunked_messages_def
  sending_chunked_message_def parser_load_read_pos_def get_total_bytes_read_def get_content_bytes_read_def
  get_max_content_length_def get_raw_headers_def get_save_raw_headers_def get_parse_headers_only_def

section \<open>Content\<close>

text \<open>
  Content that was set, or put together from chunks, is read back by \<open>get_content\<close>, and is followed by
  a null byte, as the users of \<open>get_content\<close> as a C string expect. The buffer has the size of the
  content; an empty content counts as no buffer.
\<close>

lemma buffer_tail: "drop n (CHR 0x00 # replicate n (CHR 0x00)) = [CHR 0x00]"
  by (induction n) simp_all

lemma set_content_reads_back:
  "length s < SIZE_MAX \<Longrightarrow> \<exists>m'. set_content s m = Inr m' \<and> get_content m' = s @ [CHR 0x00] \<and> get_content_length m' = length s
     \<and> get_content_buffer_size m' = length s \<and> (is_content_buffer_allocated m' \<longleftrightarrow> s \<noteq> [])"
  by (simp add: set_content_def write_content_def memcpy_at_def create_content_buffer_def resize_fits buffer_tail accessor_defs)

lemma concatenated_reads_back:
  "length (get_chunk_cache m) < SIZE_MAX \<Longrightarrow> \<exists>m'. concatenate_chunks m = Inr m' \<and> get_content m' = get_chunk_cache m @ [CHR 0x00]
     \<and> get_content_length m' = length (get_chunk_cache m) \<and> get_chunk_cache m' = get_chunk_cache m"
  by (auto simp: concatenate_chunks_def write_content_def memcpy_at_def create_content_buffer_def resize_fits buffer_tail
      Let_def accessor_defs)

text \<open>Clearing a message leaves no content, headers, cookies or chunks behind.\<close>

lemma cleared_message:
  fixes m :: "'a http_message_scheme"
  shows "get_content (clear_http_message m) = [CHR 0x00]" "get_content_length (clear_http_message m) = 0"
    "\<not> is_content_buffer_allocated (clear_http_message m)" "get_headers (clear_http_message m) = []"
    "get_cookies (clear_http_message m) = []" "get_chunk_cache (clear_http_message m) = []"
    "\<not> is_valid (clear_http_message m)" "get_status (clear_http_message m) = STATUS_NONE"
  by (simp_all add: clear_http_message_def content_buffer_clear_def clear_first_line_def accessor_defs)

section \<open>Options\<close>

text \<open>What was set is what is returned.\<close>

lemma set_then_get:
  "is_valid (set_is_valid b m) = b" "get_chunks_supported (set_chunks_supported b m) = b"
  "message_get_remote_ip (set_remote_ip ip m) = ip" "get_version_major (set_version_major v m) = v"
  "get_version_minor (set_version_minor v m) = v" "get_content_length (set_content_length n m) = n"
  "has_missing_packets (set_missing_packets b m) = b" "get_status (set_status st m) = st"
  "has_data_after_missing_packets (set_data_after_missing_packet b m) = b"
  "get_method (set_method s r) = s" "get_query_string (set_query_string s r) = s"
  "get_status_code (set_status_code code resp) = code" "get_status_message (set_status_message s resp) = s"
  "client_supports_chunked_messages (supports_chunked_messages b w) = b"
  "get_max_content_length (set_max_content_length n p) = n" "get_save_raw_headers (set_save_raw_headers b p) = b"
  "get_parse_headers_only (parse_headers_only b p) = b" "parser_load_read_pos (set_read_buffer bs p) = bs"
  by (simp_all add: accessor_defs set_is_valid_def set_chunks_supported_def set_remote_ip_def set_version_major_def
      set_version_minor_def set_content_length_def set_missing_packets_def set_status_def set_data_after_missing_packet_def
      set_method_def set_query_string_def set_status_code_def set_status_message_def supports_chunked_messages_def
      set_max_content_length_def set_save_raw_headers_def parse_headers_only_def set_read_buffer_def clear_first_line_def)

text \<open>
  \<open>set_resource\<close> sets both resources, \<open>change_resource\<close> only the one handlers see: the resource of
  the request line stays available.
\<close>

lemma resource_changes:
  "get_resource (set_resource s r) = s" "get_original_resource (set_resource s r) = s"
  "get_resource (change_resource s r) = s" "get_original_resource (change_resource s r) = get_original_resource r"
  by (simp_all add: accessor_defs set_resource_def change_resource_def clear_first_line_def)

text \<open>
  \<open>reset\<close> prepares the parser for the next message: nothing read, no raw headers, back at the start.
  The limit, the options and the payload handler stay as they are, and so do the bytes of the chunk
  being read: these are set anew when the next chunk begins.
\<close>

lemma parser_after_reset:
  "get_total_bytes_read (parser_reset p) = 0" "get_content_bytes_read (parser_reset p) = 0" "gcount (parser_reset p) = 0"
  "get_raw_headers (parser_reset p) = []" "get_max_content_length (parser_reset p) = get_max_content_length p"
  "get_save_raw_headers (parser_reset p) = get_save_raw_headers p"
  "get_parse_headers_only (parser_reset p) = get_parse_headers_only p"
  "parser_load_read_pos (parser_reset p) = parser_load_read_pos p" "hp_payload_handler (parser_reset p) = hp_payload_handler p"
  by (simp_all add: accessor_defs parser_reset_def gcount_def)

text \<open>The message of an error code is the text of the error it was made from.\<close>

lemma set_error_message: "error_message (fst (set_error ev)) = error_text ev"
  by (simp add: set_error_def error_message_of_value)

text \<open>A server that has just been made neither listens nor has a running scheduler.\<close>

lemma new_server_accessors:
  "\<not> is_listening (new_tcp_server n ssl)" "\<not> is_running (get_scheduler (new_tcp_server n ssl))"
  by (simp_all add: is_listening_def is_running_def get_scheduler_def new_tcp_server_def new_scheduler_def)

end
