(* ===== verification/Diagnostics.thy ===== *)
theory Diagnostics
  imports Prelude
begin

text \<open>
  \<open>logger.hpp\<close>, and the error category \<open>receive_error_t\<close> of \<open>http_message.hpp\<close>. The macros of the logger
  come in three versions, chosen when the library is compiled. The other theories leave log messages
  out: what follows shows that a log statement adds lines to the log, and that it can only raise what
  the evaluation of its message raises.
\<close>

section \<open>Definitions\<close>

datatype log_backend = Disable_logging | Use_wilton_logging | Use_ostream

text \<open>
  The functions of the wilton library are a parameter, as the time and the thread in front of a
  line: \<open>wilton_is_level_enabled\<close> is the integer it stores for a logger and a level.
\<close>

record log_env =
  wilton_is_level_enabled :: "byte_string \<Rightarrow> byte_string \<Rightarrow> int"
  log_time :: byte_string
  log_thread :: byte_string

text \<open>
  What reaches the outside: a call of \<open>wilton_logger_log\<close> with its three strings and the lengths passed
  along, or a line on the standard output.
\<close>

datatype log_entry =
    Wilton_log byte_string "32 word" byte_string "32 word" byte_string "32 word"
  | Cout_line byte_string

text \<open>\<open>static_cast<int>\<close> of a length.\<close>

definition int_length :: "byte_string \<Rightarrow> 32 word" where
  "int_length s = word_of_nat (length s)"

definition logger_log :: "byte_string \<Rightarrow> byte_string \<Rightarrow> byte_string \<Rightarrow> log_entry" where
  "logger_log name level message =
     Wilton_log level (int_length level) name (int_length name) message (int_length message)"

definition is_priority_enabled :: "log_env \<Rightarrow> byte_string \<Rightarrow> byte_string \<Rightarrow> bool" where
  "is_priority_enabled L name level \<longleftrightarrow> wilton_is_level_enabled L name level \<noteq> 0"

text \<open>
  A log statement. The message is evaluated where it is written out; evaluating it may raise an
  exception. The result is the log afterwards.
\<close>

definition log_to_wilton ::
  "log_env \<Rightarrow> byte_string \<Rightarrow> byte_string \<Rightarrow> exn + byte_string \<Rightarrow> log_entry list \<Rightarrow> exn + log_entry list" where
  "log_to_wilton L name level msg out =
     (if is_priority_enabled L name level
      then map_sum id (\<lambda>m. out @ [logger_log name level m]) msg else Inr out)"

definition log_to_ostream ::
  "log_env \<Rightarrow> byte_string \<Rightarrow> byte_string \<Rightarrow> exn + byte_string \<Rightarrow> log_entry list \<Rightarrow> exn + log_entry list" where
  "log_to_ostream L name level msg out =
     map_sum id
       (\<lambda>m. out @ [Cout_line (log_time L @ '' '' @ log_thread L @ '' '' @ level @ '' '' @ name @ '' '' @ m @ [LF])]) msg"

definition log_statement ::
  "log_backend \<Rightarrow> log_env \<Rightarrow> byte_string \<Rightarrow> byte_string \<Rightarrow> exn + byte_string \<Rightarrow> log_entry list \<Rightarrow> exn + log_entry list" where
  "log_statement B L level name msg out =
     (case B of
        Disable_logging \<Rightarrow> Inr out
      | Use_wilton_logging \<Rightarrow> log_to_wilton L name level msg out
      | Use_ostream \<Rightarrow> log_to_ostream L name level msg out)"

definition STATICLIB_PION_LOG_DEBUG where "STATICLIB_PION_LOG_DEBUG B L = log_statement B L ''DEBUG''"
definition STATICLIB_PION_LOG_INFO where "STATICLIB_PION_LOG_INFO B L = log_statement B L ''INFO''"
definition STATICLIB_PION_LOG_WARN where "STATICLIB_PION_LOG_WARN B L = log_statement B L ''WARN''"
definition STATICLIB_PION_LOG_ERROR where "STATICLIB_PION_LOG_ERROR B L = log_statement B L ''ERROR''"
definition STATICLIB_PION_LOG_FATAL where "STATICLIB_PION_LOG_FATAL B L = log_statement B L ''FATAL''"

definition receive_error_name :: byte_string where
  "receive_error_name = ''receive_error_t''"

definition receive_error_message :: "int \<Rightarrow> byte_string" where
  "receive_error_message ev = (if ev = 1 then ''HTTP message parsing error'' else ''Unknown receive error'')"

section \<open>What a log statement does\<close>

text \<open>
  It keeps the log and adds at most one entry; it raises exactly what the evaluation of its message
  raises, and that only where the message is evaluated.
\<close>

lemma log_statement_effect:
  "log_statement B L level name msg out =
     (if B = Disable_logging \<or> B = Use_wilton_logging \<and> \<not> is_priority_enabled L name level then Inr out
      else case msg of
             Inl e \<Rightarrow> Inl e
           | Inr m \<Rightarrow> Inr (out @ [if B = Use_wilton_logging then logger_log name level m
                                  else Cout_line (log_time L @ '' '' @ log_thread L @ '' '' @ level @ '' '' @ name @ '' '' @ m @ [LF])]))"
  by (cases B; cases msg) (simp_all add: log_statement_def log_to_wilton_def log_to_ostream_def)

lemma log_statement_extends:
  assumes "log_statement B L level name (Inr m) out = Inr out'"
  shows "\<exists>es. out' = out @ es \<and> length es \<le> 1"
  using assms by (auto simp: log_statement_effect split: if_splits)

text \<open>
  The wilton library is told the length of the message as a signed 32 bit number, the right one for
  messages below two gigabytes.
\<close>

lemma logged_length: "length m < 2 ^ 31 \<Longrightarrow> sint (int_length m) = int (length m)"
proof -
  assume "length m < 2 ^ 31"
  then have "uint (int_length m) = int (length m)"
    by (simp add: int_length_def uint_word_of_int_eq unsigned_of_nat take_bit_nat_eq_self)
  then show ?thesis
    using \<open>length m < 2 ^ 31\<close> by (simp add: sint_uint signed_take_bit_int_eq_self)
qed

end
