(* ===== verification/Spec2Isabelle.thy ===== *)
theory Spec2Isabelle
  imports Message_Laws Uri_Parser Multipart_Roundtrip Payload_Delivery Request_Pipeline Http_Shutdown
    Http_Constants Accessors Diagnostics
begin

text \<open>
  A model of \<open>staticlib_pion\<close>, an asynchronous HTTP and WebSocket server in C++
  (\<open>src/include/staticlib/pion\<close>, \<open>src/src\<close>), and theorems about it.

  \<^bold>\<open>The program.\<close> A \<open>scheduler\<close> runs the asio service on a pool of threads. A \<open>tcp_server\<close>
  accepts connections, keeps them in a pool and passes each to the virtual \<open>handle_connection\<close>.
  An \<open>http_server\<close> overrides it: an \<open>http_request_reader\<close>, which is an \<open>http_parser\<close>, reads bytes
  and fills an \<open>http_request\<close>; after the head it asks the server for a payload handler, after
  the message it hands the request over. The server finds a handler by method and path and gives
  it an \<open>http_response_writer\<close>, whose last write finishes the connection, which goes back to
  \<open>tcp_server::finish_connection\<close>: kept alive, pipelined, or dropped. A request for an upgrade
  turns the connection into a \<open>websocket\<close>.

  \<^bold>\<open>The theories\<close>, with the sources they model; definitions have the names of the code, with a
  prefix where a name occurs twice (\<open>request_\<close>, \<open>response_\<close>, \<open>writer_\<close>, \<open>ws_\<close>).

  \<^item> \<open>Prelude\<close>: exceptions, searching in lists, shared lemmas, and the functions taken from
    \<open>staticlib_utils\<close> (\<open>iequals\<close>, \<open>parse_uint64\<close>, \<open>url_decode\<close>, \<dots>) as a parameter with the locale
    \<open>sl_env\<close> of their laws. \<open>Reference_Utils\<close>: an instance \<open>utils_ref\<close>, used by the witnesses.
  \<^item> \<open>Algorithm\<close> (\<open>algorithm.hpp\<close>), \<open>Http_Message\<close> (\<open>http_message.hpp/.cpp\<close>: buffers, header and
    cookie maps, \<open>prepare_buffers_for_send\<close>), \<open>Http_Request\<close>, \<open>Http_Response\<close>; \<open>Message_Laws\<close>: the
    header map is a case-insensitive multimap whose hash respects its equality, copying, the
    framing headers of an outgoing head.
  \<^item> \<open>Parser_State\<close> (data of \<open>http_parser.hpp\<close>), \<open>Header_Parser\<close> (\<open>parse_headers\<close>, one definition per
    case of its switch), \<open>Chunk_Parser\<close> (\<open>parse_chunks\<close>, likewise), \<open>Query_Parser\<close>, \<open>Cookie_Parser\<close>,
    \<open>Multipart_Parser\<close>, \<open>Uri_Parser\<close>, and \<open>Message_Parser\<close> (\<open>parse\<close> with \<open>finish_header_parsing\<close>,
    \<open>consume_content\<close>, \<open>finish\<close>). \<open>Header_Run\<close>, \<open>Chunk_Run\<close>, \<open>Head_Roundtrip\<close>: independence from the
    boundaries of the buffers, well-formedness of what is parsed, round trips between the writing
    and the parsing side. \<open>Multipart_Roundtrip\<close>: the forms a client sends are read back.
    \<open>Parser_Safety\<close>: no access outside the content buffer, for every limit whose buffer has a size, and
    the overflow for the one that has not.
  \<^item> \<open>Tcp_Connection\<close> (\<open>tcp_connection.hpp\<close>); \<open>Http_Response_Writer\<close> (\<open>http_response_writer.hpp\<close>:
    framing of whole and streamed responses).
  \<^item> \<open>Http_Server\<close> (\<open>http_server.hpp/.cpp\<close>): registration, routing, default handlers, the hook after
    the headers, \<open>handle_request\<close>, the registry of WebSocket connections.
    \<open>Http_Request_Reader\<close> (\<open>http_request_reader.hpp/.cpp\<close>); \<open>Request_Service\<close>: from the text of a
    request to the call of the server. \<open>Payload_Delivery\<close>: a body, plain or in chunks, from the reads of the
    connection to the payload handler, whatever the boundaries of the reads.
  \<^item> \<open>Scheduler\<close> (\<open>scheduler.hpp/.cpp\<close>); \<open>Tcp_Server\<close> (\<open>tcp_server.hpp/.cpp\<close>): the server as a
    transition system, its invariant, and its refinement of an abstract pool of connections, a
    completion with all it calls being one step. \<open>Tcp_Interleaving\<close>: the same server at the granularity of
    its mutex, with the other threads running between the sections under it; every step of
    \<open>Tcp_Server\<close> is a run of this system, and invariant and refinement hold for it too. \<open>Server_System\<close>:
    the HTTP server as the connection handler of the TCP server, how it can lock itself out of its
    mutex for good, and what its constructor asks of the SSL context.
  \<^item> \<open>Websocket\<close> (\<open>websocket.hpp\<close>) with its invariant, \<open>Websocket_Laws\<close> with what it means for
    messages, \<open>Websocket_Upgrade\<close>: the handshake from the text of the request.
  \<^item> \<open>Http_System\<close>: the running server, all components together. Its state has the TCP server with
    the connections, the owner of each connection (\<open>conn_task\<close>: a reader, the application, a
    WebSocket), the registry with its weak pointers, and the exceptions that reached a thread; a step
    (\<open>sys_step\<close>) is a call or the completion of an operation, in any order. It stays within its buffers,
    gives asio no memory that is gone but for close statuses, and refines the transition system of
    \<open>Tcp_Server\<close>. \<open>Http_Shutdown\<close>: from every state of a stopping server \<open>stop\<close> can complete.
    \<open>Request_Pipeline\<close>: requests that arrive together are answered in order.
  \<^item> \<open>Accessors\<close>, \<open>Http_Constants\<close>: the getters of all classes and the constants of \<open>http_message\<close> that
    the library offers to applications, with what they return. \<open>Diagnostics\<close> (\<open>logger.hpp\<close>,
    \<open>receive_error_t\<close>): what a log statement does.
  \<^item> This theory: a handler is registered, a request arrives, its answer goes out.

  \<^bold>\<open>How the code corresponds.\<close> Objects are records, members that the code leaves uninitialised
  are arguments of the constructors. Bytes are characters, strings lists of them; pointers into a
  buffer are the bytes from there on, or indices where the code computes with them. Where the
  width of an integer matters it is a word (version numbers and ports 16 bits, user counts and close
  statuses 32 bits, parsed numbers and hashes 64 bits), or the wrap-around is written out: content lengths
  and their limit are natural numbers, of which \<open>resize\<close> computes the size of the buffer modulo \<open>2 ^ 64\<close>.
  Other lengths are natural numbers: they count bytes that are in memory or have been received.
  Exceptions are \<open>Inl\<close> or an outcome of their own; an access outside a buffer is the exception
  \<open>Memory_fault\<close>, so safety is that it never occurs. Asynchronous operations are entries in the
  log of the connection, with the bytes of a write as they are at the call: the completion handlers hold
  the memory (caches of writer and WebSocket, the shared block of a broadcast) or it is constant, and the
  application promises as much for \<open>write_nocopy\<close>. The exception is the close status of a WebSocket, an
  argument that is gone when the call returns: \<open>async_write_borrowed\<close> logs its write, and the bytes asio
  finds, in time or later, are logged when it has read them. Completions of operations are calls of the completion handlers, in any order:
  \<open>server_step\<close>, \<open>il_step\<close>, \<open>ws_step\<close>, \<open>sys_step\<close> and \<open>scheduler_reach\<close> are the steps. Handlers of the application are
  arguments, functions of what they are given.

  \<^bold>\<open>Interfaces\<close> are locales: \<open>sl_env\<close> (utilities) and \<open>url_codec\<close> (its URL coding), \<open>multimap\<close> (the header map;
  a sublocale for every \<open>sl_env\<close>), \<open>headers_contract\<close> (what the parser relies on
  in the hook after the headers; interpreted by the hook of \<open>Http_Server\<close>), \<open>handler_registry\<close>
  (tables of handlers; interpreted for request and for payload handlers), \<open>frame_laws\<close> (what the
  WebSocket relies on in the frame library \<open>staticlib_websocket\<close>; interpreted by \<open>ws_ref\<close>, frames
  of up to 125 bytes of payload), \<open>refinement\<close> (forward simulation; interpreted for the server, with whole
  completions and with sections under the mutex as steps),
  \<open>running_system\<close> (a configuration of the running server; a sublocale of \<open>refinement\<close>, interpreted for
  the servers of the witnesses).

  \<^bold>\<open>Loops.\<close> All loops of the parsers are functions with a termination proof; no fuel is used. The
  loop of \<open>find_ws_conns\<close>, which may not end, is a partial function, and when it ends is proved.
  The waiting loops of \<open>stop\<close>, \<open>shutdown\<close> and \<open>join\<close> are modelled one round at a time. A thread
  that locks a mutex it holds is the outcome \<open>Ts_deadlock\<close>; in \<open>Tcp_Interleaving\<close> the mutex then stays
  locked and threads that need it make no step.

  \<^bold>\<open>Assumptions.\<close> \<open>start\<close> and \<open>stop\<close> are called by one thread. Code under a mutex or on a strand is
  atomic, and in \<open>sys_step\<close> so is a completion with all it calls. A connection is referred to by the pool and by its operation in flight, which decides
  \<open>unique()\<close> in \<open>prune_connections\<close>; the references that the handler of a timer and a posted broadcast
  hold for a moment are not counted. The bytes of a close status are those of a little-endian
  machine. Memory never runs out. Assertions hold (\<open>parse\<close> is called with bytes: a read delivers at least one).

  \<^bold>\<open>Not modelled.\<close> asio itself (sockets, timers, SSL), the log messages of the components (a log statement
  changes nothing else, see \<open>Diagnostics\<close>), accessors that return asio objects and the port of the peer,
  and functions that the sources declare and do not define (\<open>set_last_modified\<close>, \<open>handle_stop_request\<close>,
  \<open>is_parsing_request\<close>, \<open>is_parsing_response\<close>).
\<close>

section \<open>From the text of a request to the text of the answer\<close>

text \<open>
  C4: a request is answered by the handler registered for its path. After \<open>add_handler\<close> has
  accepted a handler that answers with one block of content, the text of any well-formed request of the
  same table whose path has the registered path as its nearest registered ancestor, read from an
  open connection, leads to the answer on that connection: the head of a 200 response with the
  length of the content, and the content itself, which is left out for a \<open>HEAD\<close> request.
\<close>

theorem full_request_cycle:
  fixes s :: "'ws http_server"
  assumes "add_handler meth0 path0 (reply_handler E reply) s0 = Inr s" and "reply \<noteq> []"
    and "same_table meth meth0" and "ancestor (strip_trailing_slash path0) (strip_trailing_slash res)"
    and "\<forall>t q. choose_handlers meth s0 = Inr t \<and> ancestor q (strip_trailing_slash res) \<and> t q \<noteq> None
           \<longrightarrow> length q \<le> length (strip_trailing_slash path0)"
    and "line_ok meth res query" and "list_all header_ok hs" and "ver \<noteq> 0" and "content_length_ok E hs"
    and "\<not> form_type E hs" and "\<not> upgrade_head E hs"
    and "\<not> (meth = REQUEST_METHOD_OPTIONS \<and> strip_trailing_slash res \<in> {''*'', ''/*''})"
    and "choose_payloads meth s = Inr payloads" and "find_submatch payloads (strip_trailing_slash res) = None"
    and "r = new_http_request_reader g1 g2 g3 t c0" and "is_open c"
  shows "\<exists>m c'. on_read E rf nf s r c (Read_ok (request_text meth res query ver sub hs @ body))
        = Completed (Handled c')
      \<and> headed_message E meth res query ver sub hs m
      \<and> sent_bytes c' = sent_bytes c
          @ (if iequals E ''100-continue'' (get_value E hs ''Expect'') then RESPONSE_FULLMESSAGE_100_CONTINUE else [])
          @ (if meth = REQUEST_METHOD_HEAD
             then response_head E (check_keep_alive E m) False (new_http_response m)
             else response_head E (check_keep_alive E m) False ((new_http_response m)\<lparr>m_content_length := length reply\<rparr>)
                  @ reply)"
proof -
  obtain m c1 where read: "on_read E rf nf s r c (Read_ok (request_text meth res query ver sub hs @ body))
        = Completed (handle_request E rf nf s m c1 EC_none)"
    and m: "m_is_valid m" "headed_message E meth res query ver sub hs m"
    and c1: "sent_bytes c1 = sent_bytes c
          @ (if iequals E ''100-continue'' (get_value E hs ''Expect'') then RESPONSE_FULLMESSAGE_100_CONTINUE else [])"
      "get_keep_alive c1 = check_keep_alive E m" "is_open c1"
    using served_request [OF assms(6-10,13-15), of rf nf c sub body] assms(16) by blast
  have hd: "m_headers m = hs" "rq_resource m = res" "rq_method m = meth" using m(2) by (simp_all add: headed_message_def)
  have "map_sum id (\<lambda>t. find_submatch t (strip_trailing_slash res)) (choose_handlers meth s)
      = Inr (Some (strip_trailing_slash path0, reply_handler E reply))"
    using request_handlers.lookup_add [OF assms(1), of meth "strip_trailing_slash res"]
    unfolding if_P [OF conjI [OF assms(3) conjI [OF assms(4,5)]]] request_handlers.lookup_def .
  then have "handle_request E rf nf s m c1 EC_none = Handled (snd (reply_handler E reply m (new_response_writer m) c1))"
    by (intro dispatch_found) (use m(1) assms(11,12) hd in \<open>simp_all add: upgrade_head_iff\<close>)
  with read have "on_read E rf nf s r c (Read_ok (request_text meth res query ver sub hs @ body))
        = Completed (Handled (snd (reply_handler E reply m (new_response_writer m) c1)))" by simp
  with reply_bytes [OF c1(3) assms(2), of E m] c1(1,2) hd(3) m(2) show ?thesis by auto
qed

theorem full_request_cycle_witness:
  "\<exists>m c' head. on_read utils_ref () () greeting_server (new_http_request_reader 0 0 False 1000 sample_conn) sample_conn
        (Read_ok (request_text ''GET'' ''/a/b'' [] 1 1 [] @ []))
        = Completed (Handled c')
      \<and> rq_resource (m :: http_request) = ''/a/b''
      \<and> sent_bytes c' = sent_bytes sample_conn @ head @ ''hello''"
proof -
  have add: "add_handler ''GET'' ''/a/'' (reply_handler utils_ref ''hello'') (new_http_server utils_ref 1000) = Inr greeting_server"
    by (simp add: add_handler_def emplace_def new_http_server_def strip_trailing_slash_def greeting_server_def method_names)
  have path: "strip_trailing_slash ''/a/'' = ''/a''" "ancestor ''/a'' ''/a/b''"
    by (simp_all add: strip_trailing_slash_def ancestor_def)
  have tables: "choose_handlers ''GET'' (new_http_server utils_ref 1000 :: unit http_server) = Inr Map.empty"
    by (simp add: choose_handlers_def choose_map_by_method_def new_http_server_def method_names)
  have misc: "same_table ''GET'' ''GET''" "(1 :: 16 word) \<noteq> 0" "is_open sample_conn" "''GET'' \<noteq> REQUEST_METHOD_OPTIONS"
    "''GET'' \<noteq> REQUEST_METHOD_HEAD"
    by (simp_all add: same_table_def sample_conn_def is_open_def method_names)
  have "\<not> iequals utils_ref ''100-continue'' []" by (simp add: iequals_ref_def upper_string_def)
  with full_request_cycle [where r = "new_http_request_reader 0 0 False 1000 sample_conn" and c = sample_conn and sub = 1
      and body = "[]" and rf = "()" and nf = "()" and payloads = Map.empty and hs = "[]" and ver = 1 and s = greeting_server, OF add _ misc(1) _ _ greeting_lines(1) _ misc(2) no_headers(1-3) _ greeting_tables(1) _ refl misc(3)]
  obtain m c' where "on_read utils_ref () () greeting_server (new_http_request_reader 0 0 False 1000 sample_conn) sample_conn
        (Read_ok (request_text ''GET'' ''/a/b'' [] 1 1 [] @ [])) = Completed (Handled c')"
    "headed_message utils_ref ''GET'' ''/a/b'' [] 1 1 [] m"
    "sent_bytes c' = sent_bytes sample_conn
      @ response_head utils_ref (check_keep_alive utils_ref m) False ((new_http_response m)\<lparr>m_content_length := length ''hello''\<rparr>)
      @ ''hello''"
    by (auto simp: path tables greeting_path no_headers misc find_submatch_None)
  moreover from this(2) have "rq_resource m = ''/a/b''" by (simp add: headed_message_def)
  ultimately show ?thesis by blast
qed

end
